(* ===== verification/Nds_Prelude.thy ===== *)
theory Nds_Prelude
  imports Main "HOL-Library.Word" "HOL-Library.Monad_Syntax" "HOL-Library.Sublist"
    "HOL-Library.Code_Target_Nat"
begin

unbundle bit_operations_syntax

text \<open>
  Shared vocabulary of the development: the parts of the C language and of the C library that
  nodogsplash uses in more than one file.

  A C string (a \<open>char *\<close> up to its terminating NUL) is a HOL \<^typ>\<open>string\<close> without the NUL; a char
  buffer (\<open>char buf[N]\<close>) is a \<^typ>\<open>string\<close> of length \<open>N\<close>, its NULs included, and a store outside it
  is the value \<^const>\<open>None\<close>. Characters are classified as in the C locale. Lemmas that the
  components share are declared here, \<open>[simp]\<close> or in one of the collections below:
  \<open>nds_unfold\<close> (definitions of operations that proofs unfold freely) and \<open>nds_frame\<close> (which parts
  of the state an operation leaves alone).
\<close>

named_theorems nds_unfold \<open>definitions that are unfolded in proofs about their callers\<close>
named_theorems nds_frame \<open>parts of the state that an operation does not change\<close>

section \<open>Characters: \<open>ctype.h\<close> in the C locale\<close>

abbreviation NUL :: char where
  "NUL \<equiv> CHR 0x00"

abbreviation TAB :: char where
  "TAB \<equiv> CHR 0x09"

abbreviation NL :: char where
  "NL \<equiv> CHR 0x0A"

abbreviation CR :: char where
  "CR \<equiv> CHR 0x0D"

abbreviation code :: "char \<Rightarrow> nat" where
  "code \<equiv> of_char"

definition isblank :: "char \<Rightarrow> bool" where
  "isblank c \<longleftrightarrow> c = CHR '' '' \<or> c = TAB"

definition isspace :: "char \<Rightarrow> bool" where
  "isspace c \<longleftrightarrow> code c = 32 \<or> (9 \<le> code c \<and> code c \<le> 13)"

definition isdigit :: "char \<Rightarrow> bool" where
  "isdigit c \<longleftrightarrow> 48 \<le> code c \<and> code c \<le> 57"

definition isalpha :: "char \<Rightarrow> bool" where
  "isalpha c \<longleftrightarrow> (65 \<le> code c \<and> code c \<le> 90) \<or> (97 \<le> code c \<and> code c \<le> 122)"

definition isalnum :: "char \<Rightarrow> bool" where
  "isalnum c \<longleftrightarrow> isalpha c \<or> isdigit c"

definition isxdigit :: "char \<Rightarrow> bool" where
  "isxdigit c \<longleftrightarrow> isdigit c \<or> (65 \<le> code c \<and> code c \<le> 70) \<or> (97 \<le> code c \<and> code c \<le> 102)"

definition tolower :: "char \<Rightarrow> char" where
  "tolower c = (if 65 \<le> code c \<and> code c \<le> 90 then char_of (code c + 32) else c)"

lemma isblank_isspace: "isblank c \<Longrightarrow> isspace c"
  by (auto simp: isblank_def isspace_def)

section \<open>Strings: \<open>string.h\<close> and \<open>strings.h\<close>\<close>

text \<open>\<open>strcmp(s, t) == 0\<close> is equality of the strings; the other comparisons used are these.\<close>

definition strcasecmp_eq :: "string \<Rightarrow> string \<Rightarrow> bool" where
  "strcasecmp_eq s t \<longleftrightarrow> map tolower s = map tolower t"

definition strncmp_eq :: "string \<Rightarrow> string \<Rightarrow> nat \<Rightarrow> bool" where
  "strncmp_eq s t n \<longleftrightarrow> take n s = take n t"

lemma strcasecmp_eq_refl [simp]: "strcasecmp_eq s s"
  by (simp add: strcasecmp_eq_def)

lemma strcasecmp_eq_sym: "strcasecmp_eq s t \<longleftrightarrow> strcasecmp_eq t s"
  by (auto simp: strcasecmp_eq_def)

lemma strcasecmp_eq_trans: "strcasecmp_eq s t \<Longrightarrow> strcasecmp_eq t u \<Longrightarrow> strcasecmp_eq s u"
  by (simp add: strcasecmp_eq_def)

text \<open>The string that a char buffer holds: its bytes up to the first NUL.\<close>

definition cstr :: "string \<Rightarrow> string" where
  "cstr buf = takeWhile (\<lambda>c. c \<noteq> NUL) buf"

section \<open>Stores into buffers\<close>

text \<open>\<open>buf[i] = x\<close>: outside the buffer the store is undefined behaviour, here \<^const>\<open>None\<close>.\<close>

definition store :: "'a list \<Rightarrow> nat \<Rightarrow> 'a \<Rightarrow> 'a list option" where
  "store buf i x = (if i < length buf then Some (buf[i := x]) else None)"

lemma store_Some [simp]: "i < length buf \<Longrightarrow> store buf i x = Some (buf[i := x])"
  by (simp add: store_def)

lemma store_None [simp]: "\<not> i < length buf \<Longrightarrow> store buf i x = None"
  by (simp add: store_def)

lemma store_length: "store buf i x = Some buf' \<Longrightarrow> length buf' = length buf"
  by (auto simp: store_def split: if_splits)

lemma take_list_update_snoc:
  "i < length xs \<Longrightarrow> take (Suc i) (xs[i := x]) = take i xs @ [x]"
  by (simp add: take_Suc_conv_app_nth)

section \<open>Splitting at a separator\<close>

fun split_at :: "'a \<Rightarrow> 'a list \<Rightarrow> 'a list list" where
  "split_at s [] = [[]]"
| "split_at s (x # xs) =
     (if x = s then [] # split_at s xs
      else case split_at s xs of [] \<Rightarrow> [[x]] | y # ys \<Rightarrow> (x # y) # ys)"

lemma split_at_ne [simp]: "split_at s xs \<noteq> []"
  by (induction xs) (auto split: list.splits)

lemma split_at_no_sep: "s \<notin> set xs \<Longrightarrow> split_at s xs = [xs]"
  by (induction xs) auto

lemma split_at_append:
  "s \<notin> set xs \<Longrightarrow> split_at s (xs @ s # ys) = xs # split_at s ys"
  by (induction xs) auto

lemma split_at_parts: "p \<in> set (split_at s xs) \<Longrightarrow> s \<notin> set p"
  by (induction xs arbitrary: p) (force split: if_splits list.splits)+

text \<open>Rebuilding a list from its parts, each introduced by the separator.\<close>

definition join_with :: "'a \<Rightarrow> 'a list list \<Rightarrow> 'a list" where
  "join_with s ps = concat (map (Cons s) ps)"

lemma join_with_simps [simp]:
  "join_with s [] = []"
  "join_with s (p # ps) = s # p @ join_with s ps"
  "join_with s (ps @ qs) = join_with s ps @ join_with s qs"
  by (simp_all add: join_with_def)

lemma join_with_split_at: "join_with s (split_at s xs) = s # xs"
  by (induction xs) (auto split: list.splits)

lemma split_at_join:
  "s \<notin> set p \<Longrightarrow> \<forall>q \<in> set ps. s \<notin> set q \<Longrightarrow> split_at s (p @ join_with s ps) = p # ps"
  by (induction ps arbitrary: p) (auto simp: split_at_no_sep split_at_append)

end
