(* ===== verification/Libc.thy ===== *)
theory Libc
  imports Nds_Prelude
begin

text \<open>
  The rest of the C library that the sources rely on: printing and scanning of numbers
  (\<open>printf\<close>, \<open>sscanf\<close>, \<open>fscanf\<close>, \<open>strtol\<close>), 32-bit \<open>int\<close> arithmetic, \<open>inet_pton(AF_INET, ..)\<close> and
  \<open>ether_aton\<close>, as glibc implements them. The last part shows what the address parsers accept.
\<close>

section \<open>Integers\<close>

text \<open>A C \<open>int\<close> holds 32 bits; results are wrapped to it (two's complement).\<close>

definition to_int32 :: "int \<Rightarrow> int" where
  "to_int32 i = signed_take_bit 31 i"

definition is_int32 :: "int \<Rightarrow> bool" where
  "is_int32 i \<longleftrightarrow> - (2 ^ 31) \<le> i \<and> i < 2 ^ 31"

lemma to_int32_code [code]: "to_int32 i = (i + 2147483648) mod 4294967296 - 2147483648"
  by (simp add: to_int32_def signed_take_bit_eq_take_bit_shift take_bit_eq_mod)

lemma to_int32_id [simp]: "is_int32 i \<Longrightarrow> to_int32 i = i"
  by (simp add: to_int32_def is_int32_def signed_take_bit_int_eq_self)

lemma is_int32_to_int32 [simp]: "is_int32 (to_int32 i)"
  using signed_take_bit_int_greater_eq_minus_exp [of 31 i] signed_take_bit_int_less_exp [of 31 i]
  by (simp add: to_int32_def is_int32_def)

text \<open>C division truncates towards zero.\<close>

definition c_div :: "int \<Rightarrow> int \<Rightarrow> int" where
  "c_div a b = (if (a < 0) = (b < 0) then \<bar>a\<bar> div \<bar>b\<bar> else - (\<bar>a\<bar> div \<bar>b\<bar>))"

lemma c_div_nonneg: "0 \<le> a \<Longrightarrow> 0 < b \<Longrightarrow> c_div a b = a div b"
  by (simp add: c_div_def)

section \<open>Printing\<close>

definition digit_char :: "nat \<Rightarrow> char" where
  "digit_char n = ''0123456789abcdef'' ! n"

fun show_base :: "nat \<Rightarrow> nat \<Rightarrow> string" where
  "show_base b n =
     (if b < 2 \<or> n < b then [digit_char n] else show_base b (n div b) @ [digit_char (n mod b)])"

declare show_base.simps [simp del]

definition show_nat :: "nat \<Rightarrow> string" where
  "show_nat n = show_base 10 n"

text \<open>\<open>%d\<close> and \<open>%lld\<close>, \<open>%u\<close> and \<open>%llu\<close>, \<open>%x\<close>, and \<open>%04hx\<close>.\<close>

definition show_int :: "int \<Rightarrow> string" where
  "show_int i = (if i < 0 then CHR ''-'' # show_nat (nat (- i)) else show_nat (nat i))"

definition show_word :: "'a::len word \<Rightarrow> string" where
  "show_word w = show_nat (unat w)"

definition show_hex :: "'a::len word \<Rightarrow> string" where
  "show_hex w = show_base 16 (unat w)"

definition show_hex4 :: "nat \<Rightarrow> string" where
  "show_hex4 n = (let s = show_base 16 (n mod 65536) in replicate (4 - length s) (CHR ''0'') @ s)"

definition digit_val :: "char \<Rightarrow> nat" where
  "digit_val c =
     (if isdigit c then code c - 48
      else if 97 \<le> code c then code c - 97 + 10
      else code c - 65 + 10)"

definition val_base :: "nat \<Rightarrow> string \<Rightarrow> nat" where
  "val_base b ds = foldl (\<lambda>v c. v * b + digit_val c) 0 ds"

section \<open>Scanning\<close>

text \<open>The conversion directives of the formats that the sources use.\<close>

datatype directive =
    FSpace                       \<comment> \<open>white space\<close>
  | FLit char                    \<comment> \<open>any other character\<close>
  | FInt                         \<comment> \<open>\<open>%d\<close>\<close>
  | FIntAuto                     \<comment> \<open>\<open>%i\<close>\<close>
  | FUnsigned                    \<comment> \<open>\<open>%u\<close>\<close>
  | FHex                         \<comment> \<open>\<open>%x\<close>\<close>
  | FULongLong                   \<comment> \<open>\<open>%llu\<close>\<close>
  | FWord                        \<comment> \<open>\<open>%s\<close>\<close>
  | FSkipWord                    \<comment> \<open>\<open>%*s\<close>\<close>
  | FSkipInt                     \<comment> \<open>\<open>%*d\<close>\<close>
  | FSet nat "char \<Rightarrow> bool"      \<comment> \<open>\<open>%N[..]\<close>\<close>

datatype scanned = SInt int | SStr string

text \<open>Outcome of one directive: end of input, mismatch, or a match with what it stores, and the rest.\<close>

datatype step = InputEnd | Mismatch string | Matched "scanned option" string

definition skip_space :: "string \<Rightarrow> string" where
  "skip_space s = dropWhile isspace s"

definition take_sign :: "string \<Rightarrow> bool \<times> string" where
  "take_sign s = (case s of
       [] \<Rightarrow> (False, s)
     | c # s' \<Rightarrow> if c = CHR ''-'' then (True, s') else if c = CHR ''+'' then (False, s') else (False, s))"

definition strip_0x :: "string \<Rightarrow> string" where
  "strip_0x s = (case s of
       z # x # s' \<Rightarrow> if z = CHR ''0'' \<and> (x = CHR ''x'' \<or> x = CHR ''X'') then s' else s
     | _ \<Rightarrow> s)"

definition is_octal :: "char \<Rightarrow> bool" where
  "is_octal c \<longleftrightarrow> 48 \<le> code c \<and> code c \<le> 55"

definition auto_base :: "string \<Rightarrow> nat" where
  "auto_base s = (if strip_0x s \<noteq> s then 16 else case s of [] \<Rightarrow> 10 | c # _ \<Rightarrow> if c = CHR ''0'' then 8 else 10)"

definition digit_class :: "nat \<Rightarrow> char \<Rightarrow> bool" where
  "digit_class base = (if base = 16 then isxdigit else if base = 8 then is_octal else isdigit)"

text \<open>Sign, magnitude and rest of a number in the given base (0: as its prefix says).\<close>

definition scan_number :: "nat \<Rightarrow> string \<Rightarrow> (bool \<times> nat \<times> string) option" where
  "scan_number base s =
     (let (neg, s1) = take_sign s;
          b = (if base = 0 then auto_base s1 else base);
          s2 = (if b = 16 then strip_0x s1 else s1);
          ds = takeWhile (digit_class b) s2
      in if ds = [] then None else Some (neg, val_base b ds, dropWhile (digit_class b) s2))"

text \<open>Conversion to the stored type: the \<open>long\<close> result saturates at 64 bits and is cut to the target.\<close>

definition as_int :: "bool \<Rightarrow> nat \<Rightarrow> int" where
  "as_int neg n =
     to_int32 (if neg then max (- (2 ^ 63)) (- int n) else min (2 ^ 63 - 1) (int n))"

definition as_unsigned :: "nat \<Rightarrow> bool \<Rightarrow> nat \<Rightarrow> int" where
  "as_unsigned w neg n =
     (let m = (if n < 2 ^ 64 then (if neg then (- int n) mod 2 ^ 64 else int n) else 2 ^ 64 - 1)
      in m mod 2 ^ w)"

definition scan_with :: "nat \<Rightarrow> (bool \<Rightarrow> nat \<Rightarrow> scanned option) \<Rightarrow> string \<Rightarrow> step" where
  "scan_with base conv s =
     (let s' = skip_space s in
      if s' = [] then InputEnd
      else case scan_number base s' of
          None \<Rightarrow> Mismatch s'
        | Some (neg, n, rest) \<Rightarrow> Matched (conv neg n) rest)"

definition scan_word :: "(string \<Rightarrow> scanned option) \<Rightarrow> string \<Rightarrow> step" where
  "scan_word conv s =
     (let s' = skip_space s in
      if s' = [] then InputEnd
      else Matched (conv (takeWhile (\<lambda>c. \<not> isspace c) s')) (dropWhile (\<lambda>c. \<not> isspace c) s'))"

fun scan_step :: "directive \<Rightarrow> string \<Rightarrow> step" where
  "scan_step FSpace s = Matched None (skip_space s)"
| "scan_step (FLit c) s =
     (case s of [] \<Rightarrow> InputEnd | d # s' \<Rightarrow> if d = c then Matched None s' else Mismatch s)"
| "scan_step FInt s = scan_with 10 (\<lambda>neg n. Some (SInt (as_int neg n))) s"
| "scan_step FIntAuto s = scan_with 0 (\<lambda>neg n. Some (SInt (as_int neg n))) s"
| "scan_step FUnsigned s = scan_with 10 (\<lambda>neg n. Some (SInt (as_unsigned 32 neg n))) s"
| "scan_step FHex s = scan_with 16 (\<lambda>neg n. Some (SInt (as_unsigned 32 neg n))) s"
| "scan_step FULongLong s = scan_with 10 (\<lambda>neg n. Some (SInt (as_unsigned 64 neg n))) s"
| "scan_step FWord s = scan_word (\<lambda>w. Some (SStr w)) s"
| "scan_step FSkipWord s = scan_word (\<lambda>w. None) s"
| "scan_step FSkipInt s = scan_with 10 (\<lambda>neg n. None) s"
| "scan_step (FSet n p) s =
     (let m = takeWhile p (take n s) in
      if s = [] then InputEnd else if m = [] then Mismatch s
      else Matched (Some (SStr m)) (drop (length m) s))"

text \<open>
  \<open>sscanf\<close>/\<open>fscanf\<close>: the number of stored values, \<open>-1\<close> (\<open>EOF\<close>) if the input ends before any was stored;
  the stored values; the unread input.
\<close>

fun scanf_from :: "directive list \<Rightarrow> scanned list \<Rightarrow> string \<Rightarrow> int \<times> scanned list \<times> string" where
  "scanf_from [] vs s = (int (length vs), vs, s)"
| "scanf_from (d # ds) vs s =
     (case scan_step d s of
        InputEnd \<Rightarrow> (if vs = [] then -1 else int (length vs), vs, [])
      | Mismatch s' \<Rightarrow> (int (length vs), vs, s')
      | Matched None s' \<Rightarrow> scanf_from ds vs s'
      | Matched (Some v) s' \<Rightarrow> scanf_from ds (vs @ [v]) s')"

definition scanf :: "directive list \<Rightarrow> string \<Rightarrow> int \<times> scanned list \<times> string" where
  "scanf ds s = scanf_from ds [] s"

text \<open>\<open>sscanf(s, fmt, &x)\<close> of one value.\<close>

definition sscanf1 :: "directive \<Rightarrow> string \<Rightarrow> int \<times> scanned option" where
  "sscanf1 d s = (case scanf [d] s of (rc, v # _, _) \<Rightarrow> (rc, Some v) | (rc, [], _) \<Rightarrow> (rc, None))"

fun scan_int :: "scanned \<Rightarrow> int" where
  "scan_int (SInt i) = i"
| "scan_int (SStr _) = 0"

fun scan_str :: "scanned \<Rightarrow> string" where
  "scan_str (SStr w) = w"
| "scan_str (SInt _) = []"

text \<open>\<open>strtol(s, &end, 10)\<close>: the value, and whether \<open>end\<close> is the end of the string.\<close>

definition strtol10 :: "string \<Rightarrow> int \<times> bool" where
  "strtol10 s =
     (case scan_number 10 (skip_space s) of
        None \<Rightarrow> (0, s = [])
      | Some (neg, n, rest) \<Rightarrow>
          (if neg then max (- (2 ^ 63)) (- int n) else min (2 ^ 63 - 1) (int n), rest = []))"

section \<open>Reading lines\<close>

text \<open>\<open>fgets(line, n, fd)\<close>: \<^const>\<open>None\<close> at the end of the file, otherwise the string read and the rest.\<close>

definition fgets :: "nat \<Rightarrow> string \<Rightarrow> (string \<times> string) option" where
  "fgets n s =
     (if s = [] then None
      else
        let l = takeWhile (\<lambda>c. c \<noteq> NL) (take (n - 1) s); k = length l;
            k' = (if k < n - 1 \<and> k < length s then Suc k else k)
        in Some (cstr (take k' s), drop k' s))"

lemma fgets_shorter: "fgets n s = Some (l, r) \<Longrightarrow> 1 < n \<Longrightarrow> length r < length s"
proof -
  assume *: "fgets n s = Some (l, r)" "1 < n"
  let ?k = "length (takeWhile (\<lambda>c. c \<noteq> NL) (take (n - 1) s))"
  have "?k \<le> length (take (n - 1) s)" by (rule length_takeWhile_le)
  then have "0 < (if ?k < n - 1 \<and> ?k < length s then Suc ?k else ?k)" if "s \<noteq> []"
    using that *(2) by (cases s) auto
  then show "length r < length s" using * by (auto simp: fgets_def Let_def split: if_splits)
qed

section \<open>Addresses\<close>

text \<open>\<open>inet_pton(AF_INET, s, ..) > 0\<close>; \<open>cur\<close> is the octet being read, if it has a digit.\<close>

fun inet_pton4_loop :: "nat option \<Rightarrow> nat \<Rightarrow> string \<Rightarrow> bool" where
  "inet_pton4_loop cur octets [] = (octets = 4)"
| "inet_pton4_loop cur octets (ch # s) =
     (if isdigit ch then
        (case cur of
           None \<Rightarrow> if octets + 1 > 4 then False else inet_pton4_loop (Some (digit_val ch)) (octets + 1) s
         | Some v \<Rightarrow>
             if v = 0 \<or> v * 10 + digit_val ch > 255 then False
             else inet_pton4_loop (Some (v * 10 + digit_val ch)) octets s)
      else if ch = CHR ''.'' \<and> cur \<noteq> None then
        (if octets = 4 then False else inet_pton4_loop None octets s)
      else False)"

definition inet_pton4 :: "string \<Rightarrow> bool" where
  "inet_pton4 s = inet_pton4_loop None 0 s"

text \<open>
  \<open>ether_aton(s) != NULL\<close>: six groups of one or two hexadecimal digits; behind two digits of the
  last group anything may follow, behind one digit only the end or white space.
\<close>

fun ether_group :: "nat \<Rightarrow> string \<Rightarrow> string option" where
  "ether_group cnt [] = None"
| "ether_group cnt (ch # s) =
     (if \<not> isxdigit ch then None
      else
        let one = (case s of
            [] \<Rightarrow> cnt = 5
          | c # _ \<Rightarrow> (cnt < 5 \<and> c = CHR '':'') \<or> (cnt = 5 \<and> isspace c))
        in if one then Some (drop 1 s)
           else case s of
               [] \<Rightarrow> None
             | c # s' \<Rightarrow>
                 if \<not> isxdigit c then None
                 else if cnt < 5 \<and> (s' = [] \<or> hd s' \<noteq> CHR '':'') then None
                 else Some (drop 1 s'))"

fun ether_aton_loop :: "nat \<Rightarrow> nat \<Rightarrow> string \<Rightarrow> bool" where
  "ether_aton_loop 0 cnt s = True"
| "ether_aton_loop (Suc left) cnt s =
     (case ether_group cnt s of None \<Rightarrow> False | Some s' \<Rightarrow> ether_aton_loop left (cnt + 1) s')"

definition ether_aton :: "string \<Rightarrow> bool" where
  "ether_aton s = ether_aton_loop 6 0 s"

section \<open>Lemmas on numbers\<close>

lemma nat_less_16_cases:
  "n < (16::nat) \<Longrightarrow> n \<in> {0, 1, 2, 3, 4, 5, 6, 7, 8, 9, 10, 11, 12, 13, 14, 15}"
  unfolding insert_iff empty_iff by presburger

lemma digit_char_props:
  assumes "n < 16"
  shows digit_val_digit_char [simp]: "digit_val (digit_char n) = n"
    and isxdigit_digit_char [simp]: "isxdigit (digit_char n)"
    and isdigit_digit_char [simp]: "isdigit (digit_char n) \<longleftrightarrow> n < 10"
  using nat_less_16_cases [OF assms]
  by (auto simp: digit_char_def digit_val_def isxdigit_def isdigit_def)

lemma val_base_snoc: "val_base b (ds @ [c]) = val_base b ds * b + digit_val c"
  by (simp add: val_base_def)

lemma val_base_show_base: "2 \<le> b \<Longrightarrow> b \<le> 16 \<Longrightarrow> val_base b (show_base b n) = n"
proof (induction b n rule: show_base.induct)
  case (1 b n)
  show ?case
  proof (cases "n < b")
    case True
    with 1 show ?thesis by (subst show_base.simps) (simp add: val_base_def)
  next
    case False
    have "n mod b < 16" using 1(2,3) mod_less_divisor [of b n] by linarith
    with False 1 show ?thesis by (subst show_base.simps) (simp add: val_base_snoc)
  qed
qed

lemma set_show_base:
  "2 \<le> b \<Longrightarrow> b \<le> 16 \<Longrightarrow> c \<in> set (show_base b n) \<Longrightarrow> \<exists>d < b. c = digit_char d"
proof (induction b n rule: show_base.induct)
  case (1 b n)
  show ?case
  proof (cases "n < b")
    case True
    with 1(4) show ?thesis by (subst (asm) show_base.simps) auto
  next
    case False
    with 1(4) have "c \<in> set (show_base b (n div b)) \<or> c = digit_char (n mod b)"
      using 1(2) by (subst (asm) show_base.simps) auto
    moreover have "n mod b < b" using 1(2) by simp
    ultimately show ?thesis using 1(1-3) False by fastforce
  qed
qed

lemma show_base_ne [simp]: "show_base b n \<noteq> []"
  by (subst show_base.simps) simp

lemma val_show_nat [simp]: "val_base 10 (show_nat n) = n"
  by (simp add: show_nat_def val_base_show_base)

lemma show_nat_inj [simp]: "show_nat m = show_nat n \<longleftrightarrow> m = n"
  by (metis val_show_nat)

lemma set_show_nat: "c \<in> set (show_nat n) \<Longrightarrow> isdigit c"
  using set_show_base [of 10 c n] by (auto simp: show_nat_def)

lemma show_nat_ne [simp]: "show_nat n \<noteq> []"
  by (simp add: show_nat_def)

lemma show_nat_digit:
  "show_nat n = (if n < 10 then [digit_char n] else show_nat (n div 10) @ [digit_char (n mod 10)])"
  by (simp add: show_nat_def show_base.simps [of 10 n])

lemma code_digit_char: "n < 10 \<Longrightarrow> code (digit_char n) = 48 + n"
  using nat_less_16_cases [of n] by (auto simp: digit_char_def)

lemma digit_char_of_digit:
  assumes "isdigit c"
  shows "digit_val c < 10 \<and> digit_char (digit_val c) = c"
proof -
  obtain n where n: "code c = 48 + n" "n < 10"
    using assms by (auto simp: isdigit_def le_iff_add)
  then have "code (digit_char n) = code c" by (simp add: code_digit_char)
  then have "digit_char n = c" by (metis char_of_char)
  with n assms show ?thesis by (simp add: digit_val_def)
qed

lemma show_nat_snoc:
  "isdigit c \<Longrightarrow> v \<noteq> 0 \<Longrightarrow> show_nat v @ [c] = show_nat (v * 10 + digit_val c)"
  using digit_char_of_digit [of c] by (subst (2) show_nat_digit) auto

section \<open>Scanning consumes its input\<close>

lemma scan_step_rest:
  "scan_step d s = Mismatch r \<or> scan_step d s = Matched v r \<Longrightarrow> length r \<le> length s"
proof -
  have dw: "length (dropWhile p (xs :: string)) \<le> length xs" for p xs by (rule length_dropWhile_le)
  have sk: "length (skip_space xs) \<le> length xs" for xs by (simp add: skip_space_def dw)
  have num: "scan_number b xs = Some (n, v, ys) \<Longrightarrow> length ys \<le> length xs" for b xs n v ys
  proof -
    have ts: "length (snd (take_sign xs)) \<le> length xs"
      by (simp add: take_sign_def split: list.split)
    have s0: "length (strip_0x ys) \<le> length ys" for ys
      by (simp add: strip_0x_def split: list.split)
    assume "scan_number b xs = Some (n, v, ys)"
    then obtain q where "ys = dropWhile q (strip_0x (snd (take_sign xs))) \<or> ys = dropWhile q (snd (take_sign xs))"
      by (auto simp: scan_number_def Let_def split: prod.splits if_splits)
    then show "length ys \<le> length xs" using ts s0 dw by (metis order_trans)
  qed
  have sw: "scan_with b conv s = Mismatch r \<or> scan_with b conv s = Matched v r \<Longrightarrow> length r \<le> length s"
    for b conv
    using sk [of s]
    by (auto simp: scan_with_def Let_def split: if_splits option.splits prod.splits
        dest!: num intro: order_trans)
  have wd: "scan_word conv s = Mismatch r \<or> scan_word conv s = Matched v r \<Longrightarrow> length r \<le> length s" for conv
    using sk [of s] dw [of _ "skip_space s"]
    by (auto simp: scan_word_def Let_def split: if_splits intro: order_trans)
  show "scan_step d s = Mismatch r \<or> scan_step d s = Matched v r \<Longrightarrow> length r \<le> length s"
    using sw wd sk by (cases d) (auto simp: Let_def split: list.splits if_splits)
qed

lemma scanf_from_values:
  assumes "scanf_from ds vs s = (rc, vs', r)" and "\<forall>v \<in> set vs. P v"
    and "\<forall>d \<in> set ds. \<forall>s v r. scan_step d s = Matched (Some v) r \<longrightarrow> P v"
  shows "(\<forall>v \<in> set vs'. P v) \<and> rc \<le> int (length vs')"
  using assms
proof (induction ds arbitrary: vs s)
  case (Cons d ds)
  have ds: "\<forall>d \<in> set ds. \<forall>s v r. scan_step d s = Matched (Some v) r \<longrightarrow> P v" using Cons.prems(3) by simp
  show ?case
  proof (cases "scan_step d s")
    case InputEnd
    then show ?thesis using Cons.prems(1,2) by (auto split: if_splits)
  next
    case (Mismatch s')
    then show ?thesis using Cons.prems(1,2) by auto
  next
    case (Matched v s')
    show ?thesis
    proof (cases v)
      case None
      then show ?thesis using Cons.IH [OF _ Cons.prems(2) ds, of s'] Cons.prems(1) Matched by simp
    next
      case (Some w)
      then have "P w" using Matched Cons.prems(3) by (metis list.set_intros(1))
      then have "\<forall>v \<in> set (vs @ [w]). P v" using Cons.prems(2) by simp
      from Cons.IH [OF _ this ds, of s'] show ?thesis using Cons.prems(1) Matched Some by simp
    qed
  qed
qed auto

lemma scanf_from_rest: "scanf_from ds vs s = (rc, vs', r) \<Longrightarrow> length r \<le> length s"
proof (induction ds vs s rule: scanf_from.induct)
  case (2 d ds vs s)
  then show ?case
    using scan_step_rest [of d s]
    by (fastforce split: step.splits option.splits intro: order_trans)
qed simp

section \<open>What the address parsers accept\<close>

fun dotted :: "nat list \<Rightarrow> string" where
  "dotted [] = []"
| "dotted [n] = show_nat n"
| "dotted (n # m # ns) = show_nat n @ CHR ''.'' # dotted (m # ns)"

lemma not_isdigit_dot [simp]: "\<not> isdigit (CHR ''.'')"
  by (simp add: isdigit_def)

lemma inet_pton4_loop_show:
  "a < 256 \<Longrightarrow> k < 4 \<Longrightarrow>
   inet_pton4_loop None k (show_nat a @ s) = inet_pton4_loop (Some a) (k + 1) s"
proof (induction a arbitrary: s rule: less_induct)
  case (less a)
  show ?case
  proof (cases "a < 10")
    case True
    then show ?thesis using less.prems by (subst show_nat_digit) simp
  next
    case False
    then have "inet_pton4_loop None k (show_nat a @ s)
        = inet_pton4_loop (Some (a div 10)) (k + 1) (digit_char (a mod 10) # s)"
      using less.IH [of "a div 10" "digit_char (a mod 10) # s"] less.prems
      by (subst show_nat_digit) simp
    also have "\<dots> = inet_pton4_loop (Some a) (k + 1) s"
      using False less.prems by (simp add: mult.commute div_eq_0_iff)
    finally show ?thesis .
  qed
qed

lemma inet_pton4_dotted:
  "length ns = 4 - k \<Longrightarrow> k < 4 \<Longrightarrow> \<forall>n \<in> set ns. n < 256 \<Longrightarrow> inet_pton4_loop None k (dotted ns)"
proof (induction ns arbitrary: k rule: dotted.induct)
  case (2 n)
  then show ?case using inet_pton4_loop_show [of n k "[]"] by simp
next
  case (3 n m ns)
  then show ?case using 3(1) [of "k + 1"] by (simp add: inet_pton4_loop_show)
qed simp

lemma inet_pton4_loop_accepts:
  "inet_pton4_loop cur k s \<Longrightarrow>
   (case cur of None \<Rightarrow> k < 4 | Some v \<Rightarrow> v < 256 \<and> 1 \<le> k \<and> k \<le> 4) \<Longrightarrow>
   \<exists>ns. length ns = (case cur of None \<Rightarrow> 4 - k | Some _ \<Rightarrow> 5 - k) \<and> (\<forall>n \<in> set ns. n < 256)
      \<and> (case cur of None \<Rightarrow> [] | Some v \<Rightarrow> show_nat v) @ s = dotted ns"
proof (induction cur k s rule: inet_pton4_loop.induct)
  case (1 cur k)
  then show ?case by (cases cur) (auto intro: exI [of _ "[the cur]"])
next
  case (2 cur k ch s)
  show ?case
  proof (cases cur)
    case None
    then have "isdigit ch" "k + 1 \<le> 4" "inet_pton4_loop (Some (digit_val ch)) (k + 1) s"
      using 2(4) by (auto split: if_splits)
    moreover have "show_nat (digit_val ch) = [ch]" "digit_val ch < 256"
      using digit_char_of_digit [OF \<open>isdigit ch\<close>] by (auto simp: show_nat_digit)
    ultimately show ?thesis using 2(1) [OF _ None] None by auto
  next
    case (Some v)
    show ?thesis
    proof (cases "isdigit ch")
      case True
      then have "v \<noteq> 0" "v * 10 + digit_val ch < 256"
        "inet_pton4_loop (Some (v * 10 + digit_val ch)) k s"
        using 2(4) Some by (auto split: if_splits)
      moreover have "show_nat v @ ch # s = show_nat (v * 10 + digit_val ch) @ s"
        using show_nat_snoc [OF True \<open>v \<noteq> 0\<close>] by simp
      ultimately show ?thesis using 2(2) [OF True Some] 2(5) Some by (simp only: option.case) auto
    next
      case False
      then have "ch = CHR ''.''" "k < 4" "inet_pton4_loop None k s"
        using 2(4,5) Some by (auto split: if_splits)
      then obtain ns where "length ns = 4 - k" "\<forall>n \<in> set ns. n < 256" "s = dotted ns"
        using 2(3) [OF False] Some by auto
      then show ?thesis
        using 2(5) Some \<open>k < 4\<close> \<open>ch = CHR ''.''\<close>
        by (intro exI [of _ "v # ns"]) (cases ns; auto)
    qed
  qed
qed

lemma inet_pton4_iff:
  "inet_pton4 s \<longleftrightarrow> (\<exists>ns. length ns = 4 \<and> (\<forall>n \<in> set ns. n < 256) \<and> s = dotted ns)"
  using inet_pton4_loop_accepts [of None 0 s] inet_pton4_dotted [of _ 0]
  by (auto simp: inet_pton4_def)

lemma set_dotted: "c \<in> set (dotted ns) \<Longrightarrow> isdigit c \<or> c = CHR ''.''"
  by (induction ns rule: dotted.induct) (auto dest: set_show_nat)

lemma inet_pton4_chars: "inet_pton4 s \<Longrightarrow> c \<in> set s \<Longrightarrow> isdigit c \<or> c = CHR ''.''"
  by (auto simp: inet_pton4_iff dest: set_dotted)

text \<open>The characters of the \<open>%17[A-Fa-f0-9:]\<close> conversion, which reads a MAC address.\<close>

definition mac_char :: "char \<Rightarrow> bool" where
  "mac_char c \<longleftrightarrow> isxdigit c \<or> c = CHR '':''"

definition scan_mac :: "string \<Rightarrow> string" where
  "scan_mac s = takeWhile mac_char (take 17 s)"

lemma set_scan_mac: "c \<in> set (scan_mac s) \<Longrightarrow> mac_char c"
  by (auto simp: scan_mac_def dest: set_takeWhileD)

lemma length_scan_mac: "length (scan_mac s) \<le> 17"
  using length_takeWhile_le [of mac_char "take 17 s"] by (simp add: scan_mac_def)

lemma scan_mac_id: "length s \<le> 17 \<Longrightarrow> \<forall>c \<in> set s. mac_char c \<Longrightarrow> scan_mac s = s"
  by (simp add: scan_mac_def takeWhile_eq_all_conv)

end
