(* ===== verification/Conf.thy ===== *)
theory Conf
  imports Libc
begin

text \<open>
  \<open>src/conf.h\<close> and the parts of \<open>src/conf.c\<close> that do not read the configuration file: the
  configuration record and its defaults, the firewall rule sets, the trusted, blocked and allowed
  MAC lists, and the checks on the finished configuration. A \<open>char *\<close> that may be NULL is a
  \<^typ>\<open>string option\<close>; a linked list of MACs or rules is the list of its elements from the head on.
  The operations on the global \<open>config\<close> take and return the record. The theory ends with the contract
  that the three MAC lists share (locale \<open>mac_list\<close>) and its interpretations.
\<close>

section \<open>Data\<close>

datatype t_firewall_target = TARGET_DROP | TARGET_REJECT | TARGET_ACCEPT | TARGET_LOG | TARGET_ULOG

record t_firewall_rule =
  target :: t_firewall_target
  protocol :: "string option"
  port :: "string option"
  rule_mask :: "string option"
  ipset :: "string option"

record t_firewall_ruleset =
  rs_name :: string
  emptyrulesetpolicy :: "string option"
  rules :: "t_firewall_rule list"

record s_config =
  configfile :: string
  ndsctl_sock :: string
  internal_sock :: string
  daemon :: int
  debuglevel :: int
  maxclients :: int
  gw_name :: string
  gw_interface :: "string option"
  gw_iprange :: string
  gw_ip :: "string option"
  gw_address :: "string option"
  gw_domain :: "string option"
  gw_http_name :: "string option"
  gw_http_name_port :: "string option"
  gw_mac :: "string option"
  gw_port :: "32 word"
  webroot :: string
  splashpage :: string
  statuspage :: string
  redirectURL :: "string option"
  authdir :: string
  denydir :: string
  session_timeout :: int
  session_timeout_block :: int
  session_limit_block :: int
  preauth_idle_timeout :: int
  auth_idle_timeout :: int
  checkinterval :: int
  set_mss :: int
  mss_value :: int
  traffic_control :: int
  download_limit :: int
  upload_limit :: int
  upload_ifb :: int
  log_syslog :: int
  syslog_facility :: int
  macmechanism :: int
  rulesets :: "t_firewall_ruleset list"
  trustedmaclist :: "string list"
  blockedmaclist :: "string list"
  allowedmaclist :: "string list"
  fw_mark_authenticated :: "32 word"
  fw_mark_blocked :: "32 word"
  fw_mark_trusted :: "32 word"
  ip6 :: int
  binauth :: "string option"
  preauth :: "string option"
  statefile :: "string option"

abbreviation (input) MAC_ALLOW :: int where "MAC_ALLOW \<equiv> 0"
abbreviation (input) MAC_BLOCK :: int where "MAC_BLOCK \<equiv> 1"

abbreviation (input) DEBUGLEVEL_MIN :: int where "DEBUGLEVEL_MIN \<equiv> 0"
abbreviation (input) DEBUGLEVEL_MAX :: int where "DEBUGLEVEL_MAX \<equiv> 3"

abbreviation (input) MAX_BUF :: nat where "MAX_BUF \<equiv> 4096"
abbreviation (input) QUERYMAXLEN :: nat where "QUERYMAXLEN \<equiv> 4096"

text \<open>\<open>LOG_DAEMON\<close> of \<open>syslog.h\<close>.\<close>

abbreviation (input) LOG_DAEMON :: int where "LOG_DAEMON \<equiv> 24"

section \<open>Rule sets\<close>

definition get_ruleset :: "s_config \<Rightarrow> string \<Rightarrow> t_firewall_ruleset option" where
  "get_ruleset cfg ruleset = find (\<lambda>rs. rs_name rs = ruleset) (rulesets cfg)"

definition get_ruleset_list :: "s_config \<Rightarrow> string \<Rightarrow> t_firewall_rule list" where
  "get_ruleset_list cfg ruleset =
     (case get_ruleset cfg ruleset of None \<Rightarrow> [] | Some rs \<Rightarrow> rules rs)"

definition is_empty_ruleset :: "s_config \<Rightarrow> string \<Rightarrow> bool" where
  "is_empty_ruleset cfg rulesetname \<longleftrightarrow> get_ruleset_list cfg rulesetname = []"

definition get_empty_ruleset_policy :: "s_config \<Rightarrow> string \<Rightarrow> string option" where
  "get_empty_ruleset_policy cfg rulesetname =
     (case get_ruleset cfg rulesetname of None \<Rightarrow> None | Some rs \<Rightarrow> emptyrulesetpolicy rs)"

text \<open>New rule sets go to the head of the list; an existing one is not added again.\<close>

definition add_ruleset :: "string \<Rightarrow> s_config \<Rightarrow> s_config" where
  "add_ruleset rulesetname cfg =
     (case get_ruleset cfg rulesetname of
        Some _ \<Rightarrow> cfg
      | None \<Rightarrow> cfg\<lparr>rulesets :=
          \<lparr>rs_name = rulesetname, emptyrulesetpolicy = None, rules = []\<rparr> # rulesets cfg\<rparr>)"

text \<open>Assignments through the pointer that \<open>get_ruleset\<close> or \<open>add_ruleset\<close> returns.\<close>

fun update_first_ruleset ::
  "string \<Rightarrow> (t_firewall_ruleset \<Rightarrow> t_firewall_ruleset) \<Rightarrow> t_firewall_ruleset list \<Rightarrow> t_firewall_ruleset list" where
  "update_first_ruleset name f [] = []"
| "update_first_ruleset name f (rs # rss) =
     (if rs_name rs = name then f rs # rss else rs # update_first_ruleset name f rss)"

definition update_ruleset ::
  "string \<Rightarrow> (t_firewall_ruleset \<Rightarrow> t_firewall_ruleset) \<Rightarrow> s_config \<Rightarrow> s_config" where
  "update_ruleset name f cfg = cfg\<lparr>rulesets := update_first_ruleset name f (rulesets cfg)\<rparr>"

definition init_ruleset :: "string \<Rightarrow> string \<Rightarrow> s_config \<Rightarrow> s_config" where
  "init_ruleset name policy cfg =
     update_ruleset name (\<lambda>rs. rs\<lparr>emptyrulesetpolicy := Some policy\<rparr>) (add_ruleset name cfg)"

section \<open>Defaults\<close>

text \<open>The static object before \<open>config_init\<close> is all zero; \<open>config_init\<close> sets these fields.\<close>

definition config_defaults :: s_config where
  "config_defaults = \<lparr>
     configfile = ''/etc/nodogsplash/nodogsplash.conf'',
     ndsctl_sock = ''/tmp/ndsctl.sock'',
     internal_sock = ''/tmp/ndsctl.sock'',
     daemon = -1,
     debuglevel = 1,
     maxclients = 20,
     gw_name = ''NoDogSplash'',
     gw_interface = None,
     gw_iprange = ''0.0.0.0/0'',
     gw_ip = None,
     gw_address = None,
     gw_domain = None,
     gw_http_name = None,
     gw_http_name_port = None,
     gw_mac = None,
     gw_port = 2050,
     webroot = ''/etc/nodogsplash/htdocs'',
     splashpage = ''splash.html'',
     statuspage = ''status.html'',
     redirectURL = None,
     authdir = ''nodogsplash_auth'',
     denydir = ''nodogsplash_deny'',
     session_timeout = 0,
     session_timeout_block = 0,
     session_limit_block = 0,
     preauth_idle_timeout = 10,
     auth_idle_timeout = 120,
     checkinterval = 30,
     set_mss = 1,
     mss_value = 0,
     traffic_control = 0,
     download_limit = 0,
     upload_limit = 0,
     upload_ifb = 0,
     log_syslog = 0,
     syslog_facility = LOG_DAEMON,
     macmechanism = MAC_BLOCK,
     rulesets = [],
     trustedmaclist = [],
     blockedmaclist = [],
     allowedmaclist = [],
     fw_mark_authenticated = 0x30000,
     fw_mark_blocked = 0x10000,
     fw_mark_trusted = 0x20000,
     ip6 = 0,
     binauth = None,
     preauth = None,
     statefile = Some ''/tmp/nds.state''\<rparr>"

definition config_init :: s_config where
  "config_init =
     init_ruleset ''preauthenticated-users'' ''REJECT''
      (init_ruleset ''authenticated-users'' ''RETURN''
       (init_ruleset ''users-to-router'' ''REJECT''
        (init_ruleset ''trusted-users-to-router'' ''ACCEPT''
         (init_ruleset ''trusted-users'' ''ACCEPT'' config_defaults))))"

definition config_init_override :: "s_config \<Rightarrow> s_config" where
  "config_init_override cfg = (if daemon cfg = -1 then cfg\<lparr>daemon := 1\<rparr> else cfg)"

section \<open>Address formats\<close>

definition check_ip_format :: "string \<Rightarrow> bool" where
  "check_ip_format possibleip = inet_pton4 possibleip"

definition check_mac_format :: "string \<Rightarrow> bool" where
  "check_mac_format possiblemac = ether_aton possiblemac"

section \<open>MAC lists\<close>

definition on_mac_list :: "string \<Rightarrow> string list \<Rightarrow> bool" where
  "on_mac_list mac l \<longleftrightarrow> list_ex (\<lambda>m. strcasecmp_eq m mac) l"

fun unlink_mac :: "string \<Rightarrow> string list \<Rightarrow> string list option" where
  "unlink_mac mac [] = None"
| "unlink_mac mac (m # l) =
     (if strcasecmp_eq m mac then Some l
      else case unlink_mac mac l of None \<Rightarrow> None | Some l' \<Rightarrow> Some (m # l'))"

definition add_to_trusted_mac_list :: "string \<Rightarrow> s_config \<Rightarrow> int \<times> s_config" where
  "add_to_trusted_mac_list possiblemac cfg =
     (if \<not> check_mac_format possiblemac then (1, cfg)
      else
        let mac = scan_mac possiblemac in
        if on_mac_list mac (trustedmaclist cfg) then (1, cfg)
        else (0, cfg\<lparr>trustedmaclist := mac # trustedmaclist cfg\<rparr>))"

definition remove_from_trusted_mac_list :: "string \<Rightarrow> s_config \<Rightarrow> int \<times> s_config" where
  "remove_from_trusted_mac_list possiblemac cfg =
     (if \<not> check_mac_format possiblemac then (-1, cfg)
      else case unlink_mac (scan_mac possiblemac) (trustedmaclist cfg) of
          None \<Rightarrow> (-1, cfg)
        | Some l \<Rightarrow> (0, cfg\<lparr>trustedmaclist := l\<rparr>))"

definition add_to_blocked_mac_list :: "string \<Rightarrow> s_config \<Rightarrow> int \<times> s_config" where
  "add_to_blocked_mac_list possiblemac cfg =
     (if \<not> check_mac_format possiblemac then (-1, cfg)
      else if macmechanism cfg \<noteq> MAC_BLOCK then (-1, cfg)
      else
        let mac = scan_mac possiblemac in
        if on_mac_list mac (blockedmaclist cfg) then (1, cfg)
        else (0, cfg\<lparr>blockedmaclist := mac # blockedmaclist cfg\<rparr>))"

definition remove_from_blocked_mac_list :: "string \<Rightarrow> s_config \<Rightarrow> int \<times> s_config" where
  "remove_from_blocked_mac_list possiblemac cfg =
     (if \<not> check_mac_format possiblemac then (-1, cfg)
      else if macmechanism cfg \<noteq> MAC_BLOCK then (-1, cfg)
      else case unlink_mac (scan_mac possiblemac) (blockedmaclist cfg) of
          None \<Rightarrow> (-1, cfg)
        | Some l \<Rightarrow> (0, cfg\<lparr>blockedmaclist := l\<rparr>))"

definition add_to_allowed_mac_list :: "string \<Rightarrow> s_config \<Rightarrow> int \<times> s_config" where
  "add_to_allowed_mac_list possiblemac cfg =
     (if \<not> check_mac_format possiblemac then (-1, cfg)
      else if macmechanism cfg \<noteq> MAC_ALLOW then (-1, cfg)
      else
        let mac = scan_mac possiblemac in
        if on_mac_list mac (allowedmaclist cfg) then (1, cfg)
        else (0, cfg\<lparr>allowedmaclist := mac # allowedmaclist cfg\<rparr>))"

definition remove_from_allowed_mac_list :: "string \<Rightarrow> s_config \<Rightarrow> int \<times> s_config" where
  "remove_from_allowed_mac_list possiblemac cfg =
     (if \<not> check_mac_format possiblemac then (-1, cfg)
      else if macmechanism cfg \<noteq> MAC_ALLOW then (-1, cfg)
      else case unlink_mac (scan_mac possiblemac) (allowedmaclist cfg) of
          None \<Rightarrow> (-1, cfg)
        | Some l \<Rightarrow> (0, cfg\<lparr>allowedmaclist := l\<rparr>))"

definition is_blocked_mac :: "s_config \<Rightarrow> string \<Rightarrow> bool" where
  "is_blocked_mac cfg mac \<longleftrightarrow> macmechanism cfg \<noteq> MAC_ALLOW \<and> mac \<in> set (blockedmaclist cfg)"

definition is_allowed_mac :: "s_config \<Rightarrow> string \<Rightarrow> bool" where
  "is_allowed_mac cfg mac \<longleftrightarrow> macmechanism cfg \<noteq> MAC_BLOCK \<and> mac \<in> set (allowedmaclist cfg)"

definition is_trusted_mac :: "s_config \<Rightarrow> string \<Rightarrow> bool" where
  "is_trusted_mac cfg mac \<longleftrightarrow> mac \<in> set (trustedmaclist cfg)"

section \<open>Debug level and validation\<close>

text \<open>The argument \<^const>\<open>None\<close> is a NULL pointer. The \<open>long\<close> result of \<open>strtol\<close> is cut to an \<open>int\<close>.\<close>

definition set_debuglevel :: "string option \<Rightarrow> s_config \<Rightarrow> int \<times> s_config" where
  "set_debuglevel opt cfg =
     (case opt of
        None \<Rightarrow> (1, cfg)
      | Some opt \<Rightarrow>
          if opt = [] then (1, cfg)
          else
            let (v, at_end) = strtol10 opt; level = to_int32 v in
            if \<not> at_end then (1, cfg)
            else if level \<ge> DEBUGLEVEL_MIN \<and> level \<le> DEBUGLEVEL_MAX
            then (0, cfg\<lparr>debuglevel := level\<rparr>)
            else (1, cfg))"

text \<open>\<open>Inl n\<close> is \<open>exit(n)\<close>; \<open>missing_parms\<close> is not set before.\<close>

definition config_notnull :: "'a option \<Rightarrow> bool \<Rightarrow> bool" where
  "config_notnull parm missing_parms = (if parm = None then True else missing_parms)"

definition config_validate :: "s_config \<Rightarrow> int + unit" where
  "config_validate cfg =
     (if config_notnull (gw_interface cfg) False then Inl 1
      else if preauth_idle_timeout cfg > 0 \<and>
              checkinterval cfg \<ge> c_div (to_int32 (60 * preauth_idle_timeout cfg)) 2 then Inl 1
      else if auth_idle_timeout cfg > 0 \<and>
              checkinterval cfg \<ge> c_div (to_int32 (60 * auth_idle_timeout cfg)) 2 then Inl 1
      else Inr ())"

section \<open>The contract of a MAC list\<close>

text \<open>Entries are compared without regard to case; a well-formed list has no two equal entries.\<close>

fun mac_distinct :: "string list \<Rightarrow> bool" where
  "mac_distinct [] = True"
| "mac_distinct (m # l) = (\<not> on_mac_list m l \<and> mac_distinct l)"

lemma on_mac_list_simps [simp]:
  "\<not> on_mac_list mac []"
  "on_mac_list mac (m # l) \<longleftrightarrow> strcasecmp_eq m mac \<or> on_mac_list mac l"
  by (simp_all add: on_mac_list_def)

lemma on_mac_list_cong:
  "strcasecmp_eq m mac \<Longrightarrow> on_mac_list m l = on_mac_list mac l"
  by (induction l) (auto intro: strcasecmp_eq_trans simp: strcasecmp_eq_sym)

lemma unlink_mac_None [simp]: "unlink_mac mac l = None \<longleftrightarrow> \<not> on_mac_list mac l"
  by (induction l) (auto split: option.splits)

lemma unlink_mac_keeps:
  "unlink_mac mac l = Some l' \<Longrightarrow> \<not> strcasecmp_eq m mac \<Longrightarrow> on_mac_list m l' = on_mac_list m l"
proof (induction l arbitrary: l')
  case (Cons a l)
  then show ?case
    by (auto split: if_splits option.splits) (simp add: strcasecmp_eq_def)
qed simp

lemma unlink_mac_member: "unlink_mac mac l = Some l' \<Longrightarrow> on_mac_list mac l"
  by (metis option.distinct(1) unlink_mac_None)

lemma unlink_mac_distinct:
  "unlink_mac mac l = Some l' \<Longrightarrow> mac_distinct l \<Longrightarrow> mac_distinct l' \<and> \<not> on_mac_list mac l'"
proof (induction l arbitrary: l')
  case (Cons a l)
  show ?case
  proof (cases "strcasecmp_eq a mac")
    case True
    with Cons.prems show ?thesis by (auto simp: on_mac_list_cong)
  next
    case False
    then obtain l'' where "unlink_mac mac l = Some l''" "l' = a # l''"
      using Cons.prems(1) by (auto split: option.splits)
    then show ?thesis
      using Cons False unlink_mac_keeps [of mac l l'' a] by auto
  qed
qed simp

lemma unlink_mac_eq_None: "\<not> on_mac_list mac l \<Longrightarrow> unlink_mac mac l = None"
  by simp

lemmas mac_list_update_rules = Let_def unlink_mac_eq_None

text \<open>
  What the three pairs of operations promise: \<open>add\<close> puts the scanned MAC at the head exactly when it is
  well-formed, the list is in use and the MAC is not on it; \<open>del\<close> takes out the first equal entry;
  any other outcome is a nonzero return value and an unchanged configuration.
\<close>

locale mac_list =
  fixes add del :: "string \<Rightarrow> s_config \<Rightarrow> int \<times> s_config"
    and entries :: "s_config \<Rightarrow> string list"
    and set_entries :: "string list \<Rightarrow> s_config \<Rightarrow> s_config"
    and enabled :: "s_config \<Rightarrow> bool"
  assumes entries_set: "entries (set_entries l cfg) = l"
    and enabled_set: "enabled (set_entries l cfg) = enabled cfg"
    and set_set: "set_entries l (set_entries l' cfg) = set_entries l cfg"
    and set_id: "set_entries (entries cfg) cfg = cfg"
    and add_new: "ether_aton p \<Longrightarrow> enabled cfg \<Longrightarrow> \<not> on_mac_list (scan_mac p) (entries cfg) \<Longrightarrow>
      add p cfg = (0, set_entries (scan_mac p # entries cfg) cfg)"
    and add_refused: "\<not> (ether_aton p \<and> enabled cfg \<and> \<not> on_mac_list (scan_mac p) (entries cfg)) \<Longrightarrow>
      snd (add p cfg) = cfg \<and> fst (add p cfg) \<noteq> 0"
    and del_found: "ether_aton p \<Longrightarrow> enabled cfg \<Longrightarrow> unlink_mac (scan_mac p) (entries cfg) = Some l \<Longrightarrow>
      del p cfg = (0, set_entries l cfg)"
    and del_refused: "\<not> (ether_aton p \<and> enabled cfg \<and> on_mac_list (scan_mac p) (entries cfg)) \<Longrightarrow>
      del p cfg = (-1, cfg)"
begin

lemma add_cases:
  obtains (added) "ether_aton p" "enabled cfg" "\<not> on_mac_list (scan_mac p) (entries cfg)"
      "add p cfg = (0, set_entries (scan_mac p # entries cfg) cfg)"
    | (refused) rc where "rc \<noteq> 0" "add p cfg = (rc, cfg)"
  using add_new [of p cfg] add_refused [of p cfg] by (metis prod.collapse)

lemma del_cases:
  obtains (removed) l where "ether_aton p" "enabled cfg"
      "unlink_mac (scan_mac p) (entries cfg) = Some l" "del p cfg = (0, set_entries l cfg)"
    | (refused) "del p cfg = (-1, cfg)"
  using del_found [of p cfg] del_refused [of p cfg]
  by (metis not_Some_eq unlink_mac_None)

lemma add_distinct: "mac_distinct (entries cfg) \<Longrightarrow> mac_distinct (entries (snd (add p cfg)))"
  by (rule add_cases [of p cfg]) (auto simp: entries_set)

lemma del_distinct: "mac_distinct (entries cfg) \<Longrightarrow> mac_distinct (entries (snd (del p cfg)))"
  by (rule del_cases [of p cfg]) (auto simp: entries_set dest: unlink_mac_distinct)

lemma add_member:
  "ether_aton p \<Longrightarrow> enabled cfg \<Longrightarrow> on_mac_list (scan_mac p) (entries (snd (add p cfg)))"
  by (cases "on_mac_list (scan_mac p) (entries cfg)") (auto simp: add_new add_refused entries_set)

lemma added_member: "fst (add p cfg) = 0 \<Longrightarrow> on_mac_list (scan_mac p) (entries (snd (add p cfg)))"
  by (rule add_cases [of p cfg]) (auto simp: entries_set)

lemma del_not_member:
  "mac_distinct (entries cfg) \<Longrightarrow> fst (del p cfg) = 0 \<Longrightarrow>
   \<not> on_mac_list (scan_mac p) (entries (snd (del p cfg)))"
  by (rule del_cases [of p cfg]) (auto simp: entries_set dest: unlink_mac_distinct)

lemma del_add:
  assumes "fst (add p cfg) = 0"
  shows "del p (snd (add p cfg)) = (0, cfg)"
proof (rule add_cases [of p cfg])
  assume *: "ether_aton p" "enabled cfg"
    "add p cfg = (0, set_entries (scan_mac p # entries cfg) cfg)"
  then have "unlink_mac (scan_mac p) (entries (snd (add p cfg))) = Some (entries cfg)"
    by (simp add: entries_set)
  from del_found [OF *(1) _ this] * show ?thesis by (simp add: enabled_set set_set set_id)
qed (use assms in auto)

end

interpretation trusted: mac_list add_to_trusted_mac_list remove_from_trusted_mac_list
  trustedmaclist "\<lambda>l cfg. cfg\<lparr>trustedmaclist := l\<rparr>" "\<lambda>_. True"
  by unfold_locales
    (simp_all add: add_to_trusted_mac_list_def remove_from_trusted_mac_list_def check_mac_format_def
      mac_list_update_rules)

interpretation blocked: mac_list add_to_blocked_mac_list remove_from_blocked_mac_list
  blockedmaclist "\<lambda>l cfg. cfg\<lparr>blockedmaclist := l\<rparr>" "\<lambda>cfg. macmechanism cfg = MAC_BLOCK"
  by unfold_locales
    (simp_all add: add_to_blocked_mac_list_def remove_from_blocked_mac_list_def check_mac_format_def
      mac_list_update_rules)

interpretation allowed: mac_list add_to_allowed_mac_list remove_from_allowed_mac_list
  allowedmaclist "\<lambda>l cfg. cfg\<lparr>allowedmaclist := l\<rparr>" "\<lambda>cfg. macmechanism cfg = MAC_ALLOW"
  by unfold_locales
    (simp_all add: add_to_allowed_mac_list_def remove_from_allowed_mac_list_def check_mac_format_def
      mac_list_update_rules)

section \<open>Properties\<close>

definition mac_lists_ok :: "s_config \<Rightarrow> bool" where
  "mac_lists_ok cfg \<longleftrightarrow> mac_distinct (trustedmaclist cfg) \<and> mac_distinct (blockedmaclist cfg)
     \<and> mac_distinct (allowedmaclist cfg)"

definition mac_list_ops :: "(string \<Rightarrow> s_config \<Rightarrow> int \<times> s_config) list" where
  "mac_list_ops = [add_to_trusted_mac_list, remove_from_trusted_mac_list, add_to_blocked_mac_list,
     remove_from_blocked_mac_list, add_to_allowed_mac_list, remove_from_allowed_mac_list]"

lemma mac_lists_frame [nds_frame]:
  "blockedmaclist (snd (add_to_trusted_mac_list p cfg)) = blockedmaclist cfg"
  "allowedmaclist (snd (add_to_trusted_mac_list p cfg)) = allowedmaclist cfg"
  "blockedmaclist (snd (remove_from_trusted_mac_list p cfg)) = blockedmaclist cfg"
  "allowedmaclist (snd (remove_from_trusted_mac_list p cfg)) = allowedmaclist cfg"
  "trustedmaclist (snd (add_to_blocked_mac_list p cfg)) = trustedmaclist cfg"
  "allowedmaclist (snd (add_to_blocked_mac_list p cfg)) = allowedmaclist cfg"
  "trustedmaclist (snd (remove_from_blocked_mac_list p cfg)) = trustedmaclist cfg"
  "allowedmaclist (snd (remove_from_blocked_mac_list p cfg)) = allowedmaclist cfg"
  "trustedmaclist (snd (add_to_allowed_mac_list p cfg)) = trustedmaclist cfg"
  "blockedmaclist (snd (add_to_allowed_mac_list p cfg)) = blockedmaclist cfg"
  "trustedmaclist (snd (remove_from_allowed_mac_list p cfg)) = trustedmaclist cfg"
  "blockedmaclist (snd (remove_from_allowed_mac_list p cfg)) = blockedmaclist cfg"
  by (simp_all add: add_to_trusted_mac_list_def remove_from_trusted_mac_list_def
      add_to_blocked_mac_list_def remove_from_blocked_mac_list_def add_to_allowed_mac_list_def
      remove_from_allowed_mac_list_def Let_def split: option.split)

text \<open>C34. None of the six operations on the MAC lists, with any argument, creates two entries that are
  equal up to case, in any of the three lists.\<close>

theorem mac_lists_stay_distinct:
  assumes "mac_lists_ok cfg" and "f \<in> set mac_list_ops"
  shows "mac_lists_ok (snd (f p cfg))"
  using assms unfolding mac_list_ops_def mac_lists_ok_def
  by (auto simp: nds_frame trusted.add_distinct trusted.del_distinct blocked.add_distinct
      blocked.del_distinct allowed.add_distinct allowed.del_distinct)

theorem mac_lists_stay_distinct_witness:
  "mac_lists_ok (snd (add_to_blocked_mac_list ''00:11:22:33:44:55'' config_init))"
  by (rule mac_lists_stay_distinct) (code_simp, simp add: mac_list_ops_def)

text \<open>C35. On each of the three MAC lists, a successful addition puts the MAC on the list, and removing it again restores
  the configuration exactly; a successful removal, from lists that have no two entries that are equal up to case
  (which \<open>mac_lists_stay_distinct\<close> keeps), leaves the MAC on the list no longer.\<close>

theorem mac_list_add_remove:
  "(fst (add_to_trusted_mac_list p cfg) = 0 \<longrightarrow>
      on_mac_list (scan_mac p) (trustedmaclist (snd (add_to_trusted_mac_list p cfg)))
      \<and> remove_from_trusted_mac_list p (snd (add_to_trusted_mac_list p cfg)) = (0, cfg))
   \<and> (fst (add_to_blocked_mac_list p cfg) = 0 \<longrightarrow>
      on_mac_list (scan_mac p) (blockedmaclist (snd (add_to_blocked_mac_list p cfg)))
      \<and> remove_from_blocked_mac_list p (snd (add_to_blocked_mac_list p cfg)) = (0, cfg))
   \<and> (fst (add_to_allowed_mac_list p cfg) = 0 \<longrightarrow>
      on_mac_list (scan_mac p) (allowedmaclist (snd (add_to_allowed_mac_list p cfg)))
      \<and> remove_from_allowed_mac_list p (snd (add_to_allowed_mac_list p cfg)) = (0, cfg))
   \<and> (mac_lists_ok cfg \<longrightarrow>
      (fst (remove_from_trusted_mac_list p cfg) = 0 \<longrightarrow>
         \<not> on_mac_list (scan_mac p) (trustedmaclist (snd (remove_from_trusted_mac_list p cfg))))
      \<and> (fst (remove_from_blocked_mac_list p cfg) = 0 \<longrightarrow>
         \<not> on_mac_list (scan_mac p) (blockedmaclist (snd (remove_from_blocked_mac_list p cfg))))
      \<and> (fst (remove_from_allowed_mac_list p cfg) = 0 \<longrightarrow>
         \<not> on_mac_list (scan_mac p) (allowedmaclist (snd (remove_from_allowed_mac_list p cfg)))))"
  by (simp add: trusted.del_add blocked.del_add allowed.del_add trusted.added_member blocked.added_member
      allowed.added_member trusted.del_not_member blocked.del_not_member allowed.del_not_member mac_lists_ok_def)

theorem mac_list_add_remove_witness:
  "remove_from_blocked_mac_list ''00:11:22:33:44:55''
     (snd (add_to_blocked_mac_list ''00:11:22:33:44:55'' config_init)) = (0, config_init)
   \<and> \<not> on_mac_list ''00:11:22:33:44:66'' (trustedmaclist (snd (remove_from_trusted_mac_list ''00:11:22:33:44:66''
       (config_init\<lparr>trustedmaclist := [''00:11:22:33:44:55'', ''00:11:22:33:44:66'']\<rparr>))))"
proof -
  let ?cfg = "config_init\<lparr>trustedmaclist := [''00:11:22:33:44:55'', ''00:11:22:33:44:66'']\<rparr>"
  have "fst (add_to_blocked_mac_list ''00:11:22:33:44:55'' config_init) = 0" by code_simp
  moreover have "mac_lists_ok ?cfg" "fst (remove_from_trusted_mac_list ''00:11:22:33:44:66'' ?cfg) = 0"
    "scan_mac ''00:11:22:33:44:66'' = ''00:11:22:33:44:66''" by code_simp+
  ultimately show ?thesis
    using mac_list_add_remove [of "''00:11:22:33:44:55''" config_init] mac_list_add_remove [of "''00:11:22:33:44:66''" ?cfg]
    by simp
qed

text \<open>The lists are kept case-insensitively but searched case-sensitively: a MAC blocked in upper
  case is refused as a duplicate in lower case, yet \<open>is_blocked_mac\<close> does not find it there, which is
  the spelling the kernel's neighbour table uses.\<close>

theorem blocked_mac_case_sensitive:
  "\<exists>cfg. fst (add_to_blocked_mac_list ''00:11:22:AA:BB:CC'' config_init) = 0
     \<and> cfg = snd (add_to_blocked_mac_list ''00:11:22:AA:BB:CC'' config_init)
     \<and> fst (add_to_blocked_mac_list ''00:11:22:aa:bb:cc'' cfg) = 1
     \<and> is_blocked_mac cfg ''00:11:22:AA:BB:CC''
     \<and> \<not> is_blocked_mac cfg ''00:11:22:aa:bb:cc''"
  by (intro exI conjI, rule_tac [2] refl) code_simp+

text \<open>\<open>check_ip_format\<close> accepts exactly the canonical dotted quads: four decimal numbers below
  256 without leading zeros. In particular an accepted string holds only digits and dots.\<close>

theorem check_ip_format_dotted_quad:
  "check_ip_format s \<longleftrightarrow>
     (\<exists>a b c d. a < 256 \<and> b < 256 \<and> c < 256 \<and> d < 256 \<and> s = dotted [a, b, c, d])"
proof
  assume "check_ip_format s"
  then obtain ns where ns: "length ns = 4" "\<forall>n \<in> set ns. n < 256" "s = dotted ns"
    by (auto simp: check_ip_format_def inet_pton4_iff)
  from ns(1) obtain a b c d where "ns = [a, b, c, d]"
    by (auto simp: length_Suc_conv numeral_eq_Suc)
  with ns(2,3) show "\<exists>a b c d. a < 256 \<and> b < 256 \<and> c < 256 \<and> d < 256 \<and> s = dotted [a, b, c, d]"
    by (intro exI [of _ a] exI [of _ b] exI [of _ c] exI [of _ d]) simp
next
  assume "\<exists>a b c d. a < 256 \<and> b < 256 \<and> c < 256 \<and> d < 256 \<and> s = dotted [a, b, c, d]"
  then obtain a b c d where "a < 256" "b < 256" "c < 256" "d < 256" "s = dotted [a, b, c, d]" by blast
  then show "check_ip_format s"
    unfolding check_ip_format_def inet_pton4_iff by (intro exI [of _ "[a, b, c, d]"]) simp
qed

text \<open>\<open>set_debuglevel\<close> succeeds exactly on a nonempty string that \<open>strtol\<close> reads to its end with an
  \<open>int\<close> value between 0 and 3, stores that level, and changes nothing otherwise.\<close>

theorem set_debuglevel_exact:
  "(fst (set_debuglevel opt cfg) = 0 \<longleftrightarrow>
      (\<exists>s v. opt = Some s \<and> s \<noteq> [] \<and> strtol10 s = (v, True) \<and> 0 \<le> to_int32 v \<and> to_int32 v \<le> 3))
   \<and> snd (set_debuglevel opt cfg) =
      (if fst (set_debuglevel opt cfg) = 0
       then cfg\<lparr>debuglevel := to_int32 (fst (strtol10 (the opt)))\<rparr> else cfg)"
  by (simp add: set_debuglevel_def Let_def split: option.split prod.split)

end
