(* ===== verification/Nds_State.thy ===== *)
theory Nds_State
  imports Conf
begin

text \<open>
  The state of the running gateway and its surroundings. The record \<open>nds\<close> collects the static and
  global variables of \<open>client_list.c\<close>, \<open>auth.c\<close>, \<open>fw_iptables.c\<close> and \<open>main.c\<close> together with the
  configuration. The surroundings are a parameter of type \<open>env\<close>: the shell (what a command answers, given
  the commands run before), the clock and \<open>rand()\<close>. The state counts the calls of the latter two
  and logs every command with its result, so that an operation determines which commands it runs in
  which order. The rest is \<open>src/util.c\<close>: command execution, \<open>rand16\<close>, and the formatting of durations.

  The mutexes are not represented: every operation here is one that the code runs with the lock held.
  A failing allocation ends the process (\<open>src/safe.c\<close>) and is not represented either.
\<close>

section \<open>Clients\<close>

record t_counters =
  incoming :: "64 word"
  outgoing :: "64 word"
  last_updated :: int

record t_client =
  cl_ip :: string
  cl_mac :: string
  cl_token :: string
  fw_connection_state :: "32 word"
  session_start :: int
  session_end :: int
  counters :: t_counters
  cl_download_limit :: int
  cl_upload_limit :: int
  cl_id :: "32 word"

section \<open>State and surroundings\<close>

text \<open>
  \<open>clients\<close> is the linked list from \<open>firstclient\<close> on: the address of each node with its contents.
  \<open>next_addr\<close> is an address that was never handed out by the allocator.
\<close>

type_synonym addr = nat

record nds =
  config :: s_config
  clients :: "(addr \<times> t_client) list"
  client_count :: int
  client_id :: int
  next_addr :: addr
  authenticated_since_start :: "32 word"
  FW_MARK_PREAUTHENTICATED :: "32 word"
  FW_MARK_AUTHENTICATED :: "32 word"
  FW_MARK_BLOCKED :: "32 word"
  FW_MARK_TRUSTED :: "32 word"
  FW_MARK_MASK :: "32 word"
  fw_quiet :: bool
  markop :: string
  markmask :: string
  started_time :: int
  cmd_log :: "(string \<times> int) list"
  time_calls :: nat
  rand_calls :: nat

text \<open>
  \<open>sh\<close>: the wait status and the output of a command, or \<^const>\<open>None\<close> when \<open>popen\<close> fails.
\<close>

record env =
  sh :: "(string \<times> int) list \<Rightarrow> string \<Rightarrow> (nat \<times> string) option"
  time_of :: "nat \<Rightarrow> int"
  rand_of :: "nat \<Rightarrow> nat"

text \<open>The globals when the program starts, with the given configuration.\<close>

definition nds_start :: "s_config \<Rightarrow> nds" where
  "nds_start cfg = \<lparr>config = cfg, clients = [], client_count = 0, client_id = 1, next_addr = 1,
     authenticated_since_start = 0, FW_MARK_PREAUTHENTICATED = 0, FW_MARK_AUTHENTICATED = 0,
     FW_MARK_BLOCKED = 0, FW_MARK_TRUSTED = 0, FW_MARK_MASK = 0, fw_quiet = False,
     markop = ''--set-mark'', markmask = [], started_time = 0, cmd_log = [], time_calls = 0,
     rand_calls = 0\<rparr>"

definition c_time :: "env \<Rightarrow> nds \<Rightarrow> int \<times> nds" where
  "c_time env s = (time_of env (time_calls s), s\<lparr>time_calls := Suc (time_calls s)\<rparr>)"

definition rand16 :: "env \<Rightarrow> nds \<Rightarrow> nat \<times> nds" where
  "rand16 env s =
     (drop_bit 15 (rand_of env (rand_calls s)) mod 65536, s\<lparr>rand_calls := Suc (rand_calls s)\<rparr>)"

section \<open>Running commands\<close>

text \<open>\<open>WEXITSTATUS\<close> of a wait status: the exit code; 0 for a process killed by a signal.\<close>

definition WEXITSTATUS :: "nat \<Rightarrow> int" where
  "WEXITSTATUS st = int (drop_bit 8 st mod 256)"

text \<open>\<open>_execute_ret\<close>, with \<open>popen\<close> and \<open>pclose\<close>: the result and what the command printed.\<close>

definition popen :: "env \<Rightarrow> string \<Rightarrow> nds \<Rightarrow> (int \<times> string) \<times> nds" where
  "popen env cmd s =
     (case sh env (cmd_log s) cmd of
        None \<Rightarrow> ((-1, []), s\<lparr>cmd_log := cmd_log s @ [(cmd, -1)]\<rparr>)
      | Some (st, out) \<Rightarrow> ((WEXITSTATUS st, out), s\<lparr>cmd_log := cmd_log s @ [(cmd, WEXITSTATUS st)]\<rparr>))"

definition execute :: "env \<Rightarrow> string \<Rightarrow> nds \<Rightarrow> int \<times> nds" where
  "execute env cmd s =
     (if length cmd \<ge> QUERYMAXLEN then (-1, s)
      else case popen env cmd s of ((rc, out), s') \<Rightarrow> (rc, s'))"

text \<open>\<open>execute_ret(msg, msg_len, ..)\<close>: \<open>msg\<close> receives at most \<open>msg_len - 1\<close> bytes.\<close>

definition execute_ret :: "env \<Rightarrow> nat \<Rightarrow> string \<Rightarrow> nds \<Rightarrow> (int \<times> string) \<times> nds" where
  "execute_ret env msg_len cmd s =
     (if length cmd \<ge> 512 then ((-1, []), s)
      else case popen env cmd s of ((rc, out), s') \<Rightarrow> ((rc, cstr (take (msg_len - 1) out)), s'))"

text \<open>A sequence \<open>rc |= execute(..); rc |= execute(..); ..\<close>\<close>

fun execute_all :: "env \<Rightarrow> string list \<Rightarrow> int \<Rightarrow> nds \<Rightarrow> int \<times> nds" where
  "execute_all env [] rc s = (rc, s)"
| "execute_all env (cmd # cmds) rc s =
     (case execute env cmd s of (r, s') \<Rightarrow> execute_all env cmds (rc OR r) s')"

section \<open>Formatting\<close>

text \<open>\<open>%s\<close> of a pointer that may be NULL, as glibc prints it.\<close>

definition show_str :: "string option \<Rightarrow> string" where
  "show_str p = (case p of None \<Rightarrow> ''(null)'' | Some x \<Rightarrow> x)"

definition duration_fields :: "int \<Rightarrow> int \<times> int \<times> int \<times> int" where
  "duration_fields secs0 =
     (let days = to_int32 (secs0 div (24 * 60 * 60));
          secs1 = secs0 - to_int32 (days * (24 * 60 * 60));
          hours = to_int32 (secs1 div (60 * 60));
          secs2 = secs1 - to_int32 (hours * (60 * 60));
          minutes = to_int32 (secs2 div 60);
          secs3 = secs2 - to_int32 (minutes * 60)
      in (days, hours, minutes, to_int32 secs3))"

definition format_duration :: "int \<Rightarrow> int \<Rightarrow> string" where
  "format_duration from_t to_t =
     (let (secs, neg) = (if from_t \<le> to_t then (to_t - from_t, []) else (from_t - to_t, ''-''));
          (days, hours, minutes, seconds) = duration_fields secs;
          s = show_int seconds @ ''s'';
          ms = show_int minutes @ ''m '' @ s;
          hms = show_int hours @ ''h '' @ ms
      in if days > 0 then neg @ show_int days @ ''d '' @ hms
         else if hours > 0 then neg @ hms
         else if minutes > 0 then neg @ ms
         else neg @ s)"

definition get_uptime_string :: "env \<Rightarrow> nds \<Rightarrow> string \<times> nds" where
  "get_uptime_string env s = (case c_time env s of (now, s') \<Rightarrow> (format_duration (started_time s) now, s'))"

section \<open>Lemmas\<close>

text \<open>What running commands leaves alone: everything but the log.\<close>

definition same_but_log :: "nds \<Rightarrow> nds \<Rightarrow> bool" where
  "same_but_log s s' \<longleftrightarrow> s' = s\<lparr>cmd_log := cmd_log s'\<rparr> \<and> prefix (cmd_log s) (cmd_log s')"

lemma same_but_log_refl [simp]: "same_but_log s s"
  by (simp add: same_but_log_def)

lemma same_but_log_trans: "same_but_log s s' \<Longrightarrow> same_but_log s' s'' \<Longrightarrow> same_but_log s s''"
  unfolding same_but_log_def by (metis nds.surjective nds.update_convs(16) prefix_order.order_trans)

lemma same_but_logD:
  assumes "same_but_log s s'"
  shows "s' = s\<lparr>cmd_log := cmd_log s'\<rparr>" and "prefix (cmd_log s) (cmd_log s')"
  using assms by (auto simp: same_but_log_def)

lemma popen_same: "same_but_log s (snd (popen env cmd s))"
  by (simp add: popen_def same_but_log_def split: option.split prod.split)

lemma execute_same: "same_but_log s (snd (execute env cmd s))"
  using popen_same [of s env cmd] by (cases "popen env cmd s") (auto simp: execute_def)

lemma execute_all_same: "same_but_log s (snd (execute_all env cmds rc s))"
proof (induction cmds arbitrary: rc s)
  case (Cons cmd cmds)
  obtain r s' where "execute env cmd s = (r, s')" by (cases "execute env cmd s")
  with Cons.IH [of s' "rc OR r"] execute_same [of s env cmd] show ?case
    by (auto intro: same_but_log_trans)
qed simp

end
