(* ===== verification/Client_List.thy ===== *)
theory Client_List
  imports Nds_State
begin

text \<open>
  \<open>src/client_list.c\<close>. A client pointer is the address of its node; the list of nodes is the field
  \<open>clients\<close> of the state. The pointer structure itself (the \<open>next\<close> fields) is the subject of theory
  \<open>Client_Heap\<close>, which shows that the pointer code refines the operations below. The searches share a
  contract (locale \<open>client_finder\<close>); \<open>cl_inv\<close> is the invariant that every operation keeps.
\<close>

section \<open>Access to nodes\<close>

definition client_at :: "nds \<Rightarrow> addr \<Rightarrow> t_client option" where
  "client_at s a = map_of (clients s) a"

text \<open>An assignment through a client pointer.\<close>

definition update_client :: "addr \<Rightarrow> (t_client \<Rightarrow> t_client) \<Rightarrow> nds \<Rightarrow> nds" where
  "update_client a f s = s\<lparr>clients := map (\<lambda>(b, c). (b, if b = a then f c else c)) (clients s)\<rparr>"

section \<open>Operations\<close>

definition get_client_list_length :: "nds \<Rightarrow> int" where
  "get_client_list_length s = client_count s"

definition client_get_first_client :: "nds \<Rightarrow> addr option" where
  "client_get_first_client s = (case clients s of [] \<Rightarrow> None | (a, _) # _ \<Rightarrow> Some a)"

definition client_list_init :: "nds \<Rightarrow> nds" where
  "client_list_init s = s\<lparr>clients := [], client_count := 0\<rparr>"

definition client_list_flush :: "nds \<Rightarrow> nds" where
  "client_list_flush s =
     (if client_count s = 0 then s else s\<lparr>clients := [], client_count := 0, client_id := 1\<rparr>)"

definition find_addr :: "(t_client \<Rightarrow> bool) \<Rightarrow> nds \<Rightarrow> addr option" where
  "find_addr p s = map_option fst (find (\<lambda>(a, c). p c) (clients s))"

definition client_list_find :: "string \<Rightarrow> string \<Rightarrow> nds \<Rightarrow> addr option" where
  "client_list_find mac ip s = find_addr (\<lambda>c. cl_mac c = mac \<and> cl_ip c = ip) s"

definition client_list_find_by_id :: "32 word \<Rightarrow> nds \<Rightarrow> addr option" where
  "client_list_find_by_id i s = find_addr (\<lambda>c. cl_id c = i) s"

definition client_list_find_by_ip :: "string \<Rightarrow> nds \<Rightarrow> addr option" where
  "client_list_find_by_ip ip s = find_addr (\<lambda>c. cl_ip c = ip) s"

definition client_list_find_by_mac :: "string \<Rightarrow> nds \<Rightarrow> addr option" where
  "client_list_find_by_mac mac s = find_addr (\<lambda>c. cl_mac c = mac) s"

definition client_list_find_by_token :: "string \<Rightarrow> nds \<Rightarrow> addr option" where
  "client_list_find_by_token token s = find_addr (\<lambda>c. cl_token c = token) s"

definition client_list_find_by_any :: "string \<Rightarrow> string \<Rightarrow> string \<Rightarrow> nds \<Rightarrow> addr option" where
  "client_list_find_by_any mac ip token s =
     (case client_list_find_by_token token s of
        Some a \<Rightarrow> Some a
      | None \<Rightarrow> (case client_list_find_by_ip ip s of
          Some a \<Rightarrow> Some a
        | None \<Rightarrow> client_list_find_by_mac mac s))"

text \<open>
  \<open>client_reset\<close> on the contents of a node. The two \<open>rand16()\<close> arguments of \<open>asprintf\<close> are evaluated in an
  order that C leaves open; here the first one first.
\<close>

definition reset_client :: "env \<Rightarrow> t_client \<Rightarrow> nds \<Rightarrow> t_client \<times> nds" where
  "reset_client env c s =
     (case c_time env s of (now, s1) \<Rightarrow>
       (case rand16 env s1 of (r1, s2) \<Rightarrow>
         (case rand16 env s2 of (r2, s3) \<Rightarrow>
           (c\<lparr>counters := \<lparr>incoming = 0, outgoing = 0, last_updated = now\<rparr>,
              session_start := 0, session_end := 0, cl_token := show_hex4 r1 @ show_hex4 r2\<rparr>, s3))))"

definition client_reset :: "env \<Rightarrow> addr \<Rightarrow> nds \<Rightarrow> nds" where
  "client_reset env a s =
     (case client_at s a of
        None \<Rightarrow> s
      | Some c \<Rightarrow> (case reset_client env c s of (c', s') \<Rightarrow> update_client a (\<lambda>_. c') s'))"

text \<open>The state of a new client: by the MAC lists, in this order.\<close>

definition initial_state :: "string \<Rightarrow> nds \<Rightarrow> 32 word" where
  "initial_state mac s =
     (if is_blocked_mac (config s) mac then FW_MARK_BLOCKED s
      else if is_allowed_mac (config s) mac \<or> is_trusted_mac (config s) mac then FW_MARK_TRUSTED s
      else FW_MARK_PREAUTHENTICATED s)"

definition blank_client :: "string \<Rightarrow> string \<Rightarrow> t_client" where
  "blank_client mac ip = \<lparr>cl_ip = ip, cl_mac = mac, cl_token = [], fw_connection_state = 0,
     session_start = 0, session_end = 0,
     counters = \<lparr>incoming = 0, outgoing = 0, last_updated = 0\<rparr>,
     cl_download_limit = 0, cl_upload_limit = 0, cl_id = 0\<rparr>"

definition client_list_append :: "env \<Rightarrow> string \<Rightarrow> string \<Rightarrow> nds \<Rightarrow> addr option \<times> nds" where
  "client_list_append env mac ip s =
     (if client_count s \<ge> maxclients (config s) then (None, s)
      else
        case reset_client env (blank_client mac ip) s of (c, s1) \<Rightarrow>
          (let a = next_addr s1;
               c' = c\<lparr>fw_connection_state := initial_state mac s1, cl_id := of_int (client_id s1)\<rparr>
           in (Some a, s1\<lparr>clients := clients s1 @ [(a, c')], next_addr := a + 1,
                 client_id := to_int32 (client_id s1 + 1),
                 client_count := to_int32 (client_count s1 + 1)\<rparr>)))"

definition client_list_add_client :: "env \<Rightarrow> string \<Rightarrow> string \<Rightarrow> nds \<Rightarrow> addr option \<times> nds" where
  "client_list_add_client env mac ip s =
     (if \<not> check_mac_format mac then (None, s)
      else if \<not> check_ip_format ip then (None, s)
      else case client_list_find mac ip s of
          None \<Rightarrow> client_list_append env mac ip s
        | Some a \<Rightarrow> (Some a, s))"

definition client_list_delete :: "addr \<Rightarrow> nds \<Rightarrow> nds" where
  "client_list_delete a s =
     (if client_at s a = None then s
      else s\<lparr>clients := filter (\<lambda>(b, _). b \<noteq> a) (clients s), client_count := client_count s - 1\<rparr>)"

section \<open>The contract of a search\<close>

text \<open>
  A search returns the first node that satisfies its criterion, and NULL only if there is none.
\<close>

locale client_finder =
  fixes finder :: "nds \<Rightarrow> addr option" and matches :: "t_client \<Rightarrow> bool"
  assumes finder_first: "finder s = Some a \<Longrightarrow>
      \<exists>xs c ys. clients s = xs @ (a, c) # ys \<and> matches c \<and> (\<forall>(b, d) \<in> set xs. \<not> matches d)"
    and finder_none: "finder s = None \<Longrightarrow> (a, c) \<in> set (clients s) \<Longrightarrow> \<not> matches c"
begin

lemma finder_in: "finder s = Some a \<Longrightarrow> \<exists>c. (a, c) \<in> set (clients s) \<and> matches c"
  using finder_first [of s a] by force

lemma finder_complete: "(a, c) \<in> set (clients s) \<Longrightarrow> matches c \<Longrightarrow> \<exists>b. finder s = Some b"
  using finder_none [of s a c] by (cases "finder s") auto

lemma finder_at:
  assumes "distinct (map fst (clients s))" and "finder s = Some a"
  shows "\<exists>c. client_at s a = Some c \<and> matches c"
  using finder_in [OF assms(2)] assms(1) by (auto simp: client_at_def)

lemma finder_unique:
  assumes "distinct (map fst (clients s))" and "(a, c) \<in> set (clients s)" and "matches c"
    and "\<And>b d. (b, d) \<in> set (clients s) \<Longrightarrow> matches d \<Longrightarrow> b = a"
  shows "finder s = Some a"
  using finder_complete [OF assms(2,3)] finder_in [of s] assms(4) by auto

end

lemma find_addr_finder: "client_finder (find_addr p) p"
proof
  fix s a assume "find_addr p s = Some a"
  then obtain c where c: "find (\<lambda>(a, c). p c) (clients s) = Some (a, c)"
    by (auto simp: find_addr_def)
  then obtain i where i: "i < length (clients s)" "clients s ! i = (a, c)" "p c"
      "\<forall>j < i. \<not> p (snd (clients s ! j))"
    by (auto simp: find_Some_iff case_prod_beta) (metis snd_conv)
  have "clients s = take i (clients s) @ (a, c) # drop (Suc i) (clients s)"
    using i(1,2) by (metis id_take_nth_drop)
  moreover have "\<forall>(b, d) \<in> set (take i (clients s)). \<not> p d"
    using i(1,4) by (auto simp: in_set_conv_nth) (metis snd_conv)
  ultimately show "\<exists>xs c ys. clients s = xs @ (a, c) # ys \<and> p c \<and> (\<forall>(b, d) \<in> set xs. \<not> p d)"
    using i(3) by blast
next
  fix s a c assume "find_addr p s = None" "(a, c) \<in> set (clients s)"
  then show "\<not> p c" by (auto simp: find_addr_def find_None_iff)
qed

interpretation by_mac_ip: client_finder "client_list_find mac ip" "\<lambda>c. cl_mac c = mac \<and> cl_ip c = ip"
  for mac ip
  using find_addr_finder by (simp add: client_list_find_def [abs_def])

interpretation by_id: client_finder "client_list_find_by_id i" "\<lambda>c. cl_id c = i" for i
  using find_addr_finder by (simp add: client_list_find_by_id_def [abs_def])

interpretation by_ip: client_finder "client_list_find_by_ip ip" "\<lambda>c. cl_ip c = ip" for ip
  using find_addr_finder by (simp add: client_list_find_by_ip_def [abs_def])

interpretation by_mac: client_finder "client_list_find_by_mac mac" "\<lambda>c. cl_mac c = mac" for mac
  using find_addr_finder by (simp add: client_list_find_by_mac_def [abs_def])

interpretation by_token: client_finder "client_list_find_by_token tok" "\<lambda>c. cl_token c = tok" for tok
  using find_addr_finder by (simp add: client_list_find_by_token_def [abs_def])

section \<open>Invariant\<close>

text \<open>
  The list is well formed: nodes are distinct and allocated, the counter is the length, no two
  clients have the same MAC and IP, and all addresses passed the format checks.
\<close>

definition addrs :: "nds \<Rightarrow> addr list" where
  "addrs s = map fst (clients s)"

definition keys :: "nds \<Rightarrow> (string \<times> string) list" where
  "keys s = map (\<lambda>(a, c). (cl_mac c, cl_ip c)) (clients s)"

definition ids :: "nds \<Rightarrow> 32 word list" where
  "ids s = map (\<lambda>(a, c). cl_id c) (clients s)"

definition cl_inv :: "nds \<Rightarrow> bool" where
  "cl_inv s \<longleftrightarrow> distinct (addrs s) \<and> list_all (\<lambda>a. a < next_addr s) (addrs s)
     \<and> client_count s = int (length (clients s)) \<and> distinct (keys s)
     \<and> list_all (\<lambda>(mac, ip). check_mac_format mac \<and> check_ip_format ip) (keys s)"

text \<open>
  Identifiers are distinct and below the counter. This is a hypothesis of the theorems that need it, and not an
  invariant of every run: it holds as long as no client has been imported from a state file (and the counter has not
  wrapped around), whereas the import restores ids without the counter (\<open>import_duplicate_id\<close> in theory \<open>State_File\<close>).
\<close>

definition ids_inv :: "nds \<Rightarrow> bool" where
  "ids_inv s \<longleftrightarrow> distinct (ids s) \<and> list_all (\<lambda>i. 0 < uint i \<and> uint i < client_id s) (ids s)
     \<and> 1 \<le> client_id s \<and> client_id s < 2 ^ 31"

text \<open>Two states with the same list of clients (up to fields that the invariants do not mention).\<close>

definition same_clients :: "nds \<Rightarrow> nds \<Rightarrow> bool" where
  "same_clients s s' \<longleftrightarrow> addrs s' = addrs s \<and> keys s' = keys s \<and> ids s' = ids s
     \<and> client_count s' = client_count s \<and> client_id s' = client_id s \<and> next_addr s' = next_addr s"

lemma length_addrs [simp]: "length (addrs s) = length (clients s)"
  by (simp add: addrs_def)

lemma same_clients_refl [simp]: "same_clients s s"
  by (simp add: same_clients_def)

lemma same_clients_trans: "same_clients s s' \<Longrightarrow> same_clients s' s'' \<Longrightarrow> same_clients s s''"
  by (simp add: same_clients_def)

lemma same_clients_inv: "same_clients s s' \<Longrightarrow> cl_inv s' = cl_inv s \<and> ids_inv s' = ids_inv s"
  by (simp add: same_clients_def cl_inv_def ids_inv_def flip: length_addrs)

lemma same_but_log_clients: "same_but_log s s' \<Longrightarrow> same_clients s s'"
proof -
  assume "same_but_log s s'"
  then have *: "s' = s\<lparr>cmd_log := cmd_log s'\<rparr>" by (rule same_but_logD)
  show ?thesis by (subst *) (simp add: same_clients_def addrs_def keys_def ids_def)
qed

lemma update_client_simps [simp]:
  "config (update_client a f s) = config s"
  "client_count (update_client a f s) = client_count s"
  "client_id (update_client a f s) = client_id s"
  "next_addr (update_client a f s) = next_addr s"
  "FW_MARK_PREAUTHENTICATED (update_client a f s) = FW_MARK_PREAUTHENTICATED s"
  "FW_MARK_AUTHENTICATED (update_client a f s) = FW_MARK_AUTHENTICATED s"
  "FW_MARK_BLOCKED (update_client a f s) = FW_MARK_BLOCKED s"
  "FW_MARK_TRUSTED (update_client a f s) = FW_MARK_TRUSTED s"
  "fw_quiet (update_client a f s) = fw_quiet s"
  "markop (update_client a f s) = markop s"
  "cmd_log (update_client a f s) = cmd_log s"
  "authenticated_since_start (update_client a f s) = authenticated_since_start s"
  "addrs (update_client a f s) = addrs s"
  "length (clients (update_client a f s)) = length (clients s)"
  by (simp_all add: update_client_def addrs_def comp_def case_prod_beta)

lemma update_client_same:
  assumes "\<And>c. cl_mac (f c) = cl_mac c \<and> cl_ip (f c) = cl_ip c \<and> cl_id (f c) = cl_id c"
  shows "same_clients s (update_client a f s)"
  using assms by (auto simp: same_clients_def addrs_def keys_def ids_def update_client_def case_prod_beta)

lemma client_at_Some: "client_at s a = Some c \<Longrightarrow> (a, c) \<in> set (clients s)"
  by (simp add: client_at_def map_of_SomeD)

lemma client_at_iff: "cl_inv s \<Longrightarrow> client_at s a = Some c \<longleftrightarrow> (a, c) \<in> set (clients s)"
  by (auto simp: client_at_def cl_inv_def addrs_def)

lemma client_at_None: "client_at s a = None \<longleftrightarrow> a \<notin> set (addrs s)"
  by (simp add: client_at_def map_of_eq_None_iff addrs_def)

lemma client_at_update:
  "client_at (update_client a f s) b
     = (if b = a then map_option f (client_at s b) else client_at s b)"
proof -
  have "map_of (map (\<lambda>(b, c). (b, if b = a then f c else c)) xs) b
      = (if b = a then map_option f (map_of xs b) else map_of xs b)" for xs
    by (induction xs) auto
  then show ?thesis by (simp add: client_at_def update_client_def)
qed

section \<open>What the operations do\<close>

definition fresh_token :: "env \<Rightarrow> nat \<Rightarrow> string" where
  "fresh_token env n =
     show_hex4 (drop_bit 15 (rand_of env n) mod 65536)
     @ show_hex4 (drop_bit 15 (rand_of env (Suc n)) mod 65536)"

lemma reset_client_eq:
  "reset_client env c s =
     (c\<lparr>counters := \<lparr>incoming = 0, outgoing = 0, last_updated = time_of env (time_calls s)\<rparr>,
        session_start := 0, session_end := 0, cl_token := fresh_token env (rand_calls s)\<rparr>,
      s\<lparr>time_calls := Suc (time_calls s), rand_calls := Suc (Suc (rand_calls s))\<rparr>)"
  by (simp add: reset_client_def c_time_def rand16_def fresh_token_def)

lemma same_clients_ticks: "same_clients s (s\<lparr>time_calls := t, rand_calls := r\<rparr>)"
  by (simp add: same_clients_def addrs_def keys_def ids_def)

lemma client_reset_eq:
  assumes "client_at s a = Some c"
  shows "client_reset env a s =
    update_client a (\<lambda>_. fst (reset_client env c s))
      (s\<lparr>time_calls := Suc (time_calls s), rand_calls := Suc (Suc (rand_calls s))\<rparr>)"
  using assms by (simp add: client_reset_def reset_client_eq)

lemma client_list_append_eq:
  "client_list_append env mac ip s =
     (if client_count s \<ge> maxclients (config s) then (None, s)
      else (Some (next_addr s),
        s\<lparr>time_calls := Suc (time_calls s), rand_calls := Suc (Suc (rand_calls s)),
          clients := clients s @ [(next_addr s,
            (blank_client mac ip)\<lparr>counters := \<lparr>incoming = 0, outgoing = 0,
                last_updated = time_of env (time_calls s)\<rparr>,
              cl_token := fresh_token env (rand_calls s),
              fw_connection_state := initial_state mac s, cl_id := of_int (client_id s)\<rparr>)],
          next_addr := next_addr s + 1, client_id := to_int32 (client_id s + 1),
          client_count := to_int32 (client_count s + 1)\<rparr>))"
  by (simp add: client_list_append_def reset_client_eq Let_def initial_state_def blank_client_def)

lemma append_inv:
  assumes inv: "cl_inv s" and "client_list_find mac ip s = None"
    and "check_mac_format mac" "check_ip_format ip" and "is_int32 (maxclients (config s))"
  shows "cl_inv (snd (client_list_append env mac ip s))"
proof (cases "client_count s \<ge> maxclients (config s)")
  case False
  have "(mac, ip) \<notin> set (keys s)"
    using assms(2) by (auto simp: keys_def dest: by_mac_ip.finder_none)
  moreover have "next_addr s \<notin> set (addrs s)"
    using inv by (auto simp: cl_inv_def list_all_iff)
  moreover have "is_int32 (client_count s + 1)"
    using inv False assms(5) by (auto simp: cl_inv_def is_int32_def)
  ultimately show ?thesis
    using inv False assms(3,4) unfolding client_list_append_eq cl_inv_def
    by (auto simp: addrs_def keys_def blank_client_def list_all_iff)
qed (simp add: client_list_append_eq inv)

lemma append_ids_inv:
  assumes "ids_inv s" and "client_id s + 1 < 2 ^ 31"
  shows "ids_inv (snd (client_list_append env mac ip s))"
proof (cases "client_count s \<ge> maxclients (config s)")
  case False
  have [simp]: "is_int32 (client_id s + 1)" using assms by (simp add: ids_inv_def is_int32_def)
  have u: "uint (word_of_int (client_id s) :: 32 word) = client_id s"
    using assms by (simp add: ids_inv_def uint_word_of_int)
  then have "word_of_int (client_id s) \<notin> set (ids s)"
    using assms(1) by (auto simp: ids_inv_def list_all_iff)
  with u False assms show ?thesis
    unfolding client_list_append_eq ids_inv_def
    by (auto simp: ids_def blank_client_def list_all_iff)
qed (simp add: client_list_append_eq assms)

lemma add_client_inv:
  assumes "cl_inv s" and "is_int32 (maxclients (config s))"
  shows "cl_inv (snd (client_list_add_client env mac ip s))"
  using assms append_inv
  by (auto simp: client_list_add_client_def split: option.split)

lemma add_client_ids_inv:
  assumes "ids_inv s" and "client_id s + 1 < 2 ^ 31"
  shows "ids_inv (snd (client_list_add_client env mac ip s))"
  using assms append_ids_inv
  by (auto simp: client_list_add_client_def split: option.split)

lemma delete_length:
  "distinct (addrs s) \<Longrightarrow> a \<in> set (addrs s) \<Longrightarrow>
   length (filter (\<lambda>(b, _). b \<noteq> a) (clients s)) = length (clients s) - 1"
proof -
  have "length (filter (\<lambda>(b, _). b \<noteq> a) xs) = length xs - 1"
    if "distinct (map fst xs)" "a \<in> fst ` set xs" for xs :: "(addr \<times> t_client) list"
    using that
  proof (induction xs)
    case (Cons x xs)
    show ?case
    proof (cases "fst x = a")
      case True
      with Cons.prems have "a \<notin> fst ` set xs" by simp
      then have "filter (\<lambda>(b, _). b \<noteq> a) xs = xs" by (intro filter_True) force
      with True show ?thesis by (cases x) simp
    next
      case False
      with Cons have "a \<in> fst ` set xs" by auto
      with Cons False show ?thesis by (cases xs) (auto simp: case_prod_beta)
    qed
  qed simp
  then show "distinct (addrs s) \<Longrightarrow> a \<in> set (addrs s) \<Longrightarrow> ?thesis" by (simp add: addrs_def)
qed

lemma delete_inv: "cl_inv s \<Longrightarrow> cl_inv (client_list_delete a s)"
proof (cases "client_at s a")
  case (Some c)
  assume inv: "cl_inv s"
  have "a \<in> set (addrs s)" using Some by (metis client_at_None option.distinct(1))
  moreover have "clients s \<noteq> []" using calculation by (auto simp: addrs_def)
  ultimately show ?thesis
    using inv delete_length [of s a] Some unfolding client_list_delete_def cl_inv_def
    by (auto simp: addrs_def keys_def list_all_iff distinct_map_filter Suc_leI of_nat_diff
        simp flip: length_greater_0_conv)
qed (simp add: client_list_delete_def)

lemma delete_ids_inv: "ids_inv s \<Longrightarrow> ids_inv (client_list_delete a s)"
  by (auto simp: client_list_delete_def ids_inv_def ids_def list_all_iff distinct_map_filter)

lemma keys_unique:
  "cl_inv s \<Longrightarrow> (a, c) \<in> set (clients s) \<Longrightarrow> (b, d) \<in> set (clients s) \<Longrightarrow>
   cl_mac c = cl_mac d \<Longrightarrow> cl_ip c = cl_ip d \<Longrightarrow> a = b \<and> c = d"
proof -
  assume inv: "cl_inv s" and in_s: "(a, c) \<in> set (clients s)" "(b, d) \<in> set (clients s)"
    and eq: "cl_mac c = cl_mac d" "cl_ip c = cl_ip d"
  have "inj_on (\<lambda>(a, c). (cl_mac c, cl_ip c)) (set (clients s))"
    using inv by (simp add: cl_inv_def keys_def distinct_map)
  from inj_onD [OF this _ in_s] eq show "a = b \<and> c = d" by simp
qed

lemma find_by_key:
  assumes "cl_inv s" and "(a, c) \<in> set (clients s)" and "cl_mac c = mac" "cl_ip c = ip"
  shows "client_list_find mac ip s = Some a"
proof (rule by_mac_ip.finder_unique)
  show "distinct (map fst (clients s))" using assms(1) by (simp add: cl_inv_def addrs_def)
  show "(a, c) \<in> set (clients s)" by fact
  show "cl_mac c = mac \<and> cl_ip c = ip" using assms by simp
  show "b = a" if "(b, d) \<in> set (clients s)" "cl_mac d = mac \<and> cl_ip d = ip" for b d
    using keys_unique [OF assms(1) that(1) assms(2)] that assms by simp
qed

lemma client_at_append:
  "a \<notin> set (addrs s) \<Longrightarrow> clients s' = clients s @ [(a, c)] \<Longrightarrow>
   client_at s' b = (if b = a then Some c else client_at s b)"
proof -
  have "a \<notin> fst ` set xs \<Longrightarrow> map_of (xs @ [(a, c)]) b = (if b = a then Some c else map_of xs b)" for xs
    by (induction xs) auto
  then show "a \<notin> set (addrs s) \<Longrightarrow> clients s' = clients s @ [(a, c)] \<Longrightarrow> ?thesis"
    by (simp add: client_at_def addrs_def)
qed

text \<open>The node that \<open>_client_list_append\<close> creates.\<close>

definition new_client :: "env \<Rightarrow> string \<Rightarrow> string \<Rightarrow> nds \<Rightarrow> t_client" where
  "new_client env mac ip s =
     (blank_client mac ip)\<lparr>counters := \<lparr>incoming = 0, outgoing = 0,
         last_updated = time_of env (time_calls s)\<rparr>,
       cl_token := fresh_token env (rand_calls s),
       fw_connection_state := initial_state mac s, cl_id := of_int (client_id s)\<rparr>"

lemma new_client_simps [simp]:
  "cl_mac (new_client env mac ip s) = mac" "cl_ip (new_client env mac ip s) = ip"
  "fw_connection_state (new_client env mac ip s) = initial_state mac s"
  "cl_id (new_client env mac ip s) = of_int (client_id s)"
  "cl_token (new_client env mac ip s) = fresh_token env (rand_calls s)"
  "session_end (new_client env mac ip s) = 0"
  by (simp_all add: new_client_def blank_client_def)

lemma client_list_append_new:
  assumes "client_list_append env mac ip s = (Some a, s')"
  shows "a = next_addr s" "client_count s < maxclients (config s)"
    "s' = s\<lparr>time_calls := Suc (time_calls s), rand_calls := Suc (Suc (rand_calls s)),
       clients := clients s @ [(a, new_client env mac ip s)], next_addr := a + 1,
       client_id := to_int32 (client_id s + 1), client_count := to_int32 (client_count s + 1)\<rparr>"
proof -
  show lt: "client_count s < maxclients (config s)"
    using assms by (simp add: client_list_append_eq split: if_split_asm)
  have "(Some a, s') = (Some (next_addr s),
      s\<lparr>time_calls := Suc (time_calls s), rand_calls := Suc (Suc (rand_calls s)),
        clients := clients s @ [(next_addr s, new_client env mac ip s)], next_addr := next_addr s + 1,
        client_id := to_int32 (client_id s + 1), client_count := to_int32 (client_count s + 1)\<rparr>)"
    unfolding assms [symmetric] using lt by (simp add: client_list_append_eq new_client_def)
  then show "a = next_addr s" and
    "s' = s\<lparr>time_calls := Suc (time_calls s), rand_calls := Suc (Suc (rand_calls s)),
       clients := clients s @ [(a, new_client env mac ip s)], next_addr := a + 1,
       client_id := to_int32 (client_id s + 1), client_count := to_int32 (client_count s + 1)\<rparr>"
    by (simp_all del: add_Suc_right)
qed

section \<open>Properties\<close>

text \<open>C26. Looking up after adding: on a well-formed list whose limit is a C integer, when
  \<open>client_list_add_client\<close> returns a node, searching for its MAC and IP finds exactly that node, also if it existed
  before (then nothing changed); a new node carries the MAC and IP, the state that the MAC lists demand and the next
  identifier, and all other nodes are untouched. An existing entry is recognized by its MAC and its IP
  together: a known IP with another MAC gets a new node, although the comment above the function says that an
  existing entry with the given IP is returned.\<close>

theorem add_client_lookup:
  assumes inv: "cl_inv s" and max: "is_int32 (maxclients (config s))"
    and add: "client_list_add_client env mac ip s = (Some a, s')"
  shows "client_list_find mac ip s' = Some a
    \<and> (a \<in> set (addrs s) \<longrightarrow> s' = s)
    \<and> (a \<notin> set (addrs s) \<longrightarrow> (\<exists>c. client_at s' a = Some c \<and> cl_mac c = mac \<and> cl_ip c = ip
         \<and> fw_connection_state c = initial_state mac s \<and> cl_id c = of_int (client_id s)))
    \<and> (\<forall>b. b \<noteq> a \<longrightarrow> client_at s' b = client_at s b)"
proof (cases "client_list_find mac ip s")
  case (Some b)
  with add have "s' = s" "b = a"
    by (auto simp: client_list_add_client_def split: if_splits)
  moreover obtain c where "(b, c) \<in> set (clients s)" using by_mac_ip.finder_in [OF Some] by blast
  ultimately show ?thesis using Some by (force simp: addrs_def)
next
  case None
  with add have app: "client_list_append env mac ip s = (Some a, s')"
    by (auto simp: client_list_add_client_def split: if_splits)
  have c: "clients s' = clients s @ [(a, new_client env mac ip s)]"
    unfolding client_list_append_new(3) [OF app] by simp
  have new: "a \<notin> set (addrs s)"
    using inv client_list_append_new(1) [OF app] by (auto simp: cl_inv_def list_all_iff)
  have "cl_inv s'" using add_client_inv [OF inv max, of env mac ip] add by simp
  then have "client_list_find mac ip s' = Some a"
    by (rule find_by_key [of _ a "new_client env mac ip s"]) (simp_all add: c)
  with new client_at_append [OF new c] show ?thesis by simp
qed

definition sample_env :: env where
  "sample_env = \<lparr>sh = (\<lambda>_ _. Some (0, [])), time_of = (\<lambda>n. 1000 + int n), rand_of = (\<lambda>n. 32768 * n)\<rparr>"

theorem add_client_lookup_witness:
  "client_list_find ''00:11:22:33:44:55'' ''10.0.0.2''
     (snd (client_list_add_client sample_env ''00:11:22:33:44:55'' ''10.0.0.2'' (nds_start config_init)))
   = Some 1"
proof -
  let ?r = "client_list_add_client sample_env ''00:11:22:33:44:55'' ''10.0.0.2'' (nds_start config_init)"
  have "fst ?r = Some 1" by code_simp
  then have "?r = (Some 1, snd ?r)" by (metis prod.collapse)
  moreover have "cl_inv (nds_start config_init)" "is_int32 (maxclients (config (nds_start config_init)))"
    by code_simp+
  ultimately show ?thesis
    using add_client_lookup [of "nds_start config_init" sample_env _ _ 1 "snd ?r"] by blast
qed

text \<open>C12. Deleting a client on the list removes its entry and no other, decrements the counter, and
  afterwards no search for its MAC and IP succeeds; deleting a pointer that is not on the list does
  nothing.\<close>

theorem delete_client_exact:
  assumes inv: "cl_inv s" and at: "client_at s a = Some c"
  shows "client_list_find (cl_mac c) (cl_ip c) (client_list_delete a s) = None
    \<and> client_at (client_list_delete a s) a = None
    \<and> (\<forall>b. b \<noteq> a \<longrightarrow> client_at (client_list_delete a s) b = client_at s b)
    \<and> client_count (client_list_delete a s) = client_count s - 1
    \<and> (client_at s b = None \<longrightarrow> client_list_delete b s = s)"
proof -
  let ?s = "client_list_delete a s"
  have cls: "clients ?s = filter (\<lambda>(b, _). b \<noteq> a) (clients s)"
    using at by (simp add: client_list_delete_def)
  have "client_list_find (cl_mac c) (cl_ip c) ?s = None"
  proof (rule ccontr)
    assume "client_list_find (cl_mac c) (cl_ip c) ?s \<noteq> None"
    then obtain b d where "(b, d) \<in> set (clients ?s)" "cl_mac d = cl_mac c" "cl_ip d = cl_ip c"
      using by_mac_ip.finder_in by blast
    then show False using keys_unique [OF inv _ client_at_Some [OF at], of b d] cls by auto
  qed
  moreover have "map_of (filter (\<lambda>(b, _). b \<noteq> a) xs) b = (if b = a then None else map_of xs b)"
    for b and xs :: "(addr \<times> t_client) list"
    by (induction xs) auto
  ultimately show ?thesis
    using at by (simp add: client_at_def cls) (auto simp add: client_list_delete_def client_at_def)
qed

theorem delete_client_exact_witness:
  "client_list_find ''00:11:22:33:44:55'' ''10.0.0.2'' (client_list_delete 1
     (snd (client_list_add_client sample_env ''00:11:22:33:44:55'' ''10.0.0.2'' (nds_start config_init))))
   = None"
proof -
  let ?s = "snd (client_list_add_client sample_env ''00:11:22:33:44:55'' ''10.0.0.2'' (nds_start config_init))"
  have inv: "cl_inv ?s" by code_simp
  have "map_option (\<lambda>c. (cl_mac c, cl_ip c)) (client_at ?s 1)
      = Some (''00:11:22:33:44:55'', ''10.0.0.2'')" by code_simp
  then obtain c where c: "client_at ?s 1 = Some c" "cl_mac c = ''00:11:22:33:44:55''" "cl_ip c = ''10.0.0.2''"
    by (auto simp only: map_option_eq_Some prod.inject)
  from delete_client_exact [OF inv c(1), of 2] show ?thesis unfolding c(2,3) by (rule conjunct1)
qed

text \<open>
  A second client with the IP address of the first: a new entry, not the existing one, and a search by this address,
  alone or among others, returns the first of the two.
\<close>

theorem add_client_same_ip:
  "let s = snd (client_list_add_client sample_env ''00:11:22:33:44:55'' ''10.0.0.2'' (nds_start config_init));
       r = client_list_add_client sample_env ''00:11:22:33:44:66'' ''10.0.0.2'' s
   in client_list_find_by_ip ''10.0.0.2'' s = Some 1 \<and> fst r = Some 2
      \<and> client_list_find_by_any ''10.0.0.2'' ''10.0.0.2'' ''10.0.0.2'' (snd r) = Some 1"
  by code_simp

end
