(* ===== verification/Client_Heap.thy ===== *)
theory Client_Heap
  imports Client_List
begin

text \<open>
  The pointer code of \<open>src/client_list.c\<close>: nodes in a heap, linked by \<open>next\<close> from \<open>firstclient\<close> on. The
  loops are partial functions into \<^typ>\<open>'a option\<close>: \<^const>\<open>None\<close> is a loop that does not end or an
  access to a freed or never allocated node. The lemmas show that on a heap that represents a list
  they end without such an access and represent the result of the list operations of theory
  \<open>Client_List\<close> (locale \<open>list_refinement\<close>, interpreted on the heap operations).
\<close>

section \<open>Heap and loops\<close>

record client_node =
  contents :: t_client
  next_client :: "addr option"

type_synonym client_heap = "addr \<Rightarrow> client_node option"

record client_mem =
  heap :: client_heap
  firstclient :: "addr option"

text \<open>\<open>while (ptr) { if (match) return ptr; ptr = ptr->next; } return NULL;\<close>\<close>

partial_function (option) heap_find ::
  "(t_client \<Rightarrow> bool) \<Rightarrow> client_heap \<Rightarrow> addr option \<Rightarrow> addr option option" where
  "heap_find match h ptr =
     (case ptr of
        None \<Rightarrow> Some None
      | Some a \<Rightarrow> (case h a of
          None \<Rightarrow> None
        | Some n \<Rightarrow> if match (contents n) then Some (Some a) else heap_find match h (next_client n)))"

text \<open>The loop of \<open>_client_list_append\<close> that leaves \<open>prevclient\<close> at the last node.\<close>

partial_function (option) heap_last ::
  "client_heap \<Rightarrow> addr option \<Rightarrow> addr option \<Rightarrow> addr option option" where
  "heap_last h prev ptr =
     (case ptr of
        None \<Rightarrow> Some prev
      | Some a \<Rightarrow> (case h a of None \<Rightarrow> None | Some n \<Rightarrow> heap_last h (Some a) (next_client n)))"

text \<open>The loop of \<open>client_list_delete\<close>: forward until \<open>ptr->next\<close> is NULL or the wanted client.\<close>

partial_function (option) heap_before :: "client_heap \<Rightarrow> addr \<Rightarrow> addr \<Rightarrow> (addr \<times> addr option) option" where
  "heap_before h client ptr =
     (case h ptr of
        None \<Rightarrow> None
      | Some n \<Rightarrow> (case next_client n of
          None \<Rightarrow> Some (ptr, None)
        | Some nx \<Rightarrow> if nx = client then Some (ptr, Some nx) else heap_before h client nx))"

text \<open>The loop of \<open>client_list_flush\<close>: read \<open>next\<close>, then free the node.\<close>

partial_function (option) heap_free_all :: "client_heap \<Rightarrow> addr option \<Rightarrow> client_heap option" where
  "heap_free_all h ptr =
     (case ptr of
        None \<Rightarrow> Some h
      | Some a \<Rightarrow> (case h a of None \<Rightarrow> None | Some n \<Rightarrow> heap_free_all (h(a := None)) (next_client n)))"

definition set_next :: "addr \<Rightarrow> addr option \<Rightarrow> client_heap \<Rightarrow> client_heap option" where
  "set_next a nx h = (case h a of None \<Rightarrow> None | Some n \<Rightarrow> Some (h(a \<mapsto> n\<lparr>next_client := nx\<rparr>)))"

section \<open>Operations\<close>

text \<open>\<open>a\<close> is the address that \<open>safe_malloc\<close> returns, \<open>c\<close> the contents of the new node.\<close>

definition heap_append :: "addr \<Rightarrow> t_client \<Rightarrow> client_mem \<Rightarrow> client_mem option" where
  "heap_append a c m =
     do {
       prevclient \<leftarrow> heap_last (heap m) None (firstclient m);
       let h = (heap m)(a \<mapsto> \<lparr>contents = c, next_client = None\<rparr>);
       case prevclient of
         None \<Rightarrow> Some (m\<lparr>heap := h, firstclient := Some a\<rparr>)
       | Some p \<Rightarrow> do { h \<leftarrow> set_next p (Some a) h; Some (m\<lparr>heap := h\<rparr>) }
     }"

definition heap_delete :: "addr \<Rightarrow> client_mem \<Rightarrow> client_mem option" where
  "heap_delete client m =
     (case firstclient m of
        None \<Rightarrow> Some m
      | Some ptr \<Rightarrow>
          if ptr = client then
            (case heap m ptr of
               None \<Rightarrow> None
             | Some n \<Rightarrow> Some (m\<lparr>firstclient := next_client n, heap := (heap m)(client := None)\<rparr>))
          else
            (case heap_before (heap m) client ptr of
               None \<Rightarrow> None
             | Some (p, None) \<Rightarrow> Some m
             | Some (p, Some _) \<Rightarrow>
                 (case heap m client of
                    None \<Rightarrow> None
                  | Some n \<Rightarrow> do {
                      h \<leftarrow> set_next p (next_client n) (heap m);
                      Some (m\<lparr>heap := h(client := None)\<rparr>) })))"

text \<open>The loop of \<open>client_list_flush\<close> and the assignment after it; and the function with its test of the counter.\<close>

definition heap_flush :: "client_mem \<Rightarrow> client_mem option" where
  "heap_flush m =
     do { h \<leftarrow> heap_free_all (heap m) (firstclient m); Some (m\<lparr>heap := h, firstclient := None\<rparr>) }"

definition heap_client_list_flush :: "int \<Rightarrow> client_mem \<Rightarrow> client_mem option" where
  "heap_client_list_flush count m = (if count = 0 then Some m else heap_flush m)"

text \<open>The five searches, each with the test of its loop, and the search that tries three of them.\<close>

definition heap_client_list_find :: "string \<Rightarrow> string \<Rightarrow> client_mem \<Rightarrow> addr option option" where
  "heap_client_list_find mac ip m = heap_find (\<lambda>c. cl_mac c = mac \<and> cl_ip c = ip) (heap m) (firstclient m)"

definition heap_client_list_find_by_id :: "32 word \<Rightarrow> client_mem \<Rightarrow> addr option option" where
  "heap_client_list_find_by_id i m = heap_find (\<lambda>c. cl_id c = i) (heap m) (firstclient m)"

definition heap_client_list_find_by_ip :: "string \<Rightarrow> client_mem \<Rightarrow> addr option option" where
  "heap_client_list_find_by_ip ip m = heap_find (\<lambda>c. cl_ip c = ip) (heap m) (firstclient m)"

definition heap_client_list_find_by_mac :: "string \<Rightarrow> client_mem \<Rightarrow> addr option option" where
  "heap_client_list_find_by_mac mac m = heap_find (\<lambda>c. cl_mac c = mac) (heap m) (firstclient m)"

definition heap_client_list_find_by_token :: "string \<Rightarrow> client_mem \<Rightarrow> addr option option" where
  "heap_client_list_find_by_token token m = heap_find (\<lambda>c. cl_token c = token) (heap m) (firstclient m)"

definition heap_client_list_find_by_any :: "string \<Rightarrow> string \<Rightarrow> string \<Rightarrow> client_mem \<Rightarrow> addr option option" where
  "heap_client_list_find_by_any mac ip token m =
     do {
       client \<leftarrow> heap_client_list_find_by_token token m;
       client \<leftarrow> (if client = None then heap_client_list_find_by_ip ip m else Some client);
       if client = None then heap_client_list_find_by_mac mac m else Some client
     }"

section \<open>Representation\<close>

fun path :: "client_heap \<Rightarrow> addr option \<Rightarrow> (addr \<times> t_client) list \<Rightarrow> addr option \<Rightarrow> bool" where
  "path h p [] q \<longleftrightarrow> p = q"
| "path h p ((a, c) # xs) q \<longleftrightarrow>
     p = Some a \<and> (\<exists>nx. h a = Some \<lparr>contents = c, next_client = nx\<rparr> \<and> path h nx xs q)"

definition represents :: "client_mem \<Rightarrow> (addr \<times> t_client) list \<Rightarrow> bool" where
  "represents m xs \<longleftrightarrow> path (heap m) (firstclient m) xs None \<and> distinct (map fst xs)"

lemma path_append: "path h p (xs @ ys) q \<longleftrightarrow> (\<exists>r. path h p xs r \<and> path h r ys q)"
proof (induction xs arbitrary: p)
  case (Cons x xs)
  then show ?case by (cases x) (simp, blast)
qed simp

lemma path_upd [simp]: "a \<notin> fst ` set xs \<Longrightarrow> path (h(a := v)) p xs q = path h p xs q"
proof (induction xs arbitrary: p)
  case (Cons x xs)
  then show ?case by (cases x) simp
qed simp

lemma path_unlink:
  assumes "path h p (zs @ (b, e) # (a, d) # vs) None"
    and "distinct (map fst (zs @ (b, e) # (a, d) # vs))"
  obtains nx where "h b = Some \<lparr>contents = e, next_client = Some a\<rparr>"
    "h a = Some \<lparr>contents = d, next_client = nx\<rparr>"
    "path (h(b \<mapsto> \<lparr>contents = e, next_client = nx\<rparr>, a := None)) p (zs @ (b, e) # vs) None"
proof -
  from assms obtain nx where nx: "path h p zs (Some b)"
    "h b = Some \<lparr>contents = e, next_client = Some a\<rparr>"
    "h a = Some \<lparr>contents = d, next_client = nx\<rparr>" "path h nx vs None"
    by (auto simp: path_append)
  moreover have "a \<notin> fst ` set zs" "b \<notin> fst ` set zs" "a \<notin> fst ` set vs" "b \<notin> fst ` set vs" "a \<noteq> b"
    using assms(2) by auto
  ultimately have "path (h(b \<mapsto> \<lparr>contents = e, next_client = nx\<rparr>, a := None)) p (zs @ (b, e) # vs) None"
    by (simp add: path_append)
  with nx that show ?thesis by blast
qed

section \<open>The loops on a represented list\<close>

lemma heap_find_path:
  "path h p xs None \<Longrightarrow> heap_find match h p = Some (map_option fst (find (\<lambda>(a, c). match c) xs))"
  by (induction xs arbitrary: p) (auto simp: heap_find.simps)

lemma heap_last_path:
  "path h p xs None \<Longrightarrow> heap_last h prev p = Some (if xs = [] then prev else Some (fst (last xs)))"
  by (induction xs arbitrary: p prev) (auto simp: heap_last.simps)

lemma heap_free_all_path:
  "path h p xs None \<Longrightarrow> distinct (map fst xs) \<Longrightarrow> \<exists>h'. heap_free_all h p = Some h'"
proof (induction xs arbitrary: h p)
  case (Cons x xs)
  obtain a c where x: "x = (a, c)" by (cases x)
  with Cons.prems obtain nx where "p = Some a" "h a = Some \<lparr>contents = c, next_client = nx\<rparr>"
    "path (h(a := None)) nx xs None" by auto
  then have "heap_free_all h p = heap_free_all (h(a := None)) nx"
    by (subst heap_free_all.simps) simp
  with Cons.IH [OF \<open>path (h(a := None)) nx xs None\<close>] Cons.prems(2) show ?case
    by (simp del: fun_upd_apply)
qed (simp add: heap_free_all.simps)

lemma heap_before_path:
  "path h (Some p) ((p, c) # xs) None \<Longrightarrow> client \<noteq> p \<Longrightarrow>
   heap_before h client p =
     Some (if client \<in> fst ` set xs
           then (fst (last ((p, c) # takeWhile (\<lambda>(a, _). a \<noteq> client) xs)), Some client)
           else (fst (last ((p, c) # xs)), None))"
proof (induction xs arbitrary: p c)
  case (Cons x xs)
  obtain a d where x: "x = (a, d)" by (cases x)
  with Cons.prems show ?case
    using Cons.IH [of a d] by (cases "a = client") (auto simp: heap_before.simps [of h client p])
qed (auto simp: heap_before.simps)

section \<open>Refinement\<close>

text \<open>
  A store of client lists: how it represents a list, and operations that may fail. The laws say that
  on a represented list every operation succeeds and represents the result of the list operation.
\<close>

locale list_refinement =
  fixes repr :: "'m \<Rightarrow> (addr \<times> t_client) list \<Rightarrow> bool"
    and lookup :: "(t_client \<Rightarrow> bool) \<Rightarrow> 'm \<Rightarrow> addr option option"
    and append :: "addr \<Rightarrow> t_client \<Rightarrow> 'm \<Rightarrow> 'm option"
    and delete :: "addr \<Rightarrow> 'm \<Rightarrow> 'm option"
    and flush :: "'m \<Rightarrow> 'm option"
  assumes lookup_law: "repr m xs \<Longrightarrow> lookup p m = Some (map_option fst (find (\<lambda>(a, c). p c) xs))"
    and append_law: "repr m xs \<Longrightarrow> a \<notin> fst ` set xs \<Longrightarrow>
      \<exists>m'. append a c m = Some m' \<and> repr m' (xs @ [(a, c)])"
    and delete_law: "repr m xs \<Longrightarrow>
      \<exists>m'. delete a m = Some m' \<and> repr m' (filter (\<lambda>(b, _). b \<noteq> a) xs)"
    and flush_law: "repr m xs \<Longrightarrow> \<exists>m'. flush m = Some m' \<and> repr m' []"
begin

lemma append_then_lookup:
  assumes "repr m xs" and "a \<notin> fst ` set xs" and "p c" and "\<forall>(b, d) \<in> set xs. \<not> p d"
  shows "\<exists>m'. append a c m = Some m' \<and> lookup p m' = Some (Some a)"
proof -
  obtain m' where "append a c m = Some m'" "repr m' (xs @ [(a, c)])"
    using append_law [OF assms(1,2)] by blast
  moreover have "find (\<lambda>(a, c). p c) (xs @ [(a, c)]) = Some (a, c)"
    using assms(3,4) by (induction xs) auto
  ultimately show ?thesis using lookup_law [of m' "xs @ [(a, c)]" p] by auto
qed

end

lemma heap_append_represents:
  assumes "represents m xs" and "a \<notin> fst ` set xs"
  shows "\<exists>m'. heap_append a c m = Some m' \<and> represents m' (xs @ [(a, c)])"
proof (cases xs rule: rev_cases)
  case Nil
  then show ?thesis
    using assms heap_last_path [of "heap m" "firstclient m" "[]" None]
    by (auto simp: represents_def heap_append_def)
next
  case (snoc ys y)
  obtain b d where y: "y = (b, d)" by (cases y)
  have last: "heap_last (heap m) None (firstclient m) = Some (Some b)"
    using assms(1) heap_last_path [of "heap m" "firstclient m" xs None] snoc y
    by (simp add: represents_def)
  have b: "heap m b = Some \<lparr>contents = d, next_client = None\<rparr>" "b \<noteq> a" "b \<notin> fst ` set ys"
    "path (heap m) (firstclient m) ys (Some b)" "a \<notin> fst ` set ys" "distinct (map fst ys)"
    using assms snoc y by (auto simp: represents_def path_append)
  then show ?thesis
    using last snoc y by (auto simp: heap_append_def set_next_def represents_def path_append)
qed

lemma first_occurrence:
  assumes "a \<in> fst ` set ys"
  obtains us d vs where "ys = us @ (a, d) # vs" "a \<notin> fst ` set us"
proof -
  have "\<exists>us d vs. ys = us @ (a, d) # vs \<and> a \<notin> fst ` set us"
    using assms
  proof (induction ys)
    case (Cons y ys)
    obtain b c where y: "y = (b, c)" by (cases y)
    show ?case
    proof (cases "b = a")
      case True
      then show ?thesis using y by (intro exI [of _ "[]"]) simp
    next
      case False
      with Cons y obtain us d vs where "ys = us @ (a, d) # vs" "a \<notin> fst ` set us" by auto
      then show ?thesis using y False
        by (intro exI [of _ "(b, c) # us"] exI [of _ d] exI [of _ vs]) simp
    qed
  qed simp
  with that show ?thesis by blast
qed

lemma filter_unlink:
  assumes "distinct (map fst (zs @ y # (a, d) # vs))"
  shows "filter (\<lambda>(b, _). b \<noteq> a) (zs @ y # (a, d) # vs) = zs @ y # vs"
proof -
  have "filter (\<lambda>(b, _). b \<noteq> a) zs = zs" "filter (\<lambda>(b, _). b \<noteq> a) vs = vs"
    using assms by (intro filter_True; force)+
  then show ?thesis using assms by (cases y) auto
qed

lemma heap_delete_represents:
  assumes "represents m xs"
  shows "\<exists>m'. heap_delete client m = Some m' \<and> represents m' (filter (\<lambda>(b, _). b \<noteq> client) xs)"
proof (cases xs)
  case Nil
  then show ?thesis using assms by (auto simp: represents_def heap_delete_def)
next
  case (Cons x ys)
  obtain p c where x: "x = (p, c)" by (cases x)
  have dist: "distinct (map fst xs)" and pth: "path (heap m) (Some p) ((p, c) # ys) None"
    and first: "firstclient m = Some p"
    using assms Cons x by (auto simp: represents_def)
  show ?thesis
  proof (cases "client = p")
    case True
    have "filter (\<lambda>(b, _). b \<noteq> client) ys = ys"
      using dist Cons x True by (intro filter_True) force
    then show ?thesis
      using first pth True dist Cons x
      by (auto simp: heap_delete_def represents_def)
  next
    case ne: False
    show ?thesis
    proof (cases "client \<in> fst ` set ys")
      case False
      then have "filter (\<lambda>(b, _). b \<noteq> client) xs = xs"
        using Cons x ne by (intro filter_True) force
      then show ?thesis
        using heap_before_path [OF pth ne] False first ne assms by (simp add: heap_delete_def)
    next
      case True
      then obtain us d vs where ys: "ys = us @ (client, d) # vs" "client \<notin> fst ` set us"
        by (rule first_occurrence)
      have tw: "takeWhile (\<lambda>(a, _). a \<noteq> client) ys = us"
        using ys by (force simp: takeWhile_append)
      obtain zs b e where zs: "(p, c) # us = zs @ [(b, e)]"
        by (metis list.distinct(1) prod.exhaust rev_exhaust)
      have xs: "xs = zs @ (b, e) # (client, d) # vs"
        using Cons x ys(1) zs by (metis append.assoc append_Cons append_Nil)
      have before: "heap_before (heap m) client p = Some (b, Some client)"
        using heap_before_path [OF pth ne] True tw zs by simp
      obtain nx where nx: "heap m b = Some \<lparr>contents = e, next_client = Some client\<rparr>"
        "heap m client = Some \<lparr>contents = d, next_client = nx\<rparr>"
        "path ((heap m)(b \<mapsto> \<lparr>contents = e, next_client = nx\<rparr>, client := None)) (firstclient m)
          (zs @ (b, e) # vs) None"
        using path_unlink [of "heap m" "firstclient m" zs b e client d vs] assms xs
        by (metis represents_def)
      have "filter (\<lambda>(b, _). b \<noteq> client) xs = zs @ (b, e) # vs"
        using filter_unlink [of zs "(b, e)" client d vs] dist xs by simp
      moreover have "distinct (map fst (zs @ (b, e) # vs))" using dist xs by simp
      ultimately show ?thesis
        using nx before first ne by (simp add: heap_delete_def set_next_def represents_def)
    qed
  qed
qed

lemma heap_flush_represents:
  "represents m xs \<Longrightarrow> \<exists>m'. heap_flush m = Some m' \<and> represents m' []"
  using heap_free_all_path [of "heap m" "firstclient m" xs]
  by (auto simp: represents_def heap_flush_def)

lemma heap_find_represents:
  "represents m xs \<Longrightarrow>
   heap_find p (heap m) (firstclient m) = Some (map_option fst (find (\<lambda>(a, c). p c) xs))"
  by (simp add: represents_def heap_find_path)

interpretation heap_list: list_refinement represents "\<lambda>p m. heap_find p (heap m) (firstclient m)"
  heap_append heap_delete heap_flush
  by unfold_locales
    (simp_all add: heap_append_represents heap_delete_represents heap_flush_represents
      heap_find_represents)

lemmas heap_searches = heap_client_list_find_def heap_client_list_find_by_id_def heap_client_list_find_by_ip_def
  heap_client_list_find_by_mac_def heap_client_list_find_by_token_def

lemmas list_searches = client_list_find_def client_list_find_by_id_def client_list_find_by_ip_def
  client_list_find_by_mac_def client_list_find_by_token_def find_addr_def

lemma heap_searches_refine:
  assumes "represents m (clients s)"
  shows "heap_client_list_find mac ip m = Some (client_list_find mac ip s)"
    and "heap_client_list_find_by_id i m = Some (client_list_find_by_id i s)"
    and "heap_client_list_find_by_ip ip m = Some (client_list_find_by_ip ip s)"
    and "heap_client_list_find_by_mac mac m = Some (client_list_find_by_mac mac s)"
    and "heap_client_list_find_by_token token m = Some (client_list_find_by_token token s)"
  by (simp_all add: heap_list.lookup_law [OF assms] heap_searches list_searches)

lemma heap_find_by_any_refines:
  "represents m (clients s) \<Longrightarrow> heap_client_list_find_by_any mac ip token m = Some (client_list_find_by_any mac ip token s)"
  by (simp add: heap_client_list_find_by_any_def client_list_find_by_any_def heap_searches_refine split: option.split)

lemma heap_append_refines:
  assumes "represents m (clients s)" and "cl_inv s" and app: "client_list_append env mac ip s = (Some a, s')"
  shows "\<exists>m'. heap_append a (new_client env mac ip s) m = Some m' \<and> represents m' (clients s')"
proof -
  have "a \<notin> fst ` set (clients s)"
    using assms(2) client_list_append_new(1) [OF app] by (auto simp: cl_inv_def list_all_iff addrs_def)
  moreover have "clients s' = clients s @ [(a, new_client env mac ip s)]"
    unfolding client_list_append_new(3) [OF app] by simp
  ultimately show ?thesis using heap_list.append_law [OF assms(1), of a] by simp
qed

lemma heap_delete_refines:
  assumes "represents m (clients s)"
  shows "\<exists>m'. heap_delete a m = Some m' \<and> represents m' (clients (client_list_delete a s))"
proof -
  have "clients (client_list_delete a s) = filter (\<lambda>(b, _). b \<noteq> a) (clients s)"
  proof (cases "client_at s a")
    case None
    then have "a \<notin> fst ` set (clients s)" by (simp add: client_at_None addrs_def)
    then have "filter (\<lambda>(b, _). b \<noteq> a) (clients s) = clients s" by (intro filter_True) force
    with None show ?thesis by (simp add: client_list_delete_def)
  qed (simp add: client_list_delete_def)
  then show ?thesis using heap_list.delete_law [OF assms, of a] by simp
qed

lemma heap_flush_refines:
  assumes "represents m (clients s)" and "cl_inv s"
  shows "\<exists>m'. heap_client_list_flush (client_count s) m = Some m' \<and> represents m' (clients (client_list_flush s))"
  using assms heap_list.flush_law [OF assms(1)] by (simp add: heap_client_list_flush_def client_list_flush_def)

section \<open>Properties\<close>

text \<open>C23. The pointer code of the client list refines the list operations: on a heap that represents
  a well-formed list, each of the five search loops (MAC and IP, id, IP, MAC, token) and the search that tries three of
  them end without touching freed memory and return the node that the list search returns; appending (with a fresh
  address), deleting (also of a pointer that is not on the list) and flushing end, touch only allocated nodes, and
  leave a heap that represents the list after the list operation.\<close>

theorem client_list_heap_refinement:
  assumes rep: "represents m (clients s)" and inv: "cl_inv s"
  shows "heap_client_list_find mac ip m = Some (client_list_find mac ip s)
    \<and> heap_client_list_find_by_id i m = Some (client_list_find_by_id i s)
    \<and> heap_client_list_find_by_ip ip m = Some (client_list_find_by_ip ip s)
    \<and> heap_client_list_find_by_mac mac m = Some (client_list_find_by_mac mac s)
    \<and> heap_client_list_find_by_token token m = Some (client_list_find_by_token token s)
    \<and> heap_client_list_find_by_any mac ip token m = Some (client_list_find_by_any mac ip token s)
    \<and> (\<forall>a s'. client_list_append env mac ip s = (Some a, s') \<longrightarrow>
      (\<exists>m'. heap_append a (new_client env mac ip s) m = Some m' \<and> represents m' (clients s')))
    \<and> (\<exists>m'. heap_delete a m = Some m' \<and> represents m' (clients (client_list_delete a s)))
    \<and> (\<exists>m'. heap_client_list_flush (client_count s) m = Some m' \<and> represents m' (clients (client_list_flush s)))"
  using heap_append_refines [OF rep inv] heap_delete_refines [OF rep] heap_flush_refines [OF rep inv]
  by (simp add: heap_searches_refine [OF rep] heap_find_by_any_refines [OF rep])

text \<open>Two clients on the list, and their nodes.\<close>

definition two_client :: "string \<Rightarrow> string \<Rightarrow> string \<Rightarrow> 32 word \<Rightarrow> t_client" where
  "two_client mac ip tok i = (blank_client mac ip)\<lparr>cl_token := tok, cl_id := i\<rparr>"

definition two_clients :: nds where
  "two_clients = (nds_start config_init)\<lparr>clients :=
     [(1, two_client ''00:11:22:33:44:55'' ''10.0.0.2'' ''aaaa'' 1), (2, two_client ''00:11:22:33:44:66'' ''10.0.0.3'' ''bbbb'' 2)],
     client_count := 2, client_id := 3, next_addr := 3\<rparr>"

definition two_nodes :: client_mem where
  "two_nodes = \<lparr>heap = [1 \<mapsto> \<lparr>contents = two_client ''00:11:22:33:44:55'' ''10.0.0.2'' ''aaaa'' 1, next_client = Some 2\<rparr>,
     2 \<mapsto> \<lparr>contents = two_client ''00:11:22:33:44:66'' ''10.0.0.3'' ''bbbb'' 2, next_client = None\<rparr>], firstclient = Some 1\<rparr>"

theorem client_list_heap_refinement_witness:
  "heap_client_list_find_by_token ''bbbb'' two_nodes = Some (Some 2)
    \<and> (\<exists>m'. heap_delete 1 two_nodes = Some m'
         \<and> represents m' [(2, two_client ''00:11:22:33:44:66'' ''10.0.0.3'' ''bbbb'' 2)])"
proof -
  have r: "represents two_nodes (clients two_clients)" by (simp add: represents_def two_nodes_def two_clients_def)
  have i: "cl_inv two_clients" by code_simp
  have "client_list_find_by_token ''bbbb'' two_clients = Some 2" by code_simp
  moreover have "clients (client_list_delete 1 two_clients) = [(2, two_client ''00:11:22:33:44:66'' ''10.0.0.3'' ''bbbb'' 2)]"
    by (simp add: client_list_delete_def two_clients_def client_at_def)
  ultimately show ?thesis
    using client_list_heap_refinement [OF r i, where token = "''bbbb''" and a = 1] by simp
qed

end
