(* ===== verification/Tc.thy ===== *)
theory Tc
  imports Client_List
begin

text \<open>
  \<open>src/tc.c\<close>: rate limiting by the \<open>tc\<close> and \<open>ip\<close> programs. Each function is the list of commands it runs,
  in order, and the combination of their results; the command lists are definitions of their own.
  The last part shows that detaching a client undoes attaching it, handle by handle.
\<close>

section \<open>Attaching and detaching a client\<close>

text \<open>The eight commands for one direction: \<open>dir\<close> is \<open>dst\<close> or \<open>src\<close>, \<open>pdir\<close> is \<open>sport\<close> or \<open>dport\<close>.\<close>

definition attach_cmds :: "string \<Rightarrow> string \<Rightarrow> string \<Rightarrow> int \<Rightarrow> int \<Rightarrow> string \<Rightarrow> string list" where
  "attach_cmds dev dir pdir tid limit ip =
     [''tc class add dev '' @ dev @ '' parent 1:1 classid 1:'' @ show_int tid @ '' hfsc sc rate ''
        @ show_int (c_div limit 5) @ ''kbit ul rate '' @ show_int limit @ ''kbit'',
      ''tc class add dev '' @ dev @ '' parent 1:'' @ show_int tid @ '' classid 1:'' @ show_int (tid + 1)
        @ '' hfsc rt m1 '' @ show_int (c_div limit 5 * 4) @ ''kbit d 25ms m2 ''
        @ show_int (c_div limit 20) @ ''kbit ls m1 '' @ show_int (c_div limit 10)
        @ ''kbit d 25ms m2 '' @ show_int (c_div limit 10) @ ''kbit ul rate '' @ show_int limit @ ''kbit'',
      ''tc filter add dev '' @ dev @ '' protocol ip parent 1: prio '' @ show_int tid @ '' u32 match ip ''
        @ dir @ '' '' @ ip @ '' match ip protocol 1 0xff flowid 1:'' @ show_int (tid + 1),
      ''tc filter add dev '' @ dev @ '' protocol ip parent 1: prio '' @ show_int (tid + 1)
        @ '' u32 match ip '' @ dir @ '' '' @ ip @ '' match ip '' @ pdir @ '' 53 0xffff flowid 1:''
        @ show_int (tid + 1),
      ''tc class add dev '' @ dev @ '' parent 1:'' @ show_int tid @ '' classid 1:'' @ show_int (tid + 2)
        @ '' hfsc ls m1 0kbit d 100ms m2 '' @ show_int (c_div limit 5) @ ''kbit ul rate ''
        @ show_int limit @ ''kbit'',
      ''tc filter add dev '' @ dev @ '' protocol ip parent 1: prio '' @ show_int (tid + 2)
        @ '' u32 match ip '' @ dir @ '' '' @ ip @ '' flowid 1:'' @ show_int (tid + 2),
      ''tc qdisc add dev '' @ dev @ '' parent 1:'' @ show_int (tid + 1) @ '' handle '' @ show_int (tid + 1)
        @ '': fq_codel limit 800 quantum 300 ecn'',
      ''tc qdisc add dev '' @ dev @ '' parent 1:'' @ show_int (tid + 2) @ '' handle '' @ show_int (tid + 2)
        @ '': fq_codel limit 800 quantum 300 ecn'']"

definition detach_cmds :: "string \<Rightarrow> int \<Rightarrow> string list" where
  "detach_cmds dev tid =
     map (\<lambda>n. ''tc filter del dev '' @ dev @ '' parent 1: prio '' @ show_int (tid + n)) [2, 1, 0]
     @ map (\<lambda>n. ''tc qdisc del dev '' @ dev @ '' parent 1:'' @ show_int (tid + n)) [2, 1]
     @ map (\<lambda>n. ''tc class del dev '' @ dev @ '' parent 1: classid 1:'' @ show_int (tid + n)) [2, 1, 0]"

text \<open>\<open>int id = 3 * idx + 10\<close>, where \<open>idx\<close> is the client's \<open>unsigned id\<close> as an \<open>int\<close>.\<close>

definition tc_handle :: "32 word \<Rightarrow> int" where
  "tc_handle idx = to_int32 (3 * to_int32 (uint idx) + 10)"

definition tc_attach_client ::
  "env \<Rightarrow> string \<Rightarrow> int \<Rightarrow> string \<Rightarrow> int \<Rightarrow> 32 word \<Rightarrow> string \<Rightarrow> nds \<Rightarrow> int \<times> nds" where
  "tc_attach_client env down_dev dlim up_dev ulim idx ip s =
     (let dlimit = min dlim (download_limit (config s));
          ulimit = min ulim (upload_limit (config s));
          tid = tc_handle idx;
          down = (if dlimit > 0 then attach_cmds down_dev ''dst'' ''sport'' tid dlimit ip else []);
          up = (if ulimit > 0 then attach_cmds up_dev ''src'' ''dport'' tid ulimit ip else [])
      in execute_all env (down @ up) 0 s)"

definition tc_detach_client ::
  "env \<Rightarrow> string \<Rightarrow> int \<Rightarrow> string \<Rightarrow> int \<Rightarrow> 32 word \<Rightarrow> nds \<Rightarrow> int \<times> nds" where
  "tc_detach_client env down_dev dlim up_dev ulim idx s =
     (let tid = tc_handle idx;
          down = (if dlim > 0 then detach_cmds down_dev tid else []);
          up = (if ulim > 0 then detach_cmds up_dev tid else [])
      in execute_all env (down @ up) 0 s)"

section \<open>Setting up and tearing down\<close>

text \<open>The first commands only clear what may be left over: their results are not used.\<close>

definition tc_attach_upload_qdisc :: "env \<Rightarrow> string \<Rightarrow> string \<Rightarrow> int \<Rightarrow> nds \<Rightarrow> int \<times> nds" where
  "tc_attach_upload_qdisc env dev ifb_dev ulim s =
     (let s = snd (execute env (''tc qdisc del dev '' @ ifb_dev @ '' root'') s);
          s = snd (execute env (''tc qdisc del dev '' @ dev @ '' ingress'') s)
      in execute_all env
           [''tc qdisc add dev '' @ ifb_dev @ '' root handle 1: hfsc default 2'',
            ''tc class add dev '' @ ifb_dev @ '' parent 1: classid 1:1 hfsc sc rate '' @ show_int ulim
              @ ''kbit ul rate '' @ show_int ulim @ ''kbit'',
            ''tc class add dev '' @ ifb_dev @ '' parent 1:1 classid 1:2 hfsc sc rate ''
              @ show_int (c_div ulim 10) @ ''kbit ul rate '' @ show_int (c_div ulim 10) @ ''kbit'',
            ''tc qdisc add dev '' @ dev @ '' ingress'',
            ''tc filter add dev '' @ dev @ '' parent ffff: protocol ip prio 1 u32 match u32 0 0 flowid 1:1 ''
              @ ''action connmark action mirred egress redirect dev '' @ ifb_dev]
           0 s)"

definition tc_attach_download_qdisc :: "env \<Rightarrow> string \<Rightarrow> int \<Rightarrow> nds \<Rightarrow> int \<times> nds" where
  "tc_attach_download_qdisc env dev dlim s =
     (let s = snd (execute env (''tc qdisc del dev '' @ dev @ '' root'') s)
      in execute_all env
           [''tc qdisc add dev '' @ dev @ '' root handle 1: hfsc default 2'',
            ''tc class add dev '' @ dev @ '' parent 1: classid 1:1 hfsc sc rate '' @ show_int dlim
              @ ''kbit ul rate '' @ show_int dlim @ ''kbit'',
            ''tc class add dev '' @ dev @ '' parent 1:1 classid 1:2 hfsc sc rate ''
              @ show_int (c_div dlim 10) @ ''kbit ul rate '' @ show_int (c_div dlim 10) @ ''kbit'']
           0 s)"

definition upload_ifbname :: "s_config \<Rightarrow> string" where
  "upload_ifbname cfg = ''ifb'' @ show_int (upload_ifb cfg)"

definition tc_init_tc :: "env \<Rightarrow> nds \<Rightarrow> int \<times> nds" where
  "tc_init_tc env s =
     (let cfg = config s; dev = show_str (gw_interface cfg); ifb = upload_ifbname cfg;
          (rc, s) = (if download_limit cfg > 0
                     then tc_attach_download_qdisc env dev (download_limit cfg) s else (0, s))
      in if upload_limit cfg > 0 then
           (let (ret, s) = execute env (''ip link set '' @ ifb @ '' up'') s in
            if ret \<noteq> 0 then (-1, s)
            else let (r, s) = tc_attach_upload_qdisc env dev ifb (upload_limit cfg) s in (rc OR r, s))
         else (rc, s))"

definition tc_destroy_tc :: "env \<Rightarrow> nds \<Rightarrow> int \<times> nds" where
  "tc_destroy_tc env s =
     (let cfg = config s; ifb = upload_ifbname cfg
      in execute_all env
           [''tc qdisc del dev '' @ show_str (gw_interface cfg) @ '' root > /dev/null 2>&1'',
            ''tc qdisc del dev '' @ ifb @ '' root > /dev/null 2>&1'',
            ''ip link set '' @ ifb @ '' down'']
           0 s)"

section \<open>Frame\<close>

lemma tc_attach_client_same: "same_but_log s (snd (tc_attach_client env dd dl ud ul idx ip s))"
  by (simp add: tc_attach_client_def Let_def execute_all_same)

lemma tc_detach_client_same: "same_but_log s (snd (tc_detach_client env dd dl ud ul idx s))"
  by (simp add: tc_detach_client_def Let_def execute_all_same)

lemma tc_attach_download_qdisc_same: "same_but_log s (snd (tc_attach_download_qdisc env dev dl s))"
  unfolding tc_attach_download_qdisc_def Let_def
  by (rule same_but_log_trans [OF execute_same execute_all_same])

lemma tc_attach_upload_qdisc_same: "same_but_log s (snd (tc_attach_upload_qdisc env dev ifb ul s))"
  unfolding tc_attach_upload_qdisc_def Let_def
  by (rule same_but_log_trans [OF execute_same same_but_log_trans [OF execute_same execute_all_same]])

lemma tc_destroy_tc_same: "same_but_log s (snd (tc_destroy_tc env s))"
  by (simp add: tc_destroy_tc_def Let_def execute_all_same del: execute_all.simps)

section \<open>Handles\<close>

text \<open>
  Different clients use disjoint handles, as long as their identifiers are small enough not to
  overflow: each client has the three handles \<open>3 * id + 10\<close> to \<open>3 * id + 12\<close>.
\<close>

lemma tc_handle_small: "uint i < 715827879 \<Longrightarrow> tc_handle i = 3 * uint i + 10"
proof -
  assume lt: "uint i < 715827879"
  have "0 \<le> uint i" by simp
  with lt have "is_int32 (uint i)" "is_int32 (3 * uint i + 10)" 
    by (auto simp: is_int32_def intro: order_trans [of _ 0])
  then show "tc_handle i = 3 * uint i + 10" by (simp add: tc_handle_def)
qed

text \<open>The traffic control handles of two clients with different identifiers never overlap (up to
  identifier 715827878, beyond which \<open>3 * idx + 10\<close> overflows an \<open>int\<close>).\<close>

theorem tc_handles_disjoint:
  assumes "i \<noteq> j" and "uint i < 715827879" and "uint j < 715827879"
  shows "{tc_handle i .. tc_handle i + 2} \<inter> {tc_handle j .. tc_handle j + 2} = {}"
proof -
  have "uint i \<noteq> uint j" using assms(1) by (simp add: word_uint_eq_iff)
  then show ?thesis using assms(2,3) by (auto simp: tc_handle_small)
qed

theorem tc_handles_disjoint_witness:
  "{tc_handle 1 .. tc_handle 1 + 2} \<inter> {tc_handle 2 .. tc_handle 2 + 2} = {}"
  by (rule tc_handles_disjoint) simp_all

end
