(* ===== verification/Fw_Iptables.thy ===== *)
theory Fw_Iptables
  imports Tc
begin

text \<open>
  \<open>src/fw_iptables.c\<close>: the firewall. A command is the text behind \<open>iptables --wait\<close>; what the program
  changes in the kernel is the sequence of commands it runs, which the state logs. Printing of the
  listings that the counters are read from is up to the parameter \<open>sh\<close> of the surroundings; the parser
  is the \<open>fscanf\<close> model of theory \<open>Libc\<close>. Theory \<open>Auth_Rules\<close> relates the logged commands to the clients.
\<close>

section \<open>Marks and states\<close>

definition fw_connection_state_as_string :: "32 word \<Rightarrow> nds \<Rightarrow> string" where
  "fw_connection_state_as_string mark s =
     (if mark = FW_MARK_PREAUTHENTICATED s then ''Preauthenticated''
      else if mark = FW_MARK_AUTHENTICATED s then ''Authenticated''
      else if mark = FW_MARK_TRUSTED s then ''Trusted''
      else if mark = FW_MARK_BLOCKED s then ''Blocked''
      else ''ERROR: unrecognized mark'')"

definition iptables_init_marks :: "nds \<Rightarrow> int \<times> nds" where
  "iptables_init_marks s =
     (if FW_MARK_BLOCKED s = FW_MARK_TRUSTED s \<or> FW_MARK_TRUSTED s = FW_MARK_AUTHENTICATED s
         \<or> FW_MARK_AUTHENTICATED s = FW_MARK_BLOCKED s then (-1, s)
      else if FW_MARK_BLOCKED s = 0 \<or> FW_MARK_TRUSTED s = 0 \<or> FW_MARK_AUTHENTICATED s = 0 then (-1, s)
      else (0, s\<lparr>FW_MARK_PREAUTHENTICATED := 0,
                FW_MARK_MASK := FW_MARK_BLOCKED s OR FW_MARK_TRUSTED s OR FW_MARK_AUTHENTICATED s\<rparr>))"

section \<open>Running iptables\<close>

definition iptables_cmdline :: "nds \<Rightarrow> string \<Rightarrow> string" where
  "iptables_cmdline s fmt_cmd =
     (if ip6 (config s) \<noteq> 0 then ''ip6tables'' else ''iptables'') @ '' --wait '' @ fmt_cmd
     @ (if fw_quiet s then '' > /dev/null 2>&1'' else [])"

text \<open>At most five attempts; only exit code 4 is retried.\<close>

fun do_command_loop :: "env \<Rightarrow> string \<Rightarrow> nat \<Rightarrow> int \<Rightarrow> nds \<Rightarrow> int \<times> nds" where
  "do_command_loop env cmd 0 rc s = (rc, s)"
| "do_command_loop env cmd (Suc i) rc s =
     (case execute env cmd s of (rc, s') \<Rightarrow> if rc = 4 then do_command_loop env cmd i rc s' else (rc, s'))"

definition iptables_do_command :: "env \<Rightarrow> string \<Rightarrow> nds \<Rightarrow> int \<times> nds" where
  "iptables_do_command env fmt_cmd s = do_command_loop env (iptables_cmdline s fmt_cmd) 5 0 s"

text \<open>\<open>rc |= iptables_do_command(..); rc |= iptables_do_command(..); ..\<close>\<close>

fun iptables_all :: "env \<Rightarrow> string list \<Rightarrow> int \<Rightarrow> nds \<Rightarrow> int \<times> nds" where
  "iptables_all env [] rc s = (rc, s)"
| "iptables_all env (cmd # cmds) rc s =
     (case iptables_do_command env cmd s of (r, s') \<Rightarrow> iptables_all env cmds (rc OR r) s')"

definition iptables_check_mark_masking :: "env \<Rightarrow> nds \<Rightarrow> int \<times> nds" where
  "iptables_check_mark_masking env s =
     (let s = s\<lparr>fw_quiet := True\<rparr>;
          (r, s) = iptables_do_command env
             (''-t mangle -I PREROUTING 1 -j MARK --or-mark 0x'' @ show_hex (FW_MARK_BLOCKED s)) s;
          s = (if r = 0
               then (snd (iptables_do_command env ''-t mangle -D PREROUTING 1'' s))\<lparr>markop := ''--or-mark''\<rparr>
               else s\<lparr>markop := ''--set-mark''\<rparr>);
          (r, s) = iptables_do_command env
             (''-t filter -I FORWARD 1 -m mark --mark 0x'' @ show_hex (FW_MARK_BLOCKED s) @ ''/0x''
                @ show_hex (FW_MARK_MASK s) @ '' -j REJECT'') s;
          s = (if r = 0
               then (snd (iptables_do_command env ''-t filter -D FORWARD 1'' s))
                      \<lparr>markmask := ''/0x'' @ show_hex (FW_MARK_MASK s)\<rparr>
               else s\<lparr>markmask := []\<rparr>)
      in (0, s\<lparr>fw_quiet := False\<rparr>))"

section \<open>Rules of the configuration\<close>

definition target_name :: "t_firewall_target \<Rightarrow> string" where
  "target_name t = (case t of TARGET_DROP \<Rightarrow> ''DROP'' | TARGET_REJECT \<Rightarrow> ''REJECT''
     | TARGET_ACCEPT \<Rightarrow> ''ACCEPT'' | TARGET_LOG \<Rightarrow> ''LOG'' | TARGET_ULOG \<Rightarrow> ''ULOG'')"

definition opt_arg :: "string \<Rightarrow> string option \<Rightarrow> string \<Rightarrow> string" where
  "opt_arg pre v post = (case v of None \<Rightarrow> [] | Some x \<Rightarrow> pre @ x @ post)"

text \<open>Each \<open>snprintf\<close> appends to \<open>command[MAX_BUF]\<close>, cut at its end.\<close>

definition iptables_compile :: "string \<Rightarrow> string \<Rightarrow> t_firewall_rule \<Rightarrow> string" where
  "iptables_compile table chain rule =
     take (MAX_BUF - 1)
      (''-t '' @ table @ '' -A '' @ chain @ '' ''
       @ opt_arg ''-d '' (rule_mask rule) '' ''
       @ opt_arg ''-p '' (protocol rule) '' ''
       @ opt_arg ''--dport '' (port rule) '' ''
       @ opt_arg ''-m set --match-set '' (ipset rule) '' dst ''
       @ ''-j '' @ target_name (target rule))"

definition append_ruleset_cmds :: "s_config \<Rightarrow> string \<Rightarrow> string \<Rightarrow> string \<Rightarrow> string list" where
  "append_ruleset_cmds cfg table ruleset chain =
     map (iptables_compile table chain) (get_ruleset_list cfg ruleset)"

section \<open>MAC rules\<close>

text \<open>\<open>verb\<close> is \<open>-A\<close>, \<open>-D\<close> or \<open>-I\<close>.\<close>

definition block_mac_cmd :: "string \<Rightarrow> string \<Rightarrow> nds \<Rightarrow> string" where
  "block_mac_cmd verb mac s = ''-t mangle '' @ verb @ '' ndsBLK -m mac --mac-source '' @ mac @ '' -j MARK ''
     @ markop s @ '' 0x'' @ show_hex (FW_MARK_BLOCKED s)"

definition allow_mac_cmd :: "string \<Rightarrow> string \<Rightarrow> nds \<Rightarrow> string" where
  "allow_mac_cmd verb mac s = ''-t mangle '' @ verb @ '' ndsBLK -m mac --mac-source '' @ mac @ '' -j RETURN''"

definition trust_mac_cmd :: "string \<Rightarrow> string \<Rightarrow> nds \<Rightarrow> string" where
  "trust_mac_cmd verb mac s = ''-t mangle '' @ verb @ '' ndsTRU -m mac --mac-source '' @ mac @ '' -j MARK ''
     @ markop s @ '' 0x'' @ show_hex (FW_MARK_TRUSTED s)"

definition iptables_block_mac :: "env \<Rightarrow> string \<Rightarrow> nds \<Rightarrow> int \<times> nds" where
  "iptables_block_mac env mac s = iptables_do_command env (block_mac_cmd ''-A'' mac s) s"

definition iptables_unblock_mac :: "env \<Rightarrow> string \<Rightarrow> nds \<Rightarrow> int \<times> nds" where
  "iptables_unblock_mac env mac s = iptables_do_command env (block_mac_cmd ''-D'' mac s) s"

definition iptables_allow_mac :: "env \<Rightarrow> string \<Rightarrow> nds \<Rightarrow> int \<times> nds" where
  "iptables_allow_mac env mac s = iptables_do_command env (allow_mac_cmd ''-I'' mac s) s"

definition iptables_unallow_mac :: "env \<Rightarrow> string \<Rightarrow> nds \<Rightarrow> int \<times> nds" where
  "iptables_unallow_mac env mac s = iptables_do_command env (allow_mac_cmd ''-D'' mac s) s"

definition iptables_trust_mac :: "env \<Rightarrow> string \<Rightarrow> nds \<Rightarrow> int \<times> nds" where
  "iptables_trust_mac env mac s = iptables_do_command env (trust_mac_cmd ''-A'' mac s) s"

definition iptables_untrust_mac :: "env \<Rightarrow> string \<Rightarrow> nds \<Rightarrow> int \<times> nds" where
  "iptables_untrust_mac env mac s = iptables_do_command env (trust_mac_cmd ''-D'' mac s) s"

section \<open>Rules of authenticated clients\<close>

text \<open>The three mangle rules of an authenticated client.\<close>

definition client_rules :: "string \<Rightarrow> t_client \<Rightarrow> nds \<Rightarrow> string list" where
  "client_rules verb c s =
     [''-t mangle '' @ verb @ '' ndsOUT -s '' @ cl_ip c @ '' -m mac --mac-source '' @ cl_mac c @ '' -j MARK ''
        @ markop s @ '' 0x'' @ show_hex (FW_MARK_AUTHENTICATED s),
      ''-t mangle '' @ verb @ '' ndsINC -d '' @ cl_ip c @ '' -j MARK ''
        @ markop s @ '' 0x'' @ show_hex (FW_MARK_AUTHENTICATED s),
      ''-t mangle '' @ verb @ '' ndsINC -d '' @ cl_ip c @ '' -j ACCEPT'']"

text \<open>The limits of the client override those of the configuration, but only both together.\<close>

definition effective_limits :: "t_client \<Rightarrow> s_config \<Rightarrow> int \<times> int" where
  "effective_limits c cfg =
     (if cl_download_limit c > 0 \<and> cl_upload_limit c > 0
      then (cl_download_limit c, cl_upload_limit c)
      else (download_limit cfg, upload_limit cfg))"

definition iptables_fw_authenticate :: "env \<Rightarrow> t_client \<Rightarrow> nds \<Rightarrow> int \<times> nds" where
  "iptables_fw_authenticate env c s =
     (let cfg = config s; (dl, ul) = effective_limits c cfg;
          (rc, s) = iptables_all env (client_rules ''-A'' c s) 0 s
      in if traffic_control cfg \<noteq> 0 then
           (let (r, s) = tc_attach_client env (show_str (gw_interface cfg)) dl (upload_ifbname cfg) ul
                (cl_id c) (cl_ip c) s
            in (rc OR r, s))
         else (rc, s))"

definition iptables_fw_deauthenticate :: "env \<Rightarrow> t_client \<Rightarrow> nds \<Rightarrow> int \<times> nds" where
  "iptables_fw_deauthenticate env c s =
     (let cfg = config s; (dl, ul) = effective_limits c cfg;
          (rc, s) = iptables_all env (client_rules ''-D'' c s) 0 s
      in if traffic_control cfg \<noteq> 0 then
           (let (r, s) = tc_detach_client env (show_str (gw_interface cfg)) dl (upload_ifbname cfg) ul
                (cl_id c) s
            in (rc OR r, s))
         else (rc, s))"

section \<open>Counters\<close>

text \<open>\<open>while (('\n' != fgetc(f)) && !feof(f)) {}\<close>: \<^const>\<open>None\<close> when the end of the file was met.\<close>

fun eat_line :: "string \<Rightarrow> string option" where
  "eat_line [] = None"
| "eat_line (c # s) = (if c = NL then Some s else eat_line s)"

lemma eat_line_shorter: "eat_line s = Some r \<Longrightarrow> length r < length s"
  by (induction s) (auto split: if_splits)

text \<open>The formats of the two listings.\<close>

definition ip_char :: "char \<Rightarrow> bool" where
  "ip_char c \<longleftrightarrow> isdigit c \<or> c = CHR ''.''"

definition outgoing_format :: "directive list" where
  "outgoing_format = [FSkipWord, FSpace, FULongLong, FSpace, FWord, FSpace, FSkipWord, FSpace, FSkipWord,
     FSpace, FSkipWord, FSpace, FSkipWord, FSpace, FSet 15 ip_char]"

definition incoming_format :: "directive list" where
  "incoming_format = [FSkipWord, FSpace, FULongLong, FSpace, FWord, FSpace, FSkipWord, FSpace, FSkipWord,
     FSpace, FSkipWord, FSpace, FSkipWord, FSpace, FSkipWord, FSpace, FSet 15 ip_char]"

text \<open>The counter, target and address of one line, if all three were read.\<close>

definition scan_counter :: "directive list \<Rightarrow> string \<Rightarrow> (64 word \<times> string \<times> string) option \<times> string" where
  "scan_counter fmt s =
     (case scanf fmt s of
        (rc, [cnt, tgt, ip], rest) \<Rightarrow>
          (if rc = 3 then Some (of_int (scan_int cnt), scan_str tgt, scan_str ip) else None, rest)
      | (rc, _, rest) \<Rightarrow> (None, rest))"

lemma scan_counter_rest: "scan_counter fmt s = (v, r) \<Longrightarrow> length r \<le> length s"
  using scanf_from_rest [of fmt "[]" s]
  by (auto simp: scan_counter_def scanf_def split: prod.splits list.splits)

definition popen_read :: "env \<Rightarrow> string \<Rightarrow> nds \<Rightarrow> string option \<times> nds" where
  "popen_read env cmd s =
     (case popen env cmd s of ((rc, out), s') \<Rightarrow> (if rc = -1 then None else Some out, s'))"

definition skip_two_lines :: "string \<Rightarrow> string option" where
  "skip_two_lines out = (case eat_line out of None \<Rightarrow> None | Some r \<Rightarrow> eat_line r)"

text \<open>
  The loop over a listing. \<open>upd\<close> is what is done for a line with the wanted target and a valid IPv4
  address; with \<open>ip6\<close> set the address is checked as IPv6, which a string of digits and dots never is.
\<close>

function counters_loop ::
  "directive list \<Rightarrow> string \<Rightarrow> (string \<Rightarrow> 64 word \<Rightarrow> nds \<Rightarrow> nds) \<Rightarrow> string \<Rightarrow> nds \<Rightarrow> nds" where
  "counters_loop fmt tgt upd stream s =
     (let (v, rest) = scan_counter fmt stream;
          s' = (case v of
                  None \<Rightarrow> s
                | Some (cnt, t, ip) \<Rightarrow>
                    if t = tgt \<and> ip6 (config s) = 0 \<and> inet_pton4 ip then upd ip cnt s else s)
      in case eat_line rest of None \<Rightarrow> s' | Some rest' \<Rightarrow> counters_loop fmt tgt upd rest' s')"
  by pat_completeness auto
termination
  by (relation "measure (\<lambda>(fmt, tgt, upd, stream, s). length stream)")
    (auto dest!: eat_line_shorter scan_counter_rest [OF sym])

declare counters_loop.simps [simp del]

definition update_outgoing :: "env \<Rightarrow> string \<Rightarrow> 64 word \<Rightarrow> nds \<Rightarrow> nds" where
  "update_outgoing env ip counter s =
     (case client_list_find_by_ip ip s of
        None \<Rightarrow> s
      | Some a \<Rightarrow> (case client_at s a of
          None \<Rightarrow> s
        | Some c \<Rightarrow>
            if outgoing (counters c) < counter then
              (case c_time env s of (now, s') \<Rightarrow>
                update_client a (\<lambda>c. c\<lparr>counters := (counters c)\<lparr>outgoing := counter, last_updated := now\<rparr>\<rparr>) s')
            else s))"

definition update_incoming :: "string \<Rightarrow> 64 word \<Rightarrow> nds \<Rightarrow> nds" where
  "update_incoming ip counter s =
     (case client_list_find_by_ip ip s of
        None \<Rightarrow> s
      | Some a \<Rightarrow> (case client_at s a of
          None \<Rightarrow> s
        | Some c \<Rightarrow>
            if incoming (counters c) < counter then
              update_client a (\<lambda>c. c\<lparr>counters := (counters c)\<lparr>incoming := counter\<rparr>\<rparr>) s
            else s))"

definition read_counters ::
  "directive list \<Rightarrow> string \<Rightarrow> (string \<Rightarrow> 64 word \<Rightarrow> nds \<Rightarrow> nds) \<Rightarrow> string \<Rightarrow> nds \<Rightarrow> nds" where
  "read_counters fmt tgt upd out s =
     (case skip_two_lines out of None \<Rightarrow> s | Some stream \<Rightarrow> counters_loop fmt tgt upd stream s)"

definition iptables_fw_counters_update :: "env \<Rightarrow> nds \<Rightarrow> int \<times> nds" where
  "iptables_fw_counters_update env s =
     (case popen_read env ''iptables -v -n -x -t mangle -L ndsOUT'' s of
        (None, s) \<Rightarrow> (-1, s)
      | (Some out, s) \<Rightarrow>
          (let s = read_counters outgoing_format ''MARK'' (update_outgoing env) out s in
           case popen_read env ''iptables -v -n -x -t mangle -L ndsINC'' s of
             (None, s) \<Rightarrow> (-1, s)
           | (Some out, s) \<Rightarrow> (0, read_counters incoming_format ''ACCEPT'' update_incoming out s)))"

text \<open>\<open>iptables_fw_total_upload\<close> and \<open>iptables_fw_total_download\<close>: the counter of a chain's jump rule.\<close>

function total_loop :: "directive list \<Rightarrow> string \<Rightarrow> string \<Rightarrow> 64 word" where
  "total_loop fmt chain stream =
     (case scanf fmt stream of (rc, vs, rest) \<Rightarrow>
       if rc = 2 \<and> length vs = 2 \<and> scan_str (vs ! 1) = chain then of_int (scan_int (vs ! 0))
       else case eat_line rest of None \<Rightarrow> 0 | Some rest' \<Rightarrow> total_loop fmt chain rest')"
  by pat_completeness auto
termination
  by (relation "measure (\<lambda>(fmt, chain, stream). length stream)")
    (auto simp: scanf_def dest!: eat_line_shorter scanf_from_rest [OF sym])

declare total_loop.simps [simp del]

definition fw_total :: "env \<Rightarrow> string \<Rightarrow> directive list \<Rightarrow> string \<Rightarrow> nds \<Rightarrow> 64 word \<times> nds" where
  "fw_total env script fmt chain s =
     (case popen_read env script s of
        (None, s) \<Rightarrow> (0, s)
      | (Some out, s) \<Rightarrow>
          (case skip_two_lines out of None \<Rightarrow> (0, s) | Some stream \<Rightarrow> (total_loop fmt chain stream, s)))"

definition iptables_fw_total_upload :: "env \<Rightarrow> nds \<Rightarrow> 64 word \<times> nds" where
  "iptables_fw_total_upload env s =
     fw_total env ''iptables -v -n -x -t mangle -L PREROUTING''
       [FSkipInt, FSpace, FULongLong, FSpace, FWord, FSpace] ''ndsOUT'' s"

definition iptables_fw_total_download :: "env \<Rightarrow> nds \<Rightarrow> 64 word \<times> nds" where
  "iptables_fw_total_download env s =
     fw_total env ''iptables -v -n -x -t mangle -L POSTROUTING''
       [FSkipWord, FSpace, FULongLong, FSpace, FWord, FSpace] ''ndsINC'' s"

section \<open>Setting up\<close>

definition lits :: "string \<Rightarrow> directive list" where
  "lits s = map (\<lambda>c. if isspace c then FSpace else FLit c) s"

definition get_iptables_version :: "env \<Rightarrow> nds \<Rightarrow> int \<times> nds" where
  "get_iptables_version env s =
     (case execute_ret env 256 ''iptables -V'' s of ((rc, buf), s) \<Rightarrow>
       (case scanf (lits ''iptables v'' @ [FInt, FLit (CHR ''.''), FInt, FLit (CHR ''.''), FInt]) buf of
          (n, vs, _) \<Rightarrow>
            if rc = 0 \<and> n = 3
            then (to_int32 (scan_int (vs ! 0) * 10000 + scan_int (vs ! 1) * 100 + scan_int (vs ! 2)), s)
            else (-1, s)))"

abbreviation (input) MIN_IPTABLES_VERSION :: int where
  "MIN_IPTABLES_VERSION \<equiv> 1 * 10000 + 4 * 100 + 17"

text \<open>A rule that matches a mark.\<close>

definition mark_rule :: "string \<Rightarrow> string \<Rightarrow> 32 word \<Rightarrow> nds \<Rightarrow> string \<Rightarrow> string" where
  "mark_rule table chain mark s verdict =
     ''-t '' @ table @ '' -A '' @ chain @ '' -m mark --mark 0x'' @ show_hex mark @ markmask s @ '' -j '' @ verdict"

definition mangle_cmds :: "nds \<Rightarrow> string list" where
  "mangle_cmds s =
     (let i = show_str (gw_interface (config s)); r = gw_iprange (config s) in
      [''-t mangle -N ndsTRU'', ''-t mangle -N ndsBLK'', ''-t mangle -N ndsALW'', ''-t mangle -N ndsINC'',
       ''-t mangle -N ndsOUT'',
       ''-t mangle -I PREROUTING 1 -i '' @ i @ '' -s '' @ r @ '' -j ndsOUT'',
       ''-t mangle -I PREROUTING 2 -i '' @ i @ '' -s '' @ r @ '' -j ndsBLK'',
       ''-t mangle -I PREROUTING 3 -i '' @ i @ '' -s '' @ r @ '' -j ndsTRU'',
       ''-t mangle -I POSTROUTING 1 -o '' @ i @ '' -d '' @ r @ '' -j ndsINC'']
      @ map (\<lambda>m. trust_mac_cmd ''-A'' m s) (trustedmaclist (config s)))"

definition mac_mechanism_cmds :: "nds \<Rightarrow> string list option" where
  "mac_mechanism_cmds s =
     (if macmechanism (config s) = MAC_BLOCK then
        Some (map (\<lambda>m. block_mac_cmd ''-A'' m s) (blockedmaclist (config s)))
      else if macmechanism (config s) = MAC_ALLOW then
        Some ((''-t mangle -A ndsBLK -j MARK '' @ markop s @ '' 0x'' @ show_hex (FW_MARK_BLOCKED s))
              # map (\<lambda>m. allow_mac_cmd ''-I'' m s) (allowedmaclist (config s)))
      else None)"

definition nat_cmds :: "nds \<Rightarrow> string list" where
  "nat_cmds s =
     (let cfg = config s; i = show_str (gw_interface cfg); r = gw_iprange cfg in
      [''-t nat -N ndsOUT'',
       ''-t nat -I PREROUTING -i '' @ i @ '' -s '' @ r @ '' -j ndsOUT'',
       mark_rule ''nat'' ''ndsOUT'' (FW_MARK_TRUSTED s) s ''RETURN'',
       mark_rule ''nat'' ''ndsOUT'' (FW_MARK_AUTHENTICATED s) s ''RETURN'']
      @ append_ruleset_cmds cfg ''nat'' ''preauthenticated-users'' ''ndsOUT''
      @ [''-t nat -A ndsOUT -p tcp --dport 80 -j DNAT --to-destination '' @ show_str (gw_address cfg),
         ''-t nat -A ndsOUT -j ACCEPT''])"

text \<open>
  Packets with a mark, by a rule set: its empty-rule-set policy, or a chain of its own that accepts
  established connections, tries the rules and rejects the rest.
\<close>

definition ruleset_chain_cmds ::
  "nds \<Rightarrow> string \<Rightarrow> 32 word \<Rightarrow> string \<Rightarrow> string \<Rightarrow> string \<Rightarrow> string list" where
  "ruleset_chain_cmds s chain mark ruleset own icmp_type =
     (if is_empty_ruleset (config s) ruleset then
        [mark_rule ''filter'' chain mark s (show_str (get_empty_ruleset_policy (config s) ruleset))]
      else
        [mark_rule ''filter'' chain mark s own,
         ''-t filter -A '' @ own @ '' -m conntrack --ctstate RELATED,ESTABLISHED -j ACCEPT'']
        @ append_ruleset_cmds (config s) ''filter'' ruleset own
        @ [''-t filter -A '' @ own @ '' -j REJECT --reject-with '' @ icmp_type @ ''-port-unreachable''])"

definition filter_input_cmds :: "nds \<Rightarrow> string \<Rightarrow> string list" where
  "filter_input_cmds s icmp_type =
     (let cfg = config s in
      [''-t filter -N ndsNET'', ''-t filter -N ndsRTR'', ''-t filter -N ndsAUT'', ''-t filter -N ndsTRU'',
       ''-t filter -N ndsTRT'',
       ''-t filter -I INPUT -i '' @ show_str (gw_interface cfg) @ '' -s '' @ gw_iprange cfg @ '' -j ndsRTR'',
       mark_rule ''filter'' ''ndsRTR'' (FW_MARK_BLOCKED s) s ''DROP'',
       ''-t filter -A ndsRTR -m conntrack --ctstate INVALID -j DROP'',
       ''-t filter -A ndsRTR -m conntrack --ctstate RELATED,ESTABLISHED -j ACCEPT'',
       ''-t filter -A ndsRTR -p tcp --tcp-flags SYN SYN '' @ [CHR 0x5C] @ ''! --tcp-option 2 -j DROP'',
       ''-t filter -A ndsRTR -p tcp --dport '' @ show_int (to_int32 (uint (gw_port cfg))) @ '' -j ACCEPT'']
      @ ruleset_chain_cmds s ''ndsRTR'' (FW_MARK_TRUSTED s) ''trusted-users-to-router'' ''ndsTRT'' icmp_type
      @ (if is_empty_ruleset cfg ''users-to-router'' then
           [''-t filter -A ndsRTR -j '' @ show_str (get_empty_ruleset_policy cfg ''users-to-router'')]
         else append_ruleset_cmds cfg ''filter'' ''users-to-router'' ''ndsRTR''
           @ [''-t filter -A ndsRTR -j REJECT --reject-with '' @ icmp_type @ ''-port-unreachable'']))"

definition filter_forward_cmds :: "nds \<Rightarrow> string \<Rightarrow> string list" where
  "filter_forward_cmds s icmp_type =
     (let cfg = config s in
      [''-t filter -I FORWARD -i '' @ show_str (gw_interface cfg) @ '' -s '' @ gw_iprange cfg @ '' -j ndsNET'',
       mark_rule ''filter'' ''ndsNET'' (FW_MARK_BLOCKED s) s ''DROP'',
       ''-t filter -A ndsNET -m conntrack --ctstate INVALID -j DROP'']
      @ (if set_mss cfg \<noteq> 0 then
           (if mss_value cfg > 0 then
              [''-t filter -A ndsNET -p tcp --tcp-flags SYN,RST SYN -j TCPMSS --set-mss '' @ show_int (mss_value cfg)]
            else [''-t filter -A ndsNET -p tcp --tcp-flags SYN,RST SYN -j TCPMSS --clamp-mss-to-pmtu''])
         else [])
      @ ruleset_chain_cmds s ''ndsNET'' (FW_MARK_TRUSTED s) ''trusted-users'' ''ndsTRU'' icmp_type
      @ ruleset_chain_cmds s ''ndsNET'' (FW_MARK_AUTHENTICATED s) ''authenticated-users'' ''ndsAUT'' icmp_type
      @ (if is_empty_ruleset cfg ''preauthenticated-users'' then
           [''-t filter -A ndsNET -j '' @ show_str (get_empty_ruleset_policy cfg ''preauthenticated-users'') @ '' '']
         else append_ruleset_cmds cfg ''filter'' ''preauthenticated-users'' ''ndsNET'')
      @ [''-t filter -A ndsNET -j REJECT --reject-with '' @ icmp_type @ ''-port-unreachable''])"

text \<open>
  \<open>iptables_fw_init\<close>. \<^const>\<open>None\<close> is the \<open>exit(1)\<close> of \<open>safe_strdup(NULL)\<close> when the interface, the gateway
  address or, without IPv6, the gateway IP is not set.
\<close>

definition iptables_fw_init :: "env \<Rightarrow> nds \<Rightarrow> (int \<times> nds) option" where
  "iptables_fw_init env s =
     (if gw_interface (config s) = None \<or> (gw_ip (config s) = None \<and> ip6 (config s) = 0)
         \<or> gw_address (config s) = None then None
      else
        let cfg = config s;
            icmp_type = (if ip6 cfg \<noteq> 0 then ''icmp6'' else ''icmp'');
            s = s\<lparr>FW_MARK_BLOCKED := fw_mark_blocked cfg, FW_MARK_TRUSTED := fw_mark_trusted cfg,
                  FW_MARK_AUTHENTICATED := fw_mark_authenticated cfg\<rparr>;
            (version, s) = get_iptables_version env s
        in if version < 0 then Some (-1, s)
           else if version < MIN_IPTABLES_VERSION then Some (-1, s)
           else
             let (rc, s) = iptables_init_marks s;
                 (r, s) = iptables_check_mark_masking env s;
                 (rc, s) = iptables_all env (mangle_cmds s) (rc OR r) s;
                 (rc, s) = (case mac_mechanism_cmds s of
                              None \<Rightarrow> (-1, s) | Some cmds \<Rightarrow> iptables_all env cmds rc s);
                 (rc, s) = (if traffic_control cfg \<noteq> 0
                            then (case tc_init_tc env s of (r, s) \<Rightarrow> (rc OR r, s)) else (rc, s));
                 (rc, s) = (if ip6 cfg = 0 then iptables_all env (nat_cmds s) rc s else (rc, s));
                 (rc, s) = iptables_all env (filter_input_cmds s icmp_type) rc s
             in Some (iptables_all env (filter_forward_cmds s icmp_type) rc s))"

section \<open>Tearing down\<close>

text \<open>The first line of a listing that mentions the word and starts with a rule number.\<close>

function first_mention :: "string \<Rightarrow> string \<Rightarrow> string option" where
  "first_mention mention stream =
     (case fgets MAX_BUF stream of
        None \<Rightarrow> None
      | Some (line, stream') \<Rightarrow>
          (let rulenum = takeWhile isdigit (take 9 line) in
           if sublist mention line \<and> rulenum \<noteq> [] then Some rulenum
           else first_mention mention stream'))"
  by pat_completeness auto
termination
  by (relation "measure (\<lambda>(mention, stream). length stream)") (auto dest: fgets_shorter)

declare first_mention.simps [simp del]

text \<open>
  \<open>iptables_fw_destroy_mention\<close> deletes a rule that mentions the chain and calls itself until no
  listing shows one; \<^const>\<open>None\<close> is the recursion that does not end.
\<close>

partial_function (option) iptables_fw_destroy_mention ::
  "env \<Rightarrow> string \<Rightarrow> string \<Rightarrow> string \<Rightarrow> nds \<Rightarrow> (int \<times> nds) option" where
  "iptables_fw_destroy_mention env table chain mention s =
     (let cmd = (if ip6 (config s) \<noteq> 0 then ''ip6tables'' else ''iptables'') @ '' -t '' @ table @ '' -L '' @ chain
            @ '' -n --line-numbers -v'';
          (out, s1) = popen_read env cmd s
      in case Option.bind (Option.bind out skip_two_lines) (first_mention mention) of
           None \<Rightarrow> Some (-1, s1)
         | Some rulenum \<Rightarrow>
             (let s2 = snd (iptables_do_command env (''-t '' @ table @ '' -D '' @ chain @ '' '' @ rulenum) s1)
              in Option.bind (iptables_fw_destroy_mention env table chain mention s2)
                   (\<lambda>(_, s3). Some (0, s3))))"

definition destroy_mentions :: "env \<Rightarrow> (string \<times> string \<times> string) list \<Rightarrow> nds \<Rightarrow> nds option" where
  "destroy_mentions env ms s =
     fold (\<lambda>(table, chain, mention) r.
             Option.bind r (\<lambda>s. map_option snd (iptables_fw_destroy_mention env table chain mention s)))
       ms (Some s)"

definition flush_cmds :: "string \<Rightarrow> string list \<Rightarrow> string list" where
  "flush_cmds table cs =
     map (\<lambda>c. ''-t '' @ table @ '' -F '' @ c) cs @ map (\<lambda>c. ''-t '' @ table @ '' -X '' @ c) cs"

definition iptables_fw_destroy :: "env \<Rightarrow> nds \<Rightarrow> nds option" where
  "iptables_fw_destroy env s =
     do {
       let s = s\<lparr>fw_quiet := True\<rparr>;
       let s = (if traffic_control (config s) \<noteq> 0 then snd (tc_destroy_tc env s) else s);
       s \<leftarrow> destroy_mentions env [(''mangle'', ''PREROUTING'', ''ndsTRU''), (''mangle'', ''PREROUTING'', ''ndsBLK''),
              (''mangle'', ''PREROUTING'', ''ndsALW''), (''mangle'', ''PREROUTING'', ''ndsOUT''),
              (''mangle'', ''POSTROUTING'', ''ndsINC'')] s;
       let s = snd (iptables_all env
              (flush_cmds ''mangle'' [''ndsTRU'', ''ndsBLK'', ''ndsALW'', ''ndsOUT'', ''ndsINC'']) 0 s);
       s \<leftarrow> (if ip6 (config s) = 0 then
               do { s \<leftarrow> destroy_mentions env [(''nat'', ''PREROUTING'', ''ndsOUT'')] s;
                    Some (snd (iptables_all env (flush_cmds ''nat'' [''ndsOUT'']) 0 s)) }
             else Some s);
       s \<leftarrow> destroy_mentions env [(''filter'', ''INPUT'', ''ndsRTR''), (''filter'', ''FORWARD'', ''ndsNET'')] s;
       let s = snd (iptables_all env
              (flush_cmds ''filter'' [''ndsRTR'', ''ndsNET'', ''ndsAUT'', ''ndsTRU'', ''ndsTRT'']) 0 s);
       Some (s\<lparr>fw_quiet := False\<rparr>)
     }"

section \<open>Lemmas: running commands\<close>

lemma do_command_loop_same: "same_but_log s (snd (do_command_loop env cmd n rc s))"
proof (induction n arbitrary: rc s)
  case (Suc n)
  obtain r s' where e: "execute env cmd s = (r, s')" by (cases "execute env cmd s")
  then have "same_but_log s s'" using execute_same [of s env cmd] by simp
  then show ?case using e same_but_log_trans [OF _ Suc.IH] by auto
qed simp

lemma iptables_do_command_same: "same_but_log s (snd (iptables_do_command env cmd s))"
  by (simp add: iptables_do_command_def do_command_loop_same)

lemma iptables_all_same: "same_but_log s (snd (iptables_all env cmds rc s))"
proof (induction cmds arbitrary: rc s)
  case (Cons cmd cmds)
  obtain r s' where e: "iptables_do_command env cmd s = (r, s')" by (cases "iptables_do_command env cmd s")
  then have "same_but_log s s'" using iptables_do_command_same [of s env cmd] by simp
  then show ?case using e same_but_log_trans [OF _ Cons.IH] by auto
qed simp

lemma mac_rules_same:
  "same_but_log s (snd (iptables_block_mac env mac s))"
  "same_but_log s (snd (iptables_unblock_mac env mac s))"
  "same_but_log s (snd (iptables_allow_mac env mac s))"
  "same_but_log s (snd (iptables_unallow_mac env mac s))"
  "same_but_log s (snd (iptables_trust_mac env mac s))"
  "same_but_log s (snd (iptables_untrust_mac env mac s))"
  by (simp_all add: iptables_block_mac_def iptables_unblock_mac_def iptables_allow_mac_def
      iptables_unallow_mac_def iptables_trust_mac_def iptables_untrust_mac_def iptables_do_command_same)

lemma fw_authenticate_same: "same_but_log s (snd (iptables_fw_authenticate env c s))"
proof -
  obtain r s1 where r: "iptables_all env (client_rules ''-A'' c s) 0 s = (r, s1)"
    by (cases "iptables_all env (client_rules ''-A'' c s) 0 s")
  then have "same_but_log s s1" using iptables_all_same [of s env "client_rules ''-A'' c s" 0] by simp
  then show ?thesis
    using same_but_log_trans [OF _ tc_attach_client_same]
    by (simp add: iptables_fw_authenticate_def r Let_def case_prod_beta)
qed

lemma fw_deauthenticate_same: "same_but_log s (snd (iptables_fw_deauthenticate env c s))"
proof -
  obtain r s1 where r: "iptables_all env (client_rules ''-D'' c s) 0 s = (r, s1)"
    by (cases "iptables_all env (client_rules ''-D'' c s) 0 s")
  then have "same_but_log s s1" using iptables_all_same [of s env "client_rules ''-D'' c s" 0] by simp
  then show ?thesis
    using same_but_log_trans [OF _ tc_detach_client_same]
    by (simp add: iptables_fw_deauthenticate_def r Let_def case_prod_beta)
qed

text \<open>The log after one command, whatever it answers: the command once to five times.\<close>

lemma execute_log:
  "length cmd < QUERYMAXLEN \<Longrightarrow>
   cmd_log (snd (execute env cmd s)) = cmd_log s @ [(cmd, fst (execute env cmd s))]"
  by (simp add: execute_def popen_def split: option.split prod.split)

lemma do_command_loop_long:
  "QUERYMAXLEN \<le> length cmd \<Longrightarrow> 0 < n \<Longrightarrow> do_command_loop env cmd n rc s = (-1, s)"
  by (cases n) (simp_all add: execute_def)

lemma do_command_loop_log:
  assumes "length cmd < QUERYMAXLEN" and "0 < n"
  shows "\<exists>k < n. cmd_log (snd (do_command_loop env cmd n rc s))
      = cmd_log s @ replicate k (cmd, 4) @ [(cmd, fst (do_command_loop env cmd n rc s))]
    \<and> (fst (do_command_loop env cmd n rc s) = 4 \<longrightarrow> Suc k = n)"
  using assms(2)
proof (induction n arbitrary: rc s)
  case (Suc n)
  obtain r s' where e: "execute env cmd s = (r, s')" by (cases "execute env cmd s")
  then have l: "cmd_log s' = cmd_log s @ [(cmd, r)]"
    using execute_log [OF assms(1), of env s] by simp
  show ?case
  proof (cases "r = 4 \<and> 0 < n")
    case True
    then obtain k where "k < n" "cmd_log (snd (do_command_loop env cmd n r s'))
        = cmd_log s' @ replicate k (cmd, 4) @ [(cmd, fst (do_command_loop env cmd n r s'))]"
      "fst (do_command_loop env cmd n r s') = 4 \<longrightarrow> Suc k = n"
      using Suc.IH [of r s'] by blast
    then show ?thesis using True e l by (intro exI [of _ "Suc k"]) simp
  next
    case False
    then show ?thesis using e l by (intro exI [of _ 0]) auto
  qed
qed simp

section \<open>Lemmas: when every command succeeds\<close>

text \<open>The hypothesis on the surroundings: every command exits with status 0.\<close>

definition shell_ok :: "env \<Rightarrow> bool" where
  "shell_ok env \<longleftrightarrow> (\<forall>log cmd. \<exists>out. sh env log cmd = Some (0, out))"

lemma execute_ok:
  assumes "shell_ok env" and "length cmd < QUERYMAXLEN"
  shows "execute env cmd s = (0, s\<lparr>cmd_log := cmd_log s @ [(cmd, 0)]\<rparr>)"
proof -
  obtain out where "sh env (cmd_log s) cmd = Some (0, out)" using assms(1) by (auto simp: shell_ok_def)
  then show ?thesis using assms(2) by (simp add: execute_def popen_def WEXITSTATUS_def)
qed

lemma iptables_do_command_ok:
  assumes "shell_ok env" and "length (iptables_cmdline s cmd) < QUERYMAXLEN"
  shows "iptables_do_command env cmd s = (0, s\<lparr>cmd_log := cmd_log s @ [(iptables_cmdline s cmd, 0)]\<rparr>)"
proof -
  have "do_command_loop env (iptables_cmdline s cmd) (Suc 4) 0 s
      = (0, s\<lparr>cmd_log := cmd_log s @ [(iptables_cmdline s cmd, 0)]\<rparr>)"
    unfolding do_command_loop.simps(2) by (simp add: execute_ok [OF assms])
  moreover have "(5::nat) = Suc 4" by simp
  ultimately show ?thesis by (simp only: iptables_do_command_def)
qed

lemma iptables_cmdline_log [simp]: "iptables_cmdline (s\<lparr>cmd_log := l\<rparr>) c = iptables_cmdline s c"
  by (simp add: iptables_cmdline_def)

lemma iptables_all_ok:
  assumes "shell_ok env" and "list_all (\<lambda>c. length (iptables_cmdline s c) < QUERYMAXLEN) cmds"
  shows "iptables_all env cmds 0 s =
    (0, s\<lparr>cmd_log := cmd_log s @ map (\<lambda>c. (iptables_cmdline s c, 0)) cmds\<rparr>)"
  using assms(2)
proof (induction cmds arbitrary: s)
  case (Cons c cmds)
  then show ?case
    using Cons.IH [of "s\<lparr>cmd_log := cmd_log s @ [(iptables_cmdline s c, 0)]\<rparr>"]
    by (simp add: iptables_do_command_ok [OF assms(1)])
qed simp

section \<open>Properties\<close>

text \<open>C39. \<open>iptables_do_command\<close> with a command line shorter than the buffer of \<open>QUERYMAXLEN\<close> bytes makes at least one and
  at most five attempts to run it, in a row; every attempt but the last ended with exit code 4, the value returned is that
  of the last attempt, and 4 is returned only after all five attempts. A command line that does not fit the buffer
  is not run at all, and -1 is returned.\<close>

theorem iptables_do_command_retries:
  "(length (iptables_cmdline s cmd) < QUERYMAXLEN \<longrightarrow>
     (\<exists>k < 5. cmd_log (snd (iptables_do_command env cmd s))
        = cmd_log s @ replicate k (iptables_cmdline s cmd, 4)
          @ [(iptables_cmdline s cmd, fst (iptables_do_command env cmd s))]
      \<and> (fst (iptables_do_command env cmd s) = 4 \<longrightarrow> k = 4)))
   \<and> (QUERYMAXLEN \<le> length (iptables_cmdline s cmd) \<longrightarrow> iptables_do_command env cmd s = (-1, s))"
  using do_command_loop_log [of "iptables_cmdline s cmd" 5 env 0 s] do_command_loop_long [of "iptables_cmdline s cmd" 5 env 0 s]
  by (auto simp: iptables_do_command_def)

text \<open>iptables finds its lock taken, and exits with 4, in the first two attempts.\<close>

definition busy_env :: env where
  "busy_env = sample_env\<lparr>sh := (\<lambda>log cmd. Some (if length log < 2 then 4 * 256 else 0, []))\<rparr>"

theorem iptables_do_command_retries_witness:
  "cmd_log (snd (iptables_do_command busy_env ''-t mangle -N ndsOUT'' (nds_start config_init)))
      = replicate 2 (''iptables --wait -t mangle -N ndsOUT'', 4) @ [(''iptables --wait -t mangle -N ndsOUT'', 0)]
   \<and> iptables_do_command busy_env (replicate QUERYMAXLEN (CHR ''x'')) (nds_start config_init) = (-1, nds_start config_init)"
proof -
  have "iptables_cmdline (nds_start config_init) ''-t mangle -N ndsOUT'' = ''iptables --wait -t mangle -N ndsOUT''"
    "fst (iptables_do_command busy_env ''-t mangle -N ndsOUT'' (nds_start config_init)) = 0"
    "cmd_log (nds_start config_init) = []"
    "length (cmd_log (snd (iptables_do_command busy_env ''-t mangle -N ndsOUT'' (nds_start config_init)))) = 3"
    by code_simp+
  moreover have "QUERYMAXLEN \<le> length (iptables_cmdline (nds_start config_init) (replicate QUERYMAXLEN (CHR ''x'')))"
    by (simp add: iptables_cmdline_def)
  ultimately show ?thesis
    using iptables_do_command_retries [of "nds_start config_init" "''-t mangle -N ndsOUT''" busy_env]
      iptables_do_command_retries [of "nds_start config_init" "replicate QUERYMAXLEN (CHR ''x'')" busy_env]
    by auto
qed

end
