(* ===== verification/Auth.thy ===== *)
theory Auth
  imports Fw_Iptables
begin

text \<open>
  \<open>src/auth.c\<close>: the state changes of a client, the periodic check for ended sessions, and the operations
  on the MAC lists together with their firewall rules. The two loops that walk the client list while
  clients are deleted from it share the contract \<open>client_visit\<close>, in which both are shown to end without
  following a pointer to a freed node. The last part relates the mangle rules that were inserted and
  not deleted to the clients in state Authenticated.
\<close>

section \<open>State changes\<close>

definition binauth_action :: "env \<Rightarrow> t_client \<Rightarrow> string option \<Rightarrow> nds \<Rightarrow> nds" where
  "binauth_action env c reason s =
     (case binauth (config s) of
        None \<Rightarrow> s
      | Some prog \<Rightarrow>
          snd (execute env (prog @ '' '' @ (case reason of None \<Rightarrow> ''unknown'' | Some r \<Rightarrow> r)
             @ '' '' @ cl_mac c @ '' '' @ show_word (incoming (counters c))
             @ '' '' @ show_word (outgoing (counters c))
             @ '' '' @ show_word (of_int (session_start c) :: 64 word)
             @ '' '' @ show_word (of_int (session_end c) :: 64 word)) s))"

text \<open>
  The operations on the MAC lists: the configuration first, then the firewall rule, which is only
  tried when the list was changed.
\<close>

definition change_mac_list ::
  "(string \<Rightarrow> s_config \<Rightarrow> int \<times> s_config) \<Rightarrow> (env \<Rightarrow> string \<Rightarrow> nds \<Rightarrow> int \<times> nds) \<Rightarrow> env \<Rightarrow> string \<Rightarrow> nds
     \<Rightarrow> int \<times> nds" where
  "change_mac_list upd fw env mac s =
     (case upd mac (config s) of (r, cfg) \<Rightarrow>
       if r = 0 then
         (case fw env mac (s\<lparr>config := cfg\<rparr>) of (r', s') \<Rightarrow> (if r' = 0 then 0 else -1, s'))
       else (-1, s\<lparr>config := cfg\<rparr>))"

definition auth_client_trust :: "env \<Rightarrow> string \<Rightarrow> nds \<Rightarrow> int \<times> nds" where
  "auth_client_trust = change_mac_list add_to_trusted_mac_list iptables_trust_mac"

definition auth_client_untrust :: "env \<Rightarrow> string \<Rightarrow> nds \<Rightarrow> int \<times> nds" where
  "auth_client_untrust = change_mac_list remove_from_trusted_mac_list iptables_untrust_mac"

definition auth_client_allow :: "env \<Rightarrow> string \<Rightarrow> nds \<Rightarrow> int \<times> nds" where
  "auth_client_allow = change_mac_list add_to_allowed_mac_list iptables_allow_mac"

definition auth_client_unallow :: "env \<Rightarrow> string \<Rightarrow> nds \<Rightarrow> int \<times> nds" where
  "auth_client_unallow = change_mac_list remove_from_allowed_mac_list iptables_unallow_mac"

definition auth_client_block :: "env \<Rightarrow> string \<Rightarrow> nds \<Rightarrow> int \<times> nds" where
  "auth_client_block = change_mac_list add_to_blocked_mac_list iptables_block_mac"

definition auth_client_unblock :: "env \<Rightarrow> string \<Rightarrow> nds \<Rightarrow> int \<times> nds" where
  "auth_client_unblock = change_mac_list remove_from_blocked_mac_list iptables_unblock_mac"

text \<open>
  \<open>auth_change_state\<close> on the client at address \<open>a\<close>. The return values of the firewall functions are not
  used. The branches of the source that only return \<open>-1\<close> are the last ones of each level. A pointer
  that is not on the list does not occur and gives \<open>-1\<close>.
\<close>

definition auth_change_state :: "env \<Rightarrow> addr \<Rightarrow> 32 word \<Rightarrow> string option \<Rightarrow> nds \<Rightarrow> int \<times> nds" where
  "auth_change_state env a new_state reason s =
     (case client_at s a of
        None \<Rightarrow> (-1, s)
      | Some c \<Rightarrow>
          (let state = fw_connection_state c;
               set_state = update_client a (\<lambda>c. c\<lparr>fw_connection_state := new_state\<rparr>)
           in
           if state = new_state then (-1, s)
           else if state = FW_MARK_PREAUTHENTICATED s then
             if new_state = FW_MARK_AUTHENTICATED s then
               (let s = snd (iptables_fw_authenticate env c s);
                    s = binauth_action env c reason s
                in (0, set_state s))
             else (-1, s)
           else if state = FW_MARK_AUTHENTICATED s then
             if new_state = FW_MARK_PREAUTHENTICATED s then
               (let s = snd (iptables_fw_deauthenticate env c s);
                    s = binauth_action env c reason s;
                    s = client_reset env a s
                in (0, set_state s))
             else if new_state = FW_MARK_BLOCKED s then
               (let s = snd (iptables_fw_deauthenticate env c s);
                    s = binauth_action env c reason s;
                    s = snd (auth_client_block env (cl_mac c) s)
                in (0, client_list_delete a s))
             else (-1, s)
           else (-1, s)))"

section \<open>Walking the list\<close>

text \<open>\<open>cp1->next\<close>\<close>

fun next_in :: "addr \<Rightarrow> (addr \<times> t_client) list \<Rightarrow> addr option" where
  "next_in a [] = None"
| "next_in a ((b, _) # xs) =
     (if b = a then (case xs of [] \<Rightarrow> None | (d, _) # _ \<Rightarrow> Some d) else next_in a xs)"

text \<open>
  \<open>for (cp1 = cp2 = first; NULL != cp1; cp1 = cp2) { cp2 = cp1->next; .. }\<close>: the successor is read
  first, then the client is looked up again by its id and visited. \<^const>\<open>None\<close> stands for following a
  pointer to a freed node, or for running out of fuel.
\<close>

fun client_walk :: "(addr \<Rightarrow> nds \<Rightarrow> nds) \<Rightarrow> nat \<Rightarrow> addr option \<Rightarrow> nds \<Rightarrow> nds option" where
  "client_walk visit n None s = Some s"
| "client_walk visit 0 (Some a) s = None"
| "client_walk visit (Suc n) (Some a) s =
     (case client_at s a of
        None \<Rightarrow> None
      | Some c \<Rightarrow>
          (let cp2 = next_in a (clients s) in
           case client_list_find_by_id (cl_id c) s of
             None \<Rightarrow> client_walk visit n cp2 s
           | Some b \<Rightarrow> client_walk visit n cp2 (visit b s)))"

text \<open>The body of the loop of \<open>fw_refresh_client_list\<close>.\<close>

definition refresh_client :: "env \<Rightarrow> int \<Rightarrow> addr \<Rightarrow> nds \<Rightarrow> nds" where
  "refresh_client env now a s =
     (case client_at s a of
        None \<Rightarrow> s
      | Some c \<Rightarrow>
          (let cfg = config s;
               preauth_idle_timeout_secs = to_int32 (60 * preauth_idle_timeout cfg);
               auth_idle_timeout_secs = to_int32 (60 * auth_idle_timeout cfg);
               conn_state = fw_connection_state c;
               updated = last_updated (counters c)
           in
           if session_end c > 0 \<and> session_end c \<le> now then
             (if session_timeout_block cfg > 0
              then snd (auth_change_state env a (FW_MARK_BLOCKED s) (Some ''timeout_deauth_block'') s)
              else snd (auth_change_state env a (FW_MARK_PREAUTHENTICATED s) (Some ''timeout_deauth'') s))
           else if session_limit_block cfg > 0
               \<and> incoming (counters c) div 1000 > of_int (to_int32 (session_limit_block cfg * 1000)) then
             snd (auth_change_state env a (FW_MARK_BLOCKED s) (Some ''limitout_deauth_block'') s)
           else if preauth_idle_timeout_secs > 0 \<and> conn_state = FW_MARK_PREAUTHENTICATED s
               \<and> updated + preauth_idle_timeout_secs \<le> now then
             client_list_delete a s
           else if auth_idle_timeout_secs > 0 \<and> conn_state = FW_MARK_AUTHENTICATED s
               \<and> updated + auth_idle_timeout_secs \<le> now then
             snd (auth_change_state env a (FW_MARK_PREAUTHENTICATED s) (Some ''idle_deauth'') s)
           else s))"

definition fw_refresh_client_list :: "env \<Rightarrow> nds \<Rightarrow> nds option" where
  "fw_refresh_client_list env s =
     (case c_time env s of (now, s) \<Rightarrow>
       (case iptables_fw_counters_update env s of (rc, s) \<Rightarrow>
          if rc = -1 then Some s
          else client_walk (refresh_client env now) (Suc (length (clients s))) (client_get_first_client s) s))"

text \<open>One turn of the thread: the refresh and the time it sleeps until.\<close>

definition thread_client_timeout_check :: "env \<Rightarrow> nds \<Rightarrow> (int \<times> nds) option" where
  "thread_client_timeout_check env s =
     map_option (\<lambda>s. case c_time env s of (now, s) \<Rightarrow> (now + checkinterval (config s), s))
       (fw_refresh_client_list env s)"

definition shutdown_client :: "env \<Rightarrow> addr \<Rightarrow> nds \<Rightarrow> nds" where
  "shutdown_client env a s =
     snd (auth_change_state env a (FW_MARK_PREAUTHENTICATED s) (Some ''shutdown_deauth'') s)"

definition auth_client_deauth_all :: "env \<Rightarrow> nds \<Rightarrow> nds option" where
  "auth_client_deauth_all env s =
     client_walk (shutdown_client env) (Suc (length (clients s))) (client_get_first_client s) s"

section \<open>Operations by client id\<close>

definition auth_client_deauth :: "env \<Rightarrow> 32 word \<Rightarrow> string option \<Rightarrow> nds \<Rightarrow> int \<times> nds" where
  "auth_client_deauth env i reason s =
     (case client_list_find_by_id i s of
        None \<Rightarrow> (-1, s)
      | Some a \<Rightarrow> auth_change_state env a (FW_MARK_PREAUTHENTICATED s) reason s)"

definition auth_client_auth_nolock :: "env \<Rightarrow> 32 word \<Rightarrow> string option \<Rightarrow> nds \<Rightarrow> int \<times> nds" where
  "auth_client_auth_nolock env i reason s =
     (case client_list_find_by_id i s of
        None \<Rightarrow> (-1, s)
      | Some a \<Rightarrow>
          (case auth_change_state env a (FW_MARK_AUTHENTICATED s) reason s of (rc, s) \<Rightarrow>
            if rc = 0 then (rc, s\<lparr>authenticated_since_start := authenticated_since_start s + 1\<rparr>)
            else (rc, s)))"

definition auth_client_auth :: "env \<Rightarrow> 32 word \<Rightarrow> string option \<Rightarrow> nds \<Rightarrow> int \<times> nds" where
  "auth_client_auth env i reason s = auth_client_auth_nolock env i reason s"

section \<open>Frames\<close>

text \<open>
  What no operation on clients or MAC lists changes: the configuration apart from the MAC lists, and
  the globals of the firewall.
\<close>

definition core :: "s_config \<Rightarrow> s_config" where
  "core cfg = cfg\<lparr>trustedmaclist := [], blockedmaclist := [], allowedmaclist := []\<rparr>"

definition globals :: "nds \<Rightarrow> nds" where
  "globals s = s\<lparr>config := core (config s), clients := [], client_count := 0, client_id := 0, next_addr := 0,
     authenticated_since_start := 0, cmd_log := [], time_calls := 0, rand_calls := 0\<rparr>"

lemma core_fields:
  assumes "core cfg' = core cfg"
  shows "ip6 cfg' = ip6 cfg" "maxclients cfg' = maxclients cfg" "binauth cfg' = binauth cfg"
    "traffic_control cfg' = traffic_control cfg" "macmechanism cfg' = macmechanism cfg"
    "session_timeout_block cfg' = session_timeout_block cfg"
    "session_limit_block cfg' = session_limit_block cfg"
    "preauth_idle_timeout cfg' = preauth_idle_timeout cfg" "auth_idle_timeout cfg' = auth_idle_timeout cfg"
  using arg_cong [OF assms, of ip6] arg_cong [OF assms, of maxclients] arg_cong [OF assms, of binauth]
    arg_cong [OF assms, of traffic_control] arg_cong [OF assms, of macmechanism]
    arg_cong [OF assms, of session_timeout_block] arg_cong [OF assms, of session_limit_block]
    arg_cong [OF assms, of preauth_idle_timeout] arg_cong [OF assms, of auth_idle_timeout]
  by (simp_all add: core_def)

lemma globals_fields:
  assumes "globals s' = globals s"
  shows "FW_MARK_PREAUTHENTICATED s' = FW_MARK_PREAUTHENTICATED s"
    "FW_MARK_AUTHENTICATED s' = FW_MARK_AUTHENTICATED s" "FW_MARK_BLOCKED s' = FW_MARK_BLOCKED s"
    "FW_MARK_TRUSTED s' = FW_MARK_TRUSTED s" "markop s' = markop s" "fw_quiet s' = fw_quiet s"
    "core (config s') = core (config s)"
  using arg_cong [OF assms, of FW_MARK_PREAUTHENTICATED] arg_cong [OF assms, of FW_MARK_AUTHENTICATED]
    arg_cong [OF assms, of FW_MARK_BLOCKED] arg_cong [OF assms, of FW_MARK_TRUSTED]
    arg_cong [OF assms, of markop] arg_cong [OF assms, of fw_quiet] arg_cong [OF assms, of config]
  by (simp_all add: globals_def)

lemma globals_simps [simp]:
  "globals (s\<lparr>cmd_log := l\<rparr>) = globals s"
  "globals (s\<lparr>time_calls := t\<rparr>) = globals s"
  "globals (s\<lparr>rand_calls := r\<rparr>) = globals s"
  "globals (s\<lparr>clients := cs\<rparr>) = globals s"
  "globals (s\<lparr>client_count := n\<rparr>) = globals s"
  "globals (s\<lparr>client_id := i\<rparr>) = globals s"
  "globals (s\<lparr>next_addr := a\<rparr>) = globals s"
  "globals (s\<lparr>authenticated_since_start := w\<rparr>) = globals s"
  by (simp_all add: globals_def)

lemma globals_config: "core cfg = core (config s) \<Longrightarrow> globals (s\<lparr>config := cfg\<rparr>) = globals s"
  by (simp add: globals_def)

lemma globals_update_client [simp]: "globals (update_client a f s) = globals s"
  by (simp add: update_client_def)

lemma globals_delete [simp]: "globals (client_list_delete a s) = globals s"
  by (simp add: client_list_delete_def)

lemma same_but_log_globals: "same_but_log s s' \<Longrightarrow> globals s' = globals s"
  by (metis same_but_logD(1) globals_simps(1))

lemma mac_ops_core:
  "core (snd (add_to_trusted_mac_list p cfg)) = core cfg"
  "core (snd (remove_from_trusted_mac_list p cfg)) = core cfg"
  "core (snd (add_to_blocked_mac_list p cfg)) = core cfg"
  "core (snd (remove_from_blocked_mac_list p cfg)) = core cfg"
  "core (snd (add_to_allowed_mac_list p cfg)) = core cfg"
  "core (snd (remove_from_allowed_mac_list p cfg)) = core cfg"
  by (simp_all add: add_to_trusted_mac_list_def remove_from_trusted_mac_list_def
      add_to_blocked_mac_list_def remove_from_blocked_mac_list_def add_to_allowed_mac_list_def
      remove_from_allowed_mac_list_def core_def Let_def split: option.split)

lemma binauth_action_same: "same_but_log s (binauth_action env c reason s)"
  using execute_same by (simp add: binauth_action_def split: option.split)

text \<open>\<open>same_but_lists\<close>: only the command log and the MAC lists differ.\<close>

definition same_but_lists :: "nds \<Rightarrow> nds \<Rightarrow> bool" where
  "same_but_lists s s' \<longleftrightarrow> s' = s\<lparr>config := config s', cmd_log := cmd_log s'\<rparr>
     \<and> core (config s') = core (config s) \<and> prefix (cmd_log s) (cmd_log s')"

lemma same_but_log_lists: "same_but_log s s' \<Longrightarrow> same_but_lists s s'"
proof -
  assume a: "same_but_log s s'"
  have e: "s' = s\<lparr>cmd_log := cmd_log s'\<rparr>" by (rule same_but_logD(1) [OF a])
  have c: "config s' = config s" by (subst e) simp
  have "s\<lparr>config := config s\<rparr> = s" by simp
  with e c have "s' = s\<lparr>config := config s', cmd_log := cmd_log s'\<rparr>" by simp
  with c same_but_logD(2) [OF a] show ?thesis by (simp add: same_but_lists_def)
qed

lemma same_but_listsD:
  assumes "same_but_lists s s'"
  shows "s' = s\<lparr>config := config s', cmd_log := cmd_log s'\<rparr>" "core (config s') = core (config s)"
    "prefix (cmd_log s) (cmd_log s')"
  using assms by (simp_all add: same_but_lists_def)

lemma same_but_lists_frame:
  assumes "same_but_lists s s'"
  shows "globals s' = globals s" "clients s' = clients s" "same_clients s s'"
    "authenticated_since_start s' = authenticated_since_start s" "maxclients (config s') = maxclients (config s)"
proof -
  note e = same_but_listsD(1) [OF assms] and c = same_but_listsD(2) [OF assms]
  show "globals s' = globals s" by (subst e) (simp add: globals_def c)
  show "clients s' = clients s" by (subst e) simp
  show "same_clients s s'" by (subst e) (simp add: same_clients_def addrs_def keys_def ids_def)
  show "authenticated_since_start s' = authenticated_since_start s" by (subst e) simp
  show "maxclients (config s') = maxclients (config s)" by (rule core_fields(2) [OF c])
qed

lemma change_mac_list_same:
  assumes "\<And>p cfg. core (snd (upd p cfg)) = core cfg" and "\<And>s. same_but_log s (snd (fw env mac s))"
  shows "same_but_lists s (snd (change_mac_list upd fw env mac s))"
proof -
  obtain r cfg where u: "upd mac (config s) = (r, cfg)" by (cases "upd mac (config s)")
  then have c: "core cfg = core (config s)" using assms(1) [of mac "config s"] by simp
  obtain r' s' where f: "fw env mac (s\<lparr>config := cfg\<rparr>) = (r', s')"
    by (cases "fw env mac (s\<lparr>config := cfg\<rparr>)")
  then have "same_but_log (s\<lparr>config := cfg\<rparr>) s'" using assms(2) [of "s\<lparr>config := cfg\<rparr>"] by simp
  from same_but_logD [OF this] have e: "s' = s\<lparr>config := cfg, cmd_log := cmd_log s'\<rparr>"
    and p: "prefix (cmd_log s) (cmd_log s')" by simp_all
  have "config s' = cfg" by (subst e) simp
  with e p c have "same_but_lists s s'" by (simp add: same_but_lists_def)
  moreover have "same_but_lists s (s\<lparr>config := cfg\<rparr>)" by (simp add: same_but_lists_def c)
  ultimately show ?thesis by (simp add: change_mac_list_def u f)
qed

lemma auth_mac_ops_same:
  "same_but_lists s (snd (auth_client_trust env mac s))"
  "same_but_lists s (snd (auth_client_untrust env mac s))"
  "same_but_lists s (snd (auth_client_allow env mac s))"
  "same_but_lists s (snd (auth_client_unallow env mac s))"
  "same_but_lists s (snd (auth_client_block env mac s))"
  "same_but_lists s (snd (auth_client_unblock env mac s))"
  by (simp_all add: auth_client_trust_def auth_client_untrust_def auth_client_allow_def
      auth_client_unallow_def auth_client_block_def auth_client_unblock_def
      change_mac_list_same mac_ops_core mac_rules_same)

section \<open>The effect of a state change\<close>

text \<open>The commands of a state change, before the client or the MAC list is touched.\<close>

definition auth_cmds :: "env \<Rightarrow> t_client \<Rightarrow> string option \<Rightarrow> nds \<Rightarrow> nds" where
  "auth_cmds env c reason s = binauth_action env c reason (snd (iptables_fw_authenticate env c s))"

definition deauth_cmds :: "env \<Rightarrow> t_client \<Rightarrow> string option \<Rightarrow> nds \<Rightarrow> nds" where
  "deauth_cmds env c reason s = binauth_action env c reason (snd (iptables_fw_deauthenticate env c s))"

lemma auth_cmds_same: "same_but_log s (auth_cmds env c reason s)"
  "same_but_log s (deauth_cmds env c reason s)"
  unfolding auth_cmds_def deauth_cmds_def
  by (rule same_but_log_trans [OF _ binauth_action_same] fw_authenticate_same fw_deauthenticate_same)+

lemma same_but_log_client_at: "same_but_log s s' \<Longrightarrow> client_at s' a = client_at s a"
  using same_but_lists_frame(2) [OF same_but_log_lists, of s s'] by (simp add: client_at_def)

lemma auth_change_state_cases:
  obtains (refused) "auth_change_state env a new_state reason s = (-1, s)"
  | (authenticated) c where "client_at s a = Some c" "fw_connection_state c = FW_MARK_PREAUTHENTICATED s"
      "new_state = FW_MARK_AUTHENTICATED s" "FW_MARK_PREAUTHENTICATED s \<noteq> FW_MARK_AUTHENTICATED s"
      "auth_change_state env a new_state reason s
        = (0, update_client a (\<lambda>c. c\<lparr>fw_connection_state := new_state\<rparr>) (auth_cmds env c reason s))"
  | (deauthenticated) c where "client_at s a = Some c" "fw_connection_state c = FW_MARK_AUTHENTICATED s"
      "new_state = FW_MARK_PREAUTHENTICATED s" "FW_MARK_PREAUTHENTICATED s \<noteq> FW_MARK_AUTHENTICATED s"
      "auth_change_state env a new_state reason s
        = (0, update_client a (\<lambda>c. c\<lparr>fw_connection_state := new_state\<rparr>)
               (client_reset env a (deauth_cmds env c reason s)))"
  | (blocked) c where "client_at s a = Some c" "fw_connection_state c = FW_MARK_AUTHENTICATED s"
      "new_state = FW_MARK_BLOCKED s" "FW_MARK_BLOCKED s \<noteq> FW_MARK_AUTHENTICATED s"
      "FW_MARK_PREAUTHENTICATED s \<noteq> FW_MARK_AUTHENTICATED s"
      "auth_change_state env a new_state reason s
        = (0, client_list_delete a
               (snd (auth_client_block env (cl_mac c) (deauth_cmds env c reason s))))"
proof (cases "client_at s a")
  case None
  then show thesis by (intro refused) (simp add: auth_change_state_def)
next
  case (Some c)
  note d = auth_change_state_def Some Let_def auth_cmds_def deauth_cmds_def
  consider "fw_connection_state c = FW_MARK_PREAUTHENTICATED s" "fw_connection_state c \<noteq> new_state"
      "new_state = FW_MARK_AUTHENTICATED s"
    | "fw_connection_state c \<noteq> FW_MARK_PREAUTHENTICATED s" "fw_connection_state c = FW_MARK_AUTHENTICATED s"
      "new_state = FW_MARK_PREAUTHENTICATED s"
    | "fw_connection_state c \<noteq> FW_MARK_PREAUTHENTICATED s" "fw_connection_state c = FW_MARK_AUTHENTICATED s"
      "fw_connection_state c \<noteq> new_state" "new_state \<noteq> FW_MARK_PREAUTHENTICATED s" "new_state = FW_MARK_BLOCKED s"
    | "auth_change_state env a new_state reason s = (-1, s)"
    by (simp add: d) metis
  then show thesis
  proof cases
    case 1
    then show thesis using Some by (intro authenticated) (simp_all add: d)
  next
    case 2
    then show thesis using Some by (intro deauthenticated) (simp_all add: d)
  next
    case 3
    then show thesis using Some by (intro blocked) (simp_all add: d)
  next
    case 4
    then show thesis by (rule refused)
  qed
qed

text \<open>A node of the list in its place.\<close>

lemma client_at_split:
  assumes "distinct (addrs s)" and "client_at s a = Some c"
  obtains xs ys where "clients s = xs @ (a, c) # ys" "a \<notin> fst ` set xs" "a \<notin> fst ` set ys"
proof -
  from assms(2) obtain xs ys where "clients s = xs @ (a, c) # ys"
    by (meson client_at_Some split_list)
  with assms(1) that show thesis by (auto simp: addrs_def)
qed

lemma update_client_split:
  assumes "clients s = xs @ (a, c) # ys" "a \<notin> fst ` set xs" "a \<notin> fst ` set ys"
  shows "clients (update_client a f s) = xs @ (a, f c) # ys"
proof -
  have "map (\<lambda>(b, c). (b, if b = a then f c else c)) zs = zs" if "a \<notin> fst ` set zs" for zs
    using that by (induction zs) auto
  with assms show ?thesis by (simp add: update_client_def)
qed

lemma update_same_clients:
  assumes "distinct (addrs s)" and "client_at s a = Some c"
    and "cl_mac (f c) = cl_mac c" "cl_ip (f c) = cl_ip c" "cl_id (f c) = cl_id c"
  shows "same_clients s (update_client a f s)"
proof -
  obtain xs ys where cs: "clients s = xs @ (a, c) # ys" "a \<notin> fst ` set xs" "a \<notin> fst ` set ys"
    by (rule client_at_split [OF assms(1,2)])
  show ?thesis
    by (simp add: same_clients_def keys_def ids_def update_client_split [OF cs])
      (simp add: cs(1) assms)
qed

text \<open>What a client reset changes.\<close>

lemma client_reset_frame:
  "globals (client_reset env a s) = globals s"
  "cmd_log (client_reset env a s) = cmd_log s" "config (client_reset env a s) = config s"
  "authenticated_since_start (client_reset env a s) = authenticated_since_start s"
  by (cases "client_at s a"; simp add: client_reset_def reset_client_eq)+

lemma client_reset_same:
  assumes "distinct (addrs s)"
  shows "same_clients s (client_reset env a s)"
proof (cases "client_at s a")
  case None
  then show ?thesis by (simp add: client_reset_def)
next
  case (Some c)
  let ?t = "s\<lparr>time_calls := Suc (time_calls s), rand_calls := Suc (Suc (rand_calls s))\<rparr>"
  have "distinct (addrs ?t)" "client_at ?t a = Some c"
    using assms Some by (simp_all add: addrs_def client_at_def)
  then have "same_clients ?t (update_client a (\<lambda>_. fst (reset_client env c s)) ?t)"
    by (rule update_same_clients) (simp_all add: reset_client_eq)
  then show ?thesis
    unfolding client_reset_eq [OF Some] by (rule same_clients_trans [OF same_clients_ticks])
qed

lemma set_state_same:
  "same_clients s (update_client a (\<lambda>c. c\<lparr>fw_connection_state := st\<rparr>) s)"
  by (rule update_client_same) simp

lemma auth_change_state_globals: "globals (snd (auth_change_state env a st reason s)) = globals s"
  by (rule auth_change_state_cases [of env a st reason s])
    (simp_all add: client_reset_frame same_but_lists_frame(1) [OF auth_mac_ops_same(5)]
      same_but_log_globals [OF auth_cmds_same(1)] same_but_log_globals [OF auth_cmds_same(2)])

text \<open>
  A state change keeps the list of clients, up to fields that the invariants do not mention, or
  deletes the client from a list of which that holds.
\<close>

lemma auth_change_state_list:
  assumes "distinct (addrs s)"
  obtains (same) "same_clients s (snd (auth_change_state env a st reason s))"
  | (deleted) s1 where "same_clients s s1"
      "snd (auth_change_state env a st reason s) = client_list_delete a s1"
proof (rule auth_change_state_cases [of env a st reason s])
  assume "auth_change_state env a st reason s = (- 1, s)"
  then show thesis by (intro same) simp
next
  fix c assume "auth_change_state env a st reason s
    = (0, update_client a (\<lambda>c. c\<lparr>fw_connection_state := st\<rparr>) (auth_cmds env c reason s))"
  then show thesis
    using same_clients_trans [OF same_but_log_clients [OF auth_cmds_same(1)] set_state_same]
    by (intro same) simp
next
  fix c assume e: "auth_change_state env a st reason s
    = (0, update_client a (\<lambda>c. c\<lparr>fw_connection_state := st\<rparr>)
           (client_reset env a (deauth_cmds env c reason s)))"
  have d: "same_clients s (deauth_cmds env c reason s)"
    by (rule same_but_log_clients [OF auth_cmds_same(2)])
  then have "distinct (addrs (deauth_cmds env c reason s))" using assms by (simp add: same_clients_def)
  from same_clients_trans [OF same_clients_trans [OF d client_reset_same [OF this]] set_state_same] e
  show thesis by (intro same) simp
next
  fix c assume e: "auth_change_state env a st reason s
    = (0, client_list_delete a (snd (auth_client_block env (cl_mac c) (deauth_cmds env c reason s))))"
  have "same_clients s (snd (auth_client_block env (cl_mac c) (deauth_cmds env c reason s)))"
    by (rule same_clients_trans [OF same_but_log_clients [OF auth_cmds_same(2)]
          same_but_lists_frame(3) [OF auth_mac_ops_same(5)]])
  with e show thesis by (intro deleted) simp_all
qed

lemma auth_change_state_inv:
  assumes "cl_inv s"
  shows "cl_inv (snd (auth_change_state env a st reason s))"
proof -
  from assms have "distinct (addrs s)" by (simp add: cl_inv_def)
  then show ?thesis
    by (rule auth_change_state_list [of s env a st reason])
      (simp_all add: assms same_clients_inv delete_inv)
qed

lemma auth_change_state_ids_inv:
  assumes "distinct (addrs s)" and "ids_inv s"
  shows "ids_inv (snd (auth_change_state env a st reason s))"
  by (rule auth_change_state_list [OF assms(1), of env a st reason])
    (simp_all add: assms(2) same_clients_inv delete_ids_inv)

section \<open>The contract of a visit\<close>

text \<open>The nodes with the ids they carry.\<close>

definition id_list :: "nds \<Rightarrow> (addr \<times> 32 word) list" where
  "id_list s = zip (addrs s) (ids s)"

lemma id_list_map: "id_list s = map (\<lambda>(a, c). (a, cl_id c)) (clients s)"
proof -
  have "zip (map fst xs) (map (\<lambda>(a, c). cl_id c) xs) = map (\<lambda>(a, c). (a, cl_id c)) xs"
    for xs :: "(addr \<times> t_client) list" by (induction xs) auto
  then show ?thesis by (simp add: id_list_def addrs_def ids_def)
qed

lemma addrs_id_list: "addrs s = map fst (id_list s)"
  by (simp add: id_list_map addrs_def comp_def case_prod_beta)

lemma ids_id_list: "ids s = map snd (id_list s)"
  by (simp add: id_list_map ids_def comp_def case_prod_beta)

lemma id_list_client_at:
  "distinct (addrs s) \<Longrightarrow> (a, i) \<in> set (id_list s) \<Longrightarrow> \<exists>c. client_at s a = Some c \<and> cl_id c = i"
  by (auto simp: id_list_map client_at_def addrs_def)

lemma next_in_addrs:
  "map fst cs = xs @ a # ys \<Longrightarrow> a \<notin> set xs \<Longrightarrow> next_in a cs = (case ys of [] \<Rightarrow> None | b # _ \<Rightarrow> Some b)"
proof (induction xs arbitrary: cs)
  case Nil
  then obtain c cs' where "cs = (a, c) # cs'" "map fst cs' = ys" by (cases cs) auto
  then show ?case by (cases cs') auto
next
  case (Cons x xs)
  then obtain c cs' where "cs = (x, c) # cs'" "map fst cs' = xs @ a # ys" by (cases cs) auto
  then show ?case using Cons by auto
qed

lemma find_before: "P x \<Longrightarrow> find P (xs @ x # ys) \<in> Some ` set (xs @ [x])"
  by (induction xs) auto

lemma find_by_id_before:
  assumes "id_list s = xs @ (a, i) # ys"
  obtains b where "client_list_find_by_id i s = Some b" "(b, i) \<in> set (xs @ [(a, i)])"
proof -
  let ?g = "\<lambda>(a, c). (a, cl_id c)"
  obtain us c vs where cs: "clients s = us @ (a, c) # vs" "map ?g us = xs" "cl_id c = i"
    using assms unfolding id_list_map by (auto simp: map_eq_append_conv map_eq_Cons_conv)
  obtain b d where f: "find (\<lambda>(a, c). cl_id c = i) (clients s) = Some (b, d)"
      "(b, d) \<in> set (us @ [(a, c)])"
    using find_before [of "\<lambda>(a, c). cl_id c = i" "(a, c)" us vs] cs by auto
  then have "cl_id d = i" by (auto simp: find_Some_iff)
  then have "(b, i) \<in> ?g ` set (us @ [(a, c)])" using f(2) by force
  then have "(b, i) \<in> set (xs @ [(a, i)])" using cs(2,3) by auto
  with f(1) that show thesis by (simp add: client_list_find_by_id_def find_addr_def)
qed

text \<open>
  A visit may delete the node it visits, and no other; it leaves the ids and the order alone.
\<close>

locale client_visit =
  fixes visit :: "addr \<Rightarrow> nds \<Rightarrow> nds"
  assumes visit_list: "distinct (addrs s) \<Longrightarrow>
      id_list (visit a s) = id_list s \<or> id_list (visit a s) = filter (\<lambda>(b, _). b \<noteq> a) (id_list s)"
begin

lemma visit_distinct: "distinct (addrs s) \<Longrightarrow> distinct (addrs (visit a s))"
  using visit_list [of s a] by (auto simp: addrs_id_list distinct_map_filter)

lemma visit_rest:
  assumes "distinct (addrs s)" and "id_list s = xs @ ys" and "b \<notin> fst ` set ys"
  shows "\<exists>xs'. id_list (visit b s) = xs' @ ys"
proof -
  have "filter (\<lambda>(c, _). c \<noteq> b) ys = ys" using assms(3) by (intro filter_True) force
  with visit_list [OF assms(1), of b] assms(2) show ?thesis by auto
qed

lemma walk_step:
  assumes dist: "distinct (addrs s)" and s: "id_list s = xs @ (a, i) # ys"
  obtains b xs' where "client_walk visit (Suc n) (Some a) s
        = client_walk visit n (case ys of [] \<Rightarrow> None | (d, _) # _ \<Rightarrow> Some d) (visit b s)"
      "(b, i) \<in> set (xs @ [(a, i)])" "id_list (visit b s) = xs' @ ys"
proof -
  obtain c where c: "client_at s a = Some c" "cl_id c = i"
    using id_list_client_at [OF dist, of a i] s by auto
  have fst_s: "map fst (clients s) = map fst xs @ a # map fst ys"
    using s addrs_id_list [of s] by (simp add: addrs_def)
  moreover have "a \<notin> set (map fst xs)" using dist fst_s by (simp add: addrs_def)
  ultimately have nx: "next_in a (clients s) = (case ys of [] \<Rightarrow> None | (d, _) # _ \<Rightarrow> Some d)"
    using next_in_addrs [of "clients s" "map fst xs" a "map fst ys"] by (cases ys) auto
  obtain b where b: "client_list_find_by_id i s = Some b" "(b, i) \<in> set (xs @ [(a, i)])"
    by (rule find_by_id_before [OF s])
  have "b \<notin> fst ` set ys" using dist b(2) fst_s by (force simp: addrs_def)
  then obtain xs' where "id_list (visit b s) = xs' @ ys"
    using visit_rest [OF dist, of "xs @ [(a, i)]" ys b] s by auto
  with b that show thesis by (simp add: c nx)
qed

lemma walk_total:
  assumes "distinct (addrs s)" and "id_list s = xs @ ys" and "length ys < n"
  shows "\<exists>s'. client_walk visit n (case ys of [] \<Rightarrow> None | (d, _) # _ \<Rightarrow> Some d) s = Some s'"
  using assms
proof (induction ys arbitrary: s xs n)
  case (Cons y ys)
  obtain a i where y: "y = (a, i)" by (cases y)
  from Cons.prems(3) obtain m where m: "n = Suc m" "length ys < m" by (cases n) auto
  have s: "id_list s = xs @ (a, i) # ys" using Cons.prems(2) y by simp
  obtain b xs' where "client_walk visit (Suc m) (Some a) s
      = client_walk visit m (case ys of [] \<Rightarrow> None | (d, _) # _ \<Rightarrow> Some d) (visit b s)"
      "(b, i) \<in> set (xs @ [(a, i)])" "id_list (visit b s) = xs' @ ys"
    by (rule walk_step [OF Cons.prems(1) s])
  with Cons.IH [OF visit_distinct [OF Cons.prems(1)] _ m(2)] show ?case by (simp add: y m(1))
qed simp

lemma walk_fold:
  assumes "distinct (addrs s)" and "distinct (ids s)" and "id_list s = xs @ ys" and "length ys < n"
  shows "client_walk visit n (case ys of [] \<Rightarrow> None | (d, _) # _ \<Rightarrow> Some d) s
    = Some (fold visit (map fst ys) s)"
  using assms
proof (induction ys arbitrary: s xs n)
  case (Cons y ys)
  obtain a i where y: "y = (a, i)" by (cases y)
  have s: "id_list s = xs @ (a, i) # ys" using Cons.prems(3) y by simp
  from Cons.prems(4) obtain m where m: "n = Suc m" "length ys < m" by (cases n) auto
  obtain b xs' where b: "client_walk visit (Suc m) (Some a) s
      = client_walk visit m (case ys of [] \<Rightarrow> None | (d, _) # _ \<Rightarrow> Some d) (visit b s)"
      "(b, i) \<in> set (xs @ [(a, i)])" "id_list (visit b s) = xs' @ ys"
    by (rule walk_step [OF Cons.prems(1) s])
  have "b = a" using b(2) Cons.prems(2,3) by (force simp: ids_id_list y)
  have "distinct (ids (visit b s))"
    using visit_list [OF Cons.prems(1), of b] Cons.prems(2) by (auto simp: ids_id_list distinct_map_filter)
  with Cons.IH [OF visit_distinct [OF Cons.prems(1)] _ b(3) m(2)] b(1) \<open>b = a\<close> show ?case
    by (simp add: y m(1))
qed simp

lemma walk_first:
  "client_get_first_client s = (case id_list s of [] \<Rightarrow> None | (d, _) # _ \<Rightarrow> Some d)"
  by (auto simp: client_get_first_client_def id_list_map split: list.split)

lemma walk_all_total:
  "distinct (addrs s) \<Longrightarrow> length (clients s) < n \<Longrightarrow>
   \<exists>s'. client_walk visit n (client_get_first_client s) s = Some s'"
  using walk_total [of s "[]" "id_list s" n] by (simp add: walk_first id_list_map)

lemma walk_all_fold:
  "distinct (addrs s) \<Longrightarrow> distinct (ids s) \<Longrightarrow> length (clients s) < n \<Longrightarrow>
   client_walk visit n (client_get_first_client s) s = Some (fold visit (addrs s) s)"
  using walk_fold [of s "[]" "id_list s" n] by (simp add: walk_first id_list_map addrs_id_list)

end

text \<open>An invariant of the visits is one of the walk.\<close>

lemma client_walk_invariant:
  assumes "client_walk visit n p s = Some s'" and "I s" and "\<And>a s. I s \<Longrightarrow> I (visit a s)"
  shows "I s'"
  using assms(1,2)
proof (induction n arbitrary: p s)
  case 0
  then show ?case by (cases p) auto
next
  case (Suc n)
  then show ?case
    by (cases p) (auto simp: Let_def intro: assms(3) split: option.splits)
qed

lemma same_clients_id_list: "same_clients s s' \<Longrightarrow> id_list s' = id_list s"
  by (simp add: id_list_def same_clients_def)

lemma delete_id_list: "id_list (client_list_delete a s) = filter (\<lambda>(b, _). b \<noteq> a) (id_list s)"
proof (cases "client_at s a")
  case None
  then have "a \<notin> fst ` set (clients s)" by (simp add: client_at_None addrs_def)
  then have "filter (\<lambda>(b, _). b \<noteq> a) (id_list s) = id_list s"
    by (intro filter_True) (force simp: id_list_map)
  with None show ?thesis by (simp add: client_list_delete_def)
next
  case (Some c)
  have "map (\<lambda>(a, c). (a, cl_id c)) (filter (\<lambda>(b, _). b \<noteq> a) xs)
      = filter (\<lambda>(b, _). b \<noteq> a) (map (\<lambda>(a, c). (a, cl_id c)) xs)" for xs
    by (induction xs) auto
  with Some show ?thesis by (simp add: client_list_delete_def id_list_map)
qed

lemma auth_change_state_id_list:
  assumes "distinct (addrs s)"
  shows "id_list (snd (auth_change_state env a st reason s)) = id_list s
    \<or> id_list (snd (auth_change_state env a st reason s)) = filter (\<lambda>(b, _). b \<noteq> a) (id_list s)"
  by (rule auth_change_state_list [OF assms, of env a st reason])
    (simp_all add: same_clients_id_list delete_id_list)

text \<open>A visit of the refresh is a state change of that client, its deletion, or nothing.\<close>

lemma nested_if_cases:
  assumes "y = (if A then (if B then x1 else x2) else if C then x3 else if D then x4 else if E then x5 else x6)"
  shows "y = x1 \<or> y = x2 \<or> y = x3 \<or> (D \<and> y = x4) \<or> y = x5 \<or> y = x6"
  using assms by auto

lemma refresh_client_cases:
  obtains (none) "refresh_client env now a s = s"
  | (change) st reason where "refresh_client env now a s = snd (auth_change_state env a st reason s)"
  | (delete) c where "refresh_client env now a s = client_list_delete a s" "client_at s a = Some c"
      "fw_connection_state c = FW_MARK_PREAUTHENTICATED s"
proof (cases "client_at s a")
  case None
  then show thesis by (intro none) (simp add: refresh_client_def)
next
  case (Some c)
  show thesis
    using nested_if_cases [OF refresh_client_def [of env now a s, unfolded Some option.case Let_def]]
    by (elim disjE conjE) (erule change none delete [OF _ Some], assumption?)+
qed

interpretation refresh: client_visit "refresh_client env now" for env now
proof
  fix s a assume "distinct (addrs s)"
  from auth_change_state_id_list [OF this] show "id_list (refresh_client env now a s) = id_list s
      \<or> id_list (refresh_client env now a s) = filter (\<lambda>(b, _). b \<noteq> a) (id_list s)"
    by (rule_tac refresh_client_cases [of env now a s]) (simp_all add: delete_id_list)
qed

interpretation shutdown: client_visit "shutdown_client env" for env
  by unfold_locales (simp add: shutdown_client_def auth_change_state_id_list)

text \<open>Reading the counters changes counters only.\<close>

lemma update_counters_frame:
  "same_clients s (update_outgoing env ip n s)" "globals (update_outgoing env ip n s) = globals s"
  "cmd_log (update_outgoing env ip n s) = cmd_log s" "config (update_outgoing env ip n s) = config s"
  "same_clients s (update_incoming ip n s)" "globals (update_incoming ip n s) = globals s"
  "cmd_log (update_incoming ip n s) = cmd_log s" "config (update_incoming ip n s) = config s"
proof -
  have t: "same_clients s (s\<lparr>time_calls := t\<rparr>)" for t
    by (simp add: same_clients_def addrs_def keys_def ids_def)
  show "same_clients s (update_outgoing env ip n s)"
    using same_clients_trans [OF t update_client_same]
    by (simp add: update_outgoing_def c_time_def split: option.split)
  show "same_clients s (update_incoming ip n s)"
    using update_client_same by (simp add: update_incoming_def split: option.split)
qed (simp_all add: update_outgoing_def update_incoming_def c_time_def split: option.split)

end
