(* ===== verification/Auth_Rules.thy ===== *)
theory Auth_Rules
  imports Auth
begin

text \<open>
  What the firewall holds for the clients. The abstract state is a multiset of mangle rules: each rule
  with the number of times it was inserted less the number of times it was deleted. The
  main result is that for the chains of the clients this multiset is exactly the rules of the clients
  in state Authenticated, whatever sequence of operations ran, provided that every command succeeds.
\<close>

section \<open>The rules in the kernel\<close>

definition rule_cmd :: "string \<Rightarrow> string \<Rightarrow> nds \<Rightarrow> string" where
  "rule_cmd verb r s = iptables_cmdline s (''-t mangle '' @ verb @ '' '' @ r)"

definition log_net :: "nds \<Rightarrow> string \<Rightarrow> (string \<times> int) list \<Rightarrow> int" where
  "log_net s r l = int (count_list l (rule_cmd ''-A'' r s, 0)) - int (count_list l (rule_cmd ''-D'' r s, 0))"

definition rule_net :: "nds \<Rightarrow> string \<Rightarrow> int" where
  "rule_net s r = log_net s r (cmd_log s)"

definition client_chain :: "string \<Rightarrow> bool" where
  "client_chain r \<longleftrightarrow> prefix ''ndsOUT'' r \<or> prefix ''ndsINC'' r"

definition client_specs :: "t_client \<Rightarrow> nds \<Rightarrow> string list" where
  "client_specs c s =
     [''ndsOUT -s '' @ cl_ip c @ '' -m mac --mac-source '' @ cl_mac c @ '' -j MARK ''
        @ markop s @ '' 0x'' @ show_hex (FW_MARK_AUTHENTICATED s),
      ''ndsINC -d '' @ cl_ip c @ '' -j MARK '' @ markop s @ '' 0x'' @ show_hex (FW_MARK_AUTHENTICATED s),
      ''ndsINC -d '' @ cl_ip c @ '' -j ACCEPT'']"

text \<open>How often a rule belongs to an authenticated client.\<close>

definition weight :: "nds \<Rightarrow> string \<Rightarrow> t_client \<Rightarrow> nat" where
  "weight s r c = (if fw_connection_state c = FW_MARK_AUTHENTICATED s then count_list (client_specs c s) r else 0)"

definition auth_count :: "nds \<Rightarrow> string \<Rightarrow> nat" where
  "auth_count s r = sum_list (map (weight s r \<circ> snd) (clients s))"

definition fw_inv :: "nds \<Rightarrow> bool" where
  "fw_inv s \<longleftrightarrow> (\<forall>r. client_chain r \<longrightarrow> rule_net s r = int (auth_count s r))"

lemma client_rules_specs: "client_rules verb c s = map (\<lambda>r. ''-t mangle '' @ verb @ '' '' @ r) (client_specs c s)"
  by (simp add: client_rules_def client_specs_def)

lemma count_list_append: "count_list (xs @ ys) x = count_list xs x + count_list ys x"
  by (induction xs) auto

lemma log_net_append: "log_net s r (l @ l') = log_net s r l + log_net s r l'"
  by (simp add: log_net_def count_list_append)

lemma rule_cmd_inj: "rule_cmd verb r s = rule_cmd verb r' s \<longleftrightarrow> r = r'"
  by (simp add: rule_cmd_def iptables_cmdline_def)

lemma rule_cmd_verbs: "rule_cmd ''-A'' r s \<noteq> rule_cmd ''-D'' r' s" "rule_cmd ''-D'' r s \<noteq> rule_cmd ''-A'' r' s"
  by (simp_all add: rule_cmd_def iptables_cmdline_def)

lemma log_net_added: "log_net s r (map (\<lambda>q. (rule_cmd ''-A'' q s, 0)) qs) = int (count_list qs r)"
  by (induction qs) (simp_all add: log_net_def rule_cmd_inj rule_cmd_verbs)

lemma log_net_deleted: "log_net s r (map (\<lambda>q. (rule_cmd ''-D'' q s, 0)) qs) = - int (count_list qs r)"
  by (induction qs) (simp_all add: log_net_def rule_cmd_inj rule_cmd_verbs)

text \<open>Only the globals matter.\<close>

lemma iptables_cmdline_globals:
  assumes "globals s' = globals s"
  shows "iptables_cmdline s' = iptables_cmdline s"
  by (rule ext) (simp add: iptables_cmdline_def globals_fields(6) [OF assms]
      core_fields(1) [OF globals_fields(7) [OF assms]])

lemma rule_cmd_globals:
  assumes "globals s' = globals s"
  shows "rule_cmd verb r s' = rule_cmd verb r s"
  by (simp add: rule_cmd_def iptables_cmdline_globals [OF assms])

lemma client_specs_globals:
  assumes "globals s' = globals s"
  shows "client_specs c s' = client_specs c s"
  by (simp add: client_specs_def globals_fields(2,5) [OF assms])

lemma log_net_globals:
  assumes "globals s' = globals s"
  shows "log_net s' r l = log_net s r l"
  by (simp add: log_net_def rule_cmd_globals [OF assms])

lemma rule_net_ext:
  assumes "globals s' = globals s" and "cmd_log s' = cmd_log s @ l"
  shows "rule_net s' r = rule_net s r + log_net s r l"
  by (simp add: rule_net_def log_net_globals [OF assms(1)] assms(2) log_net_append)

section \<open>Commands that leave the client chains alone\<close>

definition neutral :: "nds \<Rightarrow> string \<Rightarrow> bool" where
  "neutral s cmd \<longleftrightarrow> (\<forall>r. client_chain r \<longrightarrow> cmd \<noteq> rule_cmd ''-A'' r s \<and> cmd \<noteq> rule_cmd ''-D'' r s)"

definition same_rules :: "nds \<Rightarrow> nds \<Rightarrow> bool" where
  "same_rules s s' \<longleftrightarrow> globals s' = globals s \<and> (\<forall>r. client_chain r \<longrightarrow> rule_net s' r = rule_net s r)"

lemma same_rules_refl [simp]: "same_rules s s"
  by (simp add: same_rules_def)

lemma same_rules_trans: "same_rules s s' \<Longrightarrow> same_rules s' s'' \<Longrightarrow> same_rules s s''"
  by (simp add: same_rules_def)

lemma neutral_globals:
  assumes "globals s' = globals s"
  shows "neutral s' = neutral s"
  by (rule ext) (simp add: neutral_def rule_cmd_globals [OF assms])

lemma same_rules_globals: "same_rules s s' \<Longrightarrow> globals s' = globals s"
  by (simp add: same_rules_def)

lemma neutral_logged:
  assumes "neutral s cmd"
  shows "same_rules s (s\<lparr>cmd_log := cmd_log s @ [(cmd, rc)]\<rparr>)"
  using assms rule_net_ext [of "s\<lparr>cmd_log := cmd_log s @ [(cmd, rc)]\<rparr>" s "[(cmd, rc)]"]
  by (auto simp: same_rules_def neutral_def log_net_def)

lemma popen_same_rules: "neutral s cmd \<Longrightarrow> same_rules s (snd (popen env cmd s))"
  by (simp add: popen_def neutral_logged split: option.split prod.split)

lemma execute_same_rules: "neutral s cmd \<Longrightarrow> same_rules s (snd (execute env cmd s))"
  using popen_same_rules [of s cmd env] by (cases "popen env cmd s") (auto simp: execute_def)

lemma execute_all_same_rules: "list_all (neutral s) cmds \<Longrightarrow> same_rules s (snd (execute_all env cmds rc s))"
proof (induction cmds arbitrary: rc s)
  case (Cons cmd cmds)
  obtain r s' where e: "execute env cmd s = (r, s')" by (cases "execute env cmd s")
  then have s': "same_rules s s'" using execute_same_rules [of s cmd env] Cons.prems by simp
  from neutral_globals [OF same_rules_globals [OF s']] have "list_all (neutral s') cmds"
    using Cons.prems by simp
  from same_rules_trans [OF s' Cons.IH [OF this]] show ?case using e by simp
qed simp

lemma do_command_same_rules:
  assumes "neutral s (iptables_cmdline s cmd)"
  shows "same_rules s (snd (iptables_do_command env cmd s))"
proof -
  have "same_rules s (snd (do_command_loop env x n rc s))" if "neutral s x" for x n rc s
    using that
  proof (induction n arbitrary: rc s)
    case (Suc n)
    obtain r s' where e: "execute env x s = (r, s')" by (cases "execute env x s")
    then have s': "same_rules s s'" using execute_same_rules [of s x env] Suc.prems by simp
    then have "neutral s' x" using Suc.prems neutral_globals [OF same_rules_globals [OF s']] by simp
    from same_rules_trans [OF s' Suc.IH [OF this]] s' e show ?case by simp
  qed simp
  from this [OF assms] show ?thesis by (simp add: iptables_do_command_def)
qed

lemma iptables_all_same_rules:
  "list_all (\<lambda>c. neutral s (iptables_cmdline s c)) cmds \<Longrightarrow> same_rules s (snd (iptables_all env cmds rc s))"
proof (induction cmds arbitrary: rc s)
  case (Cons cmd cmds)
  obtain r s' where e: "iptables_do_command env cmd s = (r, s')" by (cases "iptables_do_command env cmd s")
  then have s': "same_rules s s'" using do_command_same_rules [of s cmd env] Cons.prems by simp
  note g = same_rules_globals [OF s']
  have "list_all (\<lambda>c. neutral s' (iptables_cmdline s' c)) cmds"
    using Cons.prems by (simp add: neutral_globals [OF g] iptables_cmdline_globals [OF g])
  from same_rules_trans [OF s' Cons.IH [OF this]] show ?case using e by simp
qed simp

lemma iptables_cmdline_inj: "iptables_cmdline s x = iptables_cmdline s y \<longleftrightarrow> x = y"
  by (simp add: iptables_cmdline_def)

lemma neutral_other: "cmd = c # cs \<Longrightarrow> c \<noteq> CHR ''i'' \<Longrightarrow> neutral s cmd"
  by (auto simp: neutral_def rule_cmd_def iptables_cmdline_def)

lemma neutral_iptables:
  "neutral s (iptables_cmdline s x) \<longleftrightarrow>
     (\<forall>r. client_chain r \<longrightarrow> x \<noteq> ''-t mangle -A '' @ r \<and> x \<noteq> ''-t mangle -D '' @ r)"
  by (simp add: neutral_def rule_cmd_def iptables_cmdline_inj)

lemma neutral_mac_rules:
  "neutral s (iptables_cmdline s (block_mac_cmd ''-A'' mac s))"
  "neutral s (iptables_cmdline s (block_mac_cmd ''-D'' mac s))"
  "neutral s (iptables_cmdline s (allow_mac_cmd ''-I'' mac s))"
  "neutral s (iptables_cmdline s (allow_mac_cmd ''-D'' mac s))"
  "neutral s (iptables_cmdline s (trust_mac_cmd ''-A'' mac s))"
  "neutral s (iptables_cmdline s (trust_mac_cmd ''-D'' mac s))"
  by (auto simp: neutral_iptables block_mac_cmd_def allow_mac_cmd_def trust_mac_cmd_def client_chain_def
      prefix_def)

lemma mac_rules_same_rules:
  "same_rules s (snd (iptables_block_mac env mac s))"
  "same_rules s (snd (iptables_unblock_mac env mac s))"
  "same_rules s (snd (iptables_allow_mac env mac s))"
  "same_rules s (snd (iptables_unallow_mac env mac s))"
  "same_rules s (snd (iptables_trust_mac env mac s))"
  "same_rules s (snd (iptables_untrust_mac env mac s))"
  by (simp_all add: iptables_block_mac_def iptables_unblock_mac_def iptables_allow_mac_def
      iptables_unallow_mac_def iptables_trust_mac_def iptables_untrust_mac_def do_command_same_rules
      neutral_mac_rules)

lemma change_mac_list_same_rules:
  assumes "\<And>p cfg. core (snd (upd p cfg)) = core cfg" and "\<And>s. same_rules s (snd (fw env mac s))"
  shows "same_rules s (snd (change_mac_list upd fw env mac s))"
proof -
  obtain r cfg where u: "upd mac (config s) = (r, cfg)" by (cases "upd mac (config s)")
  then have "core cfg = core (config s)" using assms(1) [of mac "config s"] by simp
  then have g: "globals (s\<lparr>config := cfg\<rparr>) = globals s" by (rule globals_config)
  then have 1: "same_rules s (s\<lparr>config := cfg\<rparr>)" by (simp add: same_rules_def rule_net_def log_net_globals [OF g])
  obtain r' s' where f: "fw env mac (s\<lparr>config := cfg\<rparr>) = (r', s')"
    by (cases "fw env mac (s\<lparr>config := cfg\<rparr>)")
  then have "same_rules s s'" using same_rules_trans [OF 1 assms(2)] by simp
  with 1 show ?thesis by (simp add: change_mac_list_def u f)
qed

lemma auth_mac_ops_same_rules:
  "same_rules s (snd (auth_client_trust env mac s))"
  "same_rules s (snd (auth_client_untrust env mac s))"
  "same_rules s (snd (auth_client_allow env mac s))"
  "same_rules s (snd (auth_client_unallow env mac s))"
  "same_rules s (snd (auth_client_block env mac s))"
  "same_rules s (snd (auth_client_unblock env mac s))"
  by (simp_all add: auth_client_trust_def auth_client_untrust_def auth_client_allow_def
      auth_client_unallow_def auth_client_block_def auth_client_unblock_def
      change_mac_list_same_rules mac_ops_core mac_rules_same_rules)

text \<open>
  The external program runs as a command too: its name must not start like an \<open>iptables\<close> command.
  An absolute path does not.
\<close>

definition binauth_ok :: "s_config \<Rightarrow> bool" where
  "binauth_ok cfg \<longleftrightarrow> (case binauth cfg of None \<Rightarrow> True | Some p \<Rightarrow> hd (p @ '' '') \<noteq> CHR ''i'')"

lemma binauth_same_rules: "binauth_ok (config s) \<Longrightarrow> same_rules s (binauth_action env c reason s)"
proof (cases "binauth (config s)")
  case (Some p)
  assume "binauth_ok (config s)"
  then have "hd (p @ '' '') \<noteq> CHR ''i''" using Some by (simp add: binauth_ok_def)
  then have "neutral s (p @ '' '' @ x)" for x
    by (cases p) (auto intro: neutral_other)
  then show ?thesis by (simp add: binauth_action_def Some execute_same_rules)
qed (simp add: binauth_action_def)

lemma tc_same_rules:
  "same_rules s (snd (tc_attach_client env dd dl ud ul idx ip s))"
  "same_rules s (snd (tc_detach_client env dd dl ud ul idx s))"
proof -
  have "list_all (neutral s) (attach_cmds dev dir pdir tid limit ip)" for dev dir pdir tid limit ip
    by (simp add: attach_cmds_def neutral_other)
  moreover have "list_all (neutral s) (detach_cmds dev tid)" for dev tid
    by (simp add: detach_cmds_def neutral_other)
  ultimately show "same_rules s (snd (tc_attach_client env dd dl ud ul idx ip s))"
    "same_rules s (snd (tc_detach_client env dd dl ud ul idx s))"
    unfolding tc_attach_client_def tc_detach_client_def Let_def
    by (intro execute_all_same_rules; simp)+
qed

section \<open>Inserting and deleting the rules of a client\<close>

text \<open>The commands for a client fit the command buffer.\<close>

definition fits :: "nds \<Rightarrow> t_client \<Rightarrow> bool" where
  "fits s c \<longleftrightarrow> list_all (\<lambda>r. length (rule_cmd ''-A'' r s) < QUERYMAXLEN) (client_specs c s)"

lemma client_rules_log:
  assumes "shell_ok env" and "fits s c" and "verb \<in> {''-A'', ''-D''}"
  shows "iptables_all env (client_rules verb c s) 0 s
    = (0, s\<lparr>cmd_log := cmd_log s @ map (\<lambda>r. (rule_cmd verb r s, 0)) (client_specs c s)\<rparr>)"
proof -
  have "length (rule_cmd verb r s) = length (rule_cmd ''-A'' r s)" for r
    using assms(3) by (auto simp: rule_cmd_def iptables_cmdline_def)
  then have "list_all (\<lambda>c. length (iptables_cmdline s c) < QUERYMAXLEN) (client_rules verb c s)"
    using assms(2) by (simp add: fits_def client_rules_specs list_all_iff rule_cmd_def)
  from iptables_all_ok [OF assms(1) this] show ?thesis
    by (simp add: client_rules_specs rule_cmd_def)
qed

lemma authenticate_rules:
  assumes "shell_ok env" and "fits s c" and "client_chain r"
  shows "rule_net (snd (iptables_fw_authenticate env c s)) r = rule_net s r + int (count_list (client_specs c s) r)"
proof -
  let ?l = "map (\<lambda>r. (rule_cmd ''-A'' r s, 0)) (client_specs c s)"
  let ?s = "s\<lparr>cmd_log := cmd_log s @ ?l\<rparr>"
  have "same_rules ?s (snd (iptables_fw_authenticate env c s))"
    using client_rules_log [OF assms(1,2), of "''-A''"] tc_same_rules(1) [of ?s]
    by (simp add: iptables_fw_authenticate_def Let_def case_prod_beta)
  then have "rule_net (snd (iptables_fw_authenticate env c s)) r = rule_net ?s r"
    using assms(3) by (simp add: same_rules_def)
  also have "\<dots> = rule_net s r + int (count_list (client_specs c s) r)"
    by (simp add: rule_net_ext [of ?s s ?l] log_net_added)
  finally show ?thesis .
qed

lemma deauthenticate_rules:
  assumes "shell_ok env" and "fits s c" and "client_chain r"
  shows "rule_net (snd (iptables_fw_deauthenticate env c s)) r = rule_net s r - int (count_list (client_specs c s) r)"
proof -
  let ?l = "map (\<lambda>r. (rule_cmd ''-D'' r s, 0)) (client_specs c s)"
  let ?s = "s\<lparr>cmd_log := cmd_log s @ ?l\<rparr>"
  have "same_rules ?s (snd (iptables_fw_deauthenticate env c s))"
    using client_rules_log [OF assms(1,2), of "''-D''"] tc_same_rules(2) [of ?s]
    by (simp add: iptables_fw_deauthenticate_def Let_def case_prod_beta)
  then have "rule_net (snd (iptables_fw_deauthenticate env c s)) r = rule_net ?s r"
    using assms(3) by (simp add: same_rules_def)
  also have "\<dots> = rule_net s r - int (count_list (client_specs c s) r)"
    by (simp add: rule_net_ext [of ?s s ?l] log_net_deleted)
  finally show ?thesis .
qed

section \<open>The invariant of the rules\<close>


lemma weight_globals:
  assumes "globals s' = globals s"
  shows "weight s' r = weight s r"
  by (rule ext) (simp add: weight_def client_specs_globals [OF assms] globals_fields(2) [OF assms])

lemma auth_count_same:
  assumes "globals s' = globals s" and "clients s' = clients s"
  shows "auth_count s' r = auth_count s r"
  by (simp add: auth_count_def weight_globals [OF assms(1)] assms(2))

lemma auth_count_update:
  assumes "distinct (addrs s)" and "client_at s a = Some c"
  shows "auth_count (update_client a f s) r + weight s r c = auth_count s r + weight s r (f c)"
proof -
  obtain xs ys where cs: "clients s = xs @ (a, c) # ys" "a \<notin> fst ` set xs" "a \<notin> fst ` set ys"
    by (rule client_at_split [OF assms])
  have "weight (update_client a f s) r = weight s r" by (rule weight_globals) simp
  then show ?thesis by (simp add: auth_count_def update_client_split [OF cs]) (simp add: cs(1))
qed

lemma auth_count_delete:
  assumes "distinct (addrs s)" and "client_at s a = Some c"
  shows "auth_count (client_list_delete a s) r + weight s r c = auth_count s r"
proof -
  obtain xs ys where cs: "clients s = xs @ (a, c) # ys" "a \<notin> fst ` set xs" "a \<notin> fst ` set ys"
    by (rule client_at_split [OF assms])
  have w: "weight (client_list_delete a s) r = weight s r" by (rule weight_globals) simp
  have f: "filter (\<lambda>(b, _). b \<noteq> a) zs = zs" if "a \<notin> fst ` set zs" for zs :: "(addr \<times> t_client) list"
    using that by (intro filter_True) force
  have "clients (client_list_delete a s) = xs @ ys"
    using assms(2) cs by (simp add: client_list_delete_def f)
  then show ?thesis by (simp add: auth_count_def w) (simp add: cs(1))
qed

text \<open>
  What the firewall part of the code relies on: the three marks differ from the one of an
  authenticated client, and the commands of the clients on the list fit their buffer.
\<close>

definition marks_distinct :: "nds \<Rightarrow> bool" where
  "marks_distinct s \<longleftrightarrow> FW_MARK_PREAUTHENTICATED s \<noteq> FW_MARK_AUTHENTICATED s
     \<and> FW_MARK_BLOCKED s \<noteq> FW_MARK_AUTHENTICATED s \<and> FW_MARK_TRUSTED s \<noteq> FW_MARK_AUTHENTICATED s"

definition all_fit :: "nds \<Rightarrow> bool" where
  "all_fit s \<longleftrightarrow> list_all (\<lambda>(a, c). fits s c) (clients s)"

definition gateway_inv :: "nds \<Rightarrow> bool" where
  "gateway_inv s \<longleftrightarrow> cl_inv s \<and> marks_distinct s \<and> binauth_ok (config s) \<and> all_fit s \<and> fw_inv s
     \<and> client_count s \<le> max 0 (maxclients (config s)) \<and> is_int32 (maxclients (config s))
     \<and> length (markop s) \<le> 16"

lemma fits_cong:
  assumes "globals s' = globals s" and "cl_ip c' = cl_ip c" and "cl_mac c' = cl_mac c"
  shows "fits s' c' = fits s c"
proof -
  have "client_specs c' s' = client_specs c s"
    using client_specs_globals [OF assms(1), of c'] assms(2,3) by (simp add: client_specs_def)
  then show ?thesis by (simp add: fits_def rule_cmd_globals [OF assms(1)])
qed

lemma all_fit_keys: "all_fit s \<longleftrightarrow> list_all (\<lambda>(mac, ip). fits s (blank_client mac ip)) (keys s)"
proof -
  have "fits s (blank_client (cl_mac c) (cl_ip c)) = fits s c" for c
    by (rule fits_cong) (simp_all add: blank_client_def)
  then show ?thesis by (auto simp: all_fit_def keys_def list_all_iff)
qed

lemma all_fit_subset:
  assumes "globals s' = globals s" and "set (keys s') \<subseteq> set (keys s)" and "all_fit s"
  shows "all_fit s'"
proof -
  have "fits s' c = fits s c" for c by (rule fits_cong [OF assms(1)]) simp_all
  then show ?thesis using assms(2,3) by (auto simp: all_fit_keys list_all_iff)
qed

lemma globals_inv:
  assumes "globals s' = globals s"
  shows "marks_distinct s' = marks_distinct s" "binauth_ok (config s') = binauth_ok (config s)"
    "maxclients (config s') = maxclients (config s)" "length (markop s') = length (markop s)"
  by (simp_all add: marks_distinct_def binauth_ok_def globals_fields [OF assms]
      core_fields [OF globals_fields(7) [OF assms]])

lemma fw_inv_cong:
  assumes "same_rules s s'" and "\<And>r. client_chain r \<Longrightarrow> auth_count s' r = auth_count s r"
  shows "fw_inv s' = fw_inv s"
  using assms by (simp add: fw_inv_def same_rules_def)

section \<open>State changes keep it\<close>

lemma auth_cmds_rules:
  assumes "shell_ok env" and "fits s c" and "binauth_ok (config s)" and "client_chain r"
  shows "rule_net (auth_cmds env c reason s) r = rule_net s r + int (count_list (client_specs c s) r)"
    and "rule_net (deauth_cmds env c reason s) r = rule_net s r - int (count_list (client_specs c s) r)"
proof -
  have "binauth_ok (config (snd (iptables_fw_authenticate env c s)))"
    "binauth_ok (config (snd (iptables_fw_deauthenticate env c s)))"
    using globals_inv(2) [OF same_but_log_globals [OF fw_authenticate_same [of s env c]]]
      globals_inv(2) [OF same_but_log_globals [OF fw_deauthenticate_same [of s env c]]] assms(3) by simp_all
  note b = this [THEN binauth_same_rules]
  show "rule_net (auth_cmds env c reason s) r = rule_net s r + int (count_list (client_specs c s) r)"
    using b(1) assms(4) authenticate_rules [OF assms(1,2,4)] by (simp add: auth_cmds_def same_rules_def)
  show "rule_net (deauth_cmds env c reason s) r = rule_net s r - int (count_list (client_specs c s) r)"
    using b(2) assms(4) deauthenticate_rules [OF assms(1,2,4)] by (simp add: deauth_cmds_def same_rules_def)
qed

lemma rule_net_update [simp]: "rule_net (update_client a f s) r = rule_net s r"
  using log_net_globals [of "update_client a f s" s] by (simp add: rule_net_def)

lemma rule_net_delete [simp]: "rule_net (client_list_delete a s) r = rule_net s r"
proof -
  have "cmd_log (client_list_delete a s) = cmd_log s" by (simp add: client_list_delete_def)
  then show ?thesis using log_net_globals [of "client_list_delete a s" s] by (simp add: rule_net_def)
qed

lemma rule_net_reset [simp]: "rule_net (client_reset env a s) r = rule_net s r"
  using log_net_globals [OF client_reset_frame(1)] by (simp add: rule_net_def client_reset_frame)

lemma auth_count_reset:
  assumes "distinct (addrs s)" and "client_at s a = Some c"
  obtains c' where "client_at (client_reset env a s) a = Some c'"
    "fw_connection_state c' = fw_connection_state c" "client_specs c' s = client_specs c s"
    "\<And>r. auth_count (client_reset env a s) r = auth_count s r"
proof -
  let ?t = "s\<lparr>time_calls := Suc (time_calls s), rand_calls := Suc (Suc (rand_calls s))\<rparr>"
  let ?c = "fst (reset_client env c s)"
  have t: "distinct (addrs ?t)" "client_at ?t a = Some c"
    using assms by (simp_all add: addrs_def client_at_def)
  have g: "globals ?t = globals s" by simp
  have c': "fw_connection_state ?c = fw_connection_state c" "client_specs ?c s = client_specs c s"
    by (simp_all add: reset_client_eq client_specs_def)
  then have "weight s r ?c = weight s r c" for r by (simp add: weight_def)
  then have "auth_count (client_reset env a s) r = auth_count s r" for r
    using auth_count_update [OF t, of "\<lambda>_. ?c" r] auth_count_same [OF g]
    by (simp add: client_reset_eq [OF assms(2)] weight_globals [OF g])
  moreover have "client_at (client_reset env a s) a = Some ?c"
    by (simp add: client_reset_eq [OF assms(2)] client_at_update t(2))
  ultimately show thesis using that c' by blast
qed

lemma same_but_log_addrs: "same_but_log s s' \<Longrightarrow> clients s' = clients s \<and> addrs s' = addrs s"
  using same_but_lists_frame(2) [OF same_but_log_lists, of s s'] by (simp add: addrs_def)

lemma authenticated_fw_inv:
  assumes sh: "shell_ok env" and dist: "distinct (addrs s)" and fit: "all_fit s"
    and bin: "binauth_ok (config s)" and fw: "fw_inv s"
    and c: "client_at s a = Some c" "fw_connection_state c = FW_MARK_PREAUTHENTICATED s"
      "st = FW_MARK_AUTHENTICATED s" "FW_MARK_PREAUTHENTICATED s \<noteq> FW_MARK_AUTHENTICATED s"
  shows "fw_inv (update_client a (\<lambda>c. c\<lparr>fw_connection_state := st\<rparr>) (auth_cmds env c reason s))"
proof -
  let ?s = "auth_cmds env c reason s" and ?c = "c\<lparr>fw_connection_state := st\<rparr>"
  have f: "fits s c" using fit client_at_Some [OF c(1)] by (auto simp: all_fit_def list_all_iff)
  have g: "globals ?s = globals s" by (rule same_but_log_globals [OF auth_cmds_same(1)])
  note cs = same_but_log_addrs [OF auth_cmds_same(1), of env c reason s]
  have "weight ?s r c = 0" "weight ?s r ?c = count_list (client_specs c s) r" for r
    using c by (simp_all add: weight_globals [OF g]) (simp_all add: weight_def client_specs_def)
  moreover have "distinct (addrs ?s)" "client_at ?s a = Some c"
    using dist c(1) cs same_but_log_client_at [OF auth_cmds_same(1)] by simp_all
  ultimately have "auth_count (update_client a (\<lambda>c. c\<lparr>fw_connection_state := st\<rparr>) ?s) r
      = auth_count s r + count_list (client_specs c s) r" for r
    using auth_count_update [of ?s a c "\<lambda>c. c\<lparr>fw_connection_state := st\<rparr>" r] auth_count_same [OF g] cs by simp
  then show ?thesis
    using fw auth_cmds_rules(1) [OF sh f bin] by (simp add: fw_inv_def)
qed

lemma deauthenticated_fw_inv:
  assumes sh: "shell_ok env" and dist: "distinct (addrs s)" and fit: "all_fit s"
    and bin: "binauth_ok (config s)" and fw: "fw_inv s"
    and c: "client_at s a = Some c" "fw_connection_state c = FW_MARK_AUTHENTICATED s"
      "st = FW_MARK_PREAUTHENTICATED s" "FW_MARK_PREAUTHENTICATED s \<noteq> FW_MARK_AUTHENTICATED s"
  shows "fw_inv (update_client a (\<lambda>c. c\<lparr>fw_connection_state := st\<rparr>)
      (client_reset env a (deauth_cmds env c reason s)))"
proof -
  let ?s = "deauth_cmds env c reason s"
  let ?s' = "client_reset env a ?s"
  have f: "fits s c" using fit client_at_Some [OF c(1)] by (auto simp: all_fit_def list_all_iff)
  have g: "globals ?s = globals s" by (rule same_but_log_globals [OF auth_cmds_same(2)])
  then have g': "globals ?s' = globals s" by (simp add: client_reset_frame)
  note cs = same_but_log_addrs [OF auth_cmds_same(2), of env c reason s]
  have at: "distinct (addrs ?s)" "client_at ?s a = Some c"
    using dist c(1) cs same_but_log_client_at [OF auth_cmds_same(2)] by simp_all
  obtain c' where c': "client_at ?s' a = Some c'" "fw_connection_state c' = fw_connection_state c"
      "client_specs c' ?s = client_specs c ?s" "\<And>r. auth_count ?s' r = auth_count ?s r"
    by (rule auth_count_reset [OF at, of env]) blast
  have "distinct (addrs ?s')"
    using client_reset_same [OF at(1), of env a] at(1) by (simp add: same_clients_def)
  moreover have "weight ?s' r c' = count_list (client_specs c s) r"
    "weight ?s' r (c'\<lparr>fw_connection_state := st\<rparr>) = 0" for r
    using c c'(2,3) by (simp_all add: weight_globals [OF g'])
      (simp_all add: weight_def client_specs_globals [OF g])
  ultimately have "auth_count (update_client a (\<lambda>c. c\<lparr>fw_connection_state := st\<rparr>) ?s') r
      + count_list (client_specs c s) r = auth_count s r" for r
    using auth_count_update [OF _ c'(1), of "\<lambda>c. c\<lparr>fw_connection_state := st\<rparr>" r] auth_count_same [OF g] cs c'(4)
    by simp
  then have n: "int (auth_count (update_client a (\<lambda>c. c\<lparr>fw_connection_state := st\<rparr>) ?s') r)
      = int (auth_count s r) - int (count_list (client_specs c s) r)" for r
    by (metis add_diff_cancel_right' of_nat_add)
  show ?thesis using fw auth_cmds_rules(2) [OF sh f bin] by (simp add: fw_inv_def n)
qed

lemma blocked_fw_inv:
  assumes sh: "shell_ok env" and dist: "distinct (addrs s)" and fit: "all_fit s"
    and bin: "binauth_ok (config s)" and fw: "fw_inv s"
    and c: "client_at s a = Some c" "fw_connection_state c = FW_MARK_AUTHENTICATED s"
  shows "fw_inv (client_list_delete a
      (snd (auth_client_block env (cl_mac c) (deauth_cmds env c reason s))))"
proof -
  let ?s = "deauth_cmds env c reason s"
  let ?s' = "snd (auth_client_block env (cl_mac c) ?s)"
  have f: "fits s c" using fit client_at_Some [OF c(1)] by (auto simp: all_fit_def list_all_iff)
  have g: "globals ?s' = globals s"
    using same_but_lists_frame(1) [OF auth_mac_ops_same(5)] same_but_log_globals [OF auth_cmds_same(2)] by simp
  have cs: "clients ?s' = clients s"
    using same_but_lists_frame(2) [OF auth_mac_ops_same(5)] same_but_log_addrs [OF auth_cmds_same(2)] by simp
  then have "distinct (addrs ?s')" "client_at ?s' a = Some c" using dist c(1) by (simp_all add: addrs_def client_at_def)
  from auth_count_delete [OF this]
  have "auth_count (client_list_delete a ?s') r + count_list (client_specs c s) r = auth_count s r" for r
    using c(2) by (simp add: auth_count_same [OF g cs] weight_globals [OF g]) (simp add: weight_def)
  then have n: "int (auth_count (client_list_delete a ?s') r)
      = int (auth_count s r) - int (count_list (client_specs c s) r)" for r
    by (metis add_diff_cancel_right' of_nat_add)
  have "rule_net ?s' r = rule_net ?s r" if "client_chain r" for r
    using auth_mac_ops_same_rules(5) that by (simp add: same_rules_def)
  then show ?thesis using fw auth_cmds_rules(2) [OF sh f bin] by (simp add: fw_inv_def n)
qed

lemma auth_change_state_fw_inv:
  assumes sh: "shell_ok env" and dist: "distinct (addrs s)" and fit: "all_fit s"
    and bin: "binauth_ok (config s)" and fw: "fw_inv s"
  shows "fw_inv (snd (auth_change_state env a st reason s))"
  by (rule auth_change_state_cases [of env a st reason s])
    (simp_all add: fw authenticated_fw_inv deauthenticated_fw_inv blocked_fw_inv assms)

section \<open>All operations keep it\<close>

lemma delete_keys: "set (keys (client_list_delete a s)) \<subseteq> set (keys s)"
  by (auto simp: client_list_delete_def keys_def)

lemma delete_count: "client_count (client_list_delete a s) \<le> client_count s"
  by (simp add: client_list_delete_def)

text \<open>The invariant, part by part, from what an operation does to the state.\<close>

lemma gateway_invI:
  assumes "gateway_inv s" and "globals s' = globals s" and "cl_inv s'" and "set (keys s') \<subseteq> set (keys s)"
    and "client_count s' \<le> client_count s" and "fw_inv s'"
  shows "gateway_inv s'"
  using assms(1,3,5,6) all_fit_subset [OF assms(2,4)]
  by (simp add: gateway_inv_def globals_inv [OF assms(2)])

lemma gateway_inv_same:
  assumes "gateway_inv s" and "same_clients s s'" and "same_rules s s'"
    and "\<And>r. client_chain r \<Longrightarrow> auth_count s' r = auth_count s r"
  shows "gateway_inv s'"
proof (rule gateway_invI [OF assms(1) same_rules_globals [OF assms(3)]])
  show "cl_inv s'" using assms(1,2) by (simp add: gateway_inv_def same_clients_inv)
  show "set (keys s') \<subseteq> set (keys s)" "client_count s' \<le> client_count s"
    using assms(2) by (simp_all add: same_clients_def)
  show "fw_inv s'" using assms(1) fw_inv_cong [OF assms(3,4)] by (simp add: gateway_inv_def)
qed

lemma same_but_lists_gateway_inv:
  assumes "gateway_inv s" and "same_but_lists s s'" and "same_rules s s'"
  shows "gateway_inv s'"
  using gateway_inv_same [OF assms(1) same_but_lists_frame(3) [OF assms(2)] assms(3)]
    auth_count_same [OF same_but_lists_frame(1,2) [OF assms(2)]] by simp

lemma auth_change_state_gateway_inv:
  assumes "shell_ok env" and inv: "gateway_inv s"
  shows "gateway_inv (snd (auth_change_state env a st reason s))"
proof (rule gateway_invI [OF inv auth_change_state_globals])
  have i: "cl_inv s" "distinct (addrs s)" "all_fit s" "binauth_ok (config s)" "fw_inv s"
    using inv by (simp_all add: gateway_inv_def cl_inv_def)
  show "cl_inv (snd (auth_change_state env a st reason s))" by (rule auth_change_state_inv [OF i(1)])
  show "set (keys (snd (auth_change_state env a st reason s))) \<subseteq> set (keys s)"
    by (rule auth_change_state_list [OF i(2), of env a st reason])
      (metis delete_keys same_clients_def order_refl)+
  show "client_count (snd (auth_change_state env a st reason s)) \<le> client_count s"
    by (rule auth_change_state_list [OF i(2), of env a st reason])
      (auto simp: same_clients_def intro: order_trans [OF delete_count])
  show "fw_inv (snd (auth_change_state env a st reason s))"
    by (rule auth_change_state_fw_inv [OF assms(1) i(2-5)])
qed

lemma delete_gateway_inv:
  assumes inv: "gateway_inv s" and at: "client_at s a = Some c"
    and st: "fw_connection_state c \<noteq> FW_MARK_AUTHENTICATED s"
  shows "gateway_inv (client_list_delete a s)"
proof (rule gateway_invI [OF inv globals_delete])
  show "cl_inv (client_list_delete a s)" using inv by (simp add: gateway_inv_def delete_inv)
  have "distinct (addrs s)" using inv by (simp add: gateway_inv_def cl_inv_def)
  from auth_count_delete [OF this at] st show "fw_inv (client_list_delete a s)"
    using inv by (simp add: gateway_inv_def fw_inv_def weight_def)
qed (rule delete_keys delete_count)+

lemma refresh_client_gateway_inv:
  assumes "shell_ok env" and inv: "gateway_inv s"
  shows "gateway_inv (refresh_client env now a s)"
proof (rule refresh_client_cases [of env now a s])
  fix c assume "refresh_client env now a s = client_list_delete a s" "client_at s a = Some c"
    "fw_connection_state c = FW_MARK_PREAUTHENTICATED s"
  then show ?thesis using delete_gateway_inv [OF inv] inv by (simp add: gateway_inv_def marks_distinct_def)
qed (simp_all add: assms auth_change_state_gateway_inv)

text \<open>Reading the counters.\<close>

lemma counters_loop_inv:
  assumes upd: "\<And>ip n s. I s \<Longrightarrow> I (upd ip n s)"
  shows "I s \<Longrightarrow> I (counters_loop fmt tgt upd stream s)"
proof (induction "length stream" arbitrary: stream s rule: less_induct)
  case less
  obtain v rest where v: "scan_counter fmt stream = (v, rest)" by (cases "scan_counter fmt stream")
  let ?s = "case v of None \<Rightarrow> s
    | Some (cnt, t, ip) \<Rightarrow> if t = tgt \<and> ip6 (config s) = 0 \<and> inet_pton4 ip then upd ip cnt s else s"
  have s: "I ?s" using less.prems upd by (simp split: option.split prod.split)
  show ?case
  proof (cases "eat_line rest")
    case None
    with s show ?thesis by (simp add: counters_loop.simps [of _ _ _ stream] v)
  next
    case (Some rest')
    have "length rest' < length stream"
      using eat_line_shorter [OF Some] scan_counter_rest [OF v] by simp
    from less.hyps [OF this s] Some show ?thesis by (simp add: counters_loop.simps [of _ _ _ stream] v)
  qed
qed

lemma read_counters_inv:
  assumes "\<And>ip n s. I s \<Longrightarrow> I (upd ip n s)" and "I s"
  shows "I (read_counters fmt tgt upd out s)"
  using assms(2) counters_loop_inv [of I upd, OF assms(1)]
  by (simp add: read_counters_def split: option.split)

lemma counters_update_rule:
  assumes "I s" and pop: "\<And>chain s. I s \<Longrightarrow> I (snd (popen_read env (''iptables -v -n -x -t mangle -L '' @ chain) s))"
    and upd: "\<And>ip n s. I s \<Longrightarrow> I (update_outgoing env ip n s)" "\<And>ip n s. I s \<Longrightarrow> I (update_incoming ip n s)"
  shows "I (snd (iptables_fw_counters_update env s))"
proof -
  obtain o1 s1 where 1: "popen_read env ''iptables -v -n -x -t mangle -L ndsOUT'' s = (o1, s1)"
    by (cases "popen_read env ''iptables -v -n -x -t mangle -L ndsOUT'' s")
  then have i1: "I s1" using pop [OF assms(1), of "''ndsOUT''"] by simp
  show ?thesis
  proof (cases o1)
    case (Some out)
    let ?s2 = "read_counters outgoing_format ''MARK'' (update_outgoing env) out s1"
    have i2: "I ?s2" by (rule read_counters_inv [of I, OF upd(1) i1])
    obtain o3 s3 where 3: "popen_read env ''iptables -v -n -x -t mangle -L ndsINC'' ?s2 = (o3, s3)"
      by (cases "popen_read env ''iptables -v -n -x -t mangle -L ndsINC'' ?s2")
    then have i3: "I s3" using pop [OF i2, of "''ndsINC''"] by simp
    have "I (read_counters incoming_format ''ACCEPT'' update_incoming out' s3)" for out'
      by (rule read_counters_inv [of I, OF upd(2) i3])
    with 1 Some 3 i3 show ?thesis by (simp add: iptables_fw_counters_update_def Let_def split: option.split)
  qed (use 1 i1 in \<open>simp add: iptables_fw_counters_update_def\<close>)
qed

lemma update_client_gateway_inv:
  assumes "gateway_inv s" and f: "\<And>c. cl_mac (f c) = cl_mac c" "\<And>c. cl_ip (f c) = cl_ip c" "\<And>c. cl_id (f c) = cl_id c"
    "\<And>c. fw_connection_state (f c) = fw_connection_state c"
  shows "gateway_inv (update_client a f s)"
proof (rule gateway_inv_same [OF assms(1)])
  show "same_clients s (update_client a f s)" by (rule update_client_same) (simp add: f)
  show "same_rules s (update_client a f s)" by (simp add: same_rules_def)
  have "distinct (addrs s)" using assms(1) by (simp add: gateway_inv_def cl_inv_def)
  moreover have "weight s r (f c) = weight s r c" for r c by (simp add: weight_def client_specs_def f)
  moreover have "client_at s a = None \<Longrightarrow> clients (update_client a f s) = clients s"
    unfolding client_at_None update_client_def addrs_def by (auto intro!: map_idI simp: image_iff)
  ultimately show "auth_count (update_client a f s) r = auth_count s r" for r
    using auth_count_update [of s a _ f r] auth_count_same [of "update_client a f s" s r]
    by (cases "client_at s a") auto
qed

lemma counters_client_gateway_inv:
  "gateway_inv s \<Longrightarrow> gateway_inv (update_client a (\<lambda>c. c\<lparr>counters := f (counters c)\<rparr>) s)"
  by (rule update_client_gateway_inv) simp_all

lemma frame_gateway_inv:
  assumes "gateway_inv s" and "globals s' = globals s" and "clients s' = clients s" and "cmd_log s' = cmd_log s"
    and "client_count s' = client_count s" and "next_addr s' = next_addr s"
  shows "gateway_inv s'"
proof (rule gateway_invI [OF assms(1,2)])
  show "cl_inv s'" "set (keys s') \<subseteq> set (keys s)" "client_count s' \<le> client_count s"
    using assms(1) by (simp_all add: gateway_inv_def cl_inv_def addrs_def keys_def assms(3,5,6))
  show "fw_inv s'"
    using assms(1) by (simp add: gateway_inv_def fw_inv_def rule_net_def log_net_globals [OF assms(2)] assms(4)
        auth_count_same [OF assms(2,3)])
qed

lemma time_gateway_inv: "gateway_inv s \<Longrightarrow> gateway_inv (s\<lparr>time_calls := t\<rparr>)"
  by (rule frame_gateway_inv) simp_all

lemma update_counters_gateway_inv:
  assumes "gateway_inv s"
  shows "gateway_inv (update_outgoing env ip n s)" "gateway_inv (update_incoming ip n s)"
  using assms counters_client_gateway_inv [OF time_gateway_inv [OF assms], where f = "\<lambda>k. k\<lparr>outgoing := _, last_updated := _\<rparr>"]
    counters_client_gateway_inv [OF assms, where f = "\<lambda>k. k\<lparr>incoming := _\<rparr>"]
  by (simp_all add: update_outgoing_def update_incoming_def c_time_def split: option.split)

lemma popen_read_gateway_inv:
  assumes "gateway_inv s" and "neutral s cmd"
  shows "gateway_inv (snd (popen_read env cmd s))"
  using same_but_lists_gateway_inv [OF assms(1) same_but_log_lists [OF popen_same] popen_same_rules [OF assms(2)]]
  by (simp add: popen_read_def case_prod_beta)

lemma neutral_listing: "neutral s (''iptables -v -n -x -t mangle -L '' @ chain)"
  by (auto simp: neutral_def rule_cmd_def iptables_cmdline_def)

lemma counters_update_gateway_inv:
  assumes "gateway_inv s"
  shows "gateway_inv (snd (iptables_fw_counters_update env s))"
  by (rule counters_update_rule [of gateway_inv, OF assms popen_read_gateway_inv [OF _ neutral_listing]
        update_counters_gateway_inv])

text \<open>A new client: its MAC has the length of one from the neighbour table.\<close>

lemma length_show_base: "n < 16 ^ Suc k \<Longrightarrow> length (show_base 16 n) \<le> Suc k"
proof (induction k arbitrary: n)
  case 0
  then show ?case by (simp add: show_base.simps)
next
  case (Suc k)
  show ?case
  proof (cases "n < 16")
    case False
    have "n div 16 < 16 ^ Suc k" using Suc.prems by (simp add: less_mult_imp_div_less mult.commute)
    from Suc.IH [OF this] False show ?thesis by (simp add: show_base.simps [of 16 n])
  qed (simp add: show_base.simps)
qed

lemma length_show_hex: "length (show_hex (w :: 32 word)) \<le> 8"
proof -
  have "unat w < 16 ^ Suc 7" using unsigned_less [of w, where ?'a = nat] by simp
  from length_show_base [OF this] show ?thesis by (simp add: show_hex_def)
qed

lemma length_show_byte: "n < 256 \<Longrightarrow> length (show_nat n) \<le> 3"
  by (simp add: show_nat_def show_base.simps [of 10 n] show_base.simps [of 10 "n div 10"]
      show_base.simps [of 10 "n div 10 div 10"])

lemma length_dotted: "\<forall>n \<in> set ns. n < 256 \<Longrightarrow> length (dotted ns) \<le> 4 * length ns"
  by (induction ns rule: dotted.induct) (use length_show_byte in \<open>fastforce+\<close>)

lemma new_client_fits:
  assumes "check_ip_format ip" and "length mac \<le> 17" and "length (markop s) \<le> 16"
  shows "fits s (blank_client mac ip)"
proof -
  obtain ns where "length ns = 4" "\<forall>n \<in> set ns. n < 256" "ip = dotted ns"
    using assms(1) by (auto simp: check_ip_format_def inet_pton4_iff)
  then have "length ip \<le> 16" using length_dotted [of ns] by simp
  then have "list_all (\<lambda>r. length r \<le> 1000) (client_specs (blank_client mac ip) s)"
    using length_show_hex [of "FW_MARK_AUTHENTICATED s"] assms(2,3)
    by (simp add: client_specs_def blank_client_def)
  moreover have "length (rule_cmd ''-A'' r s) < QUERYMAXLEN" if "length r \<le> 1000" for r
    using that by (simp add: rule_cmd_def iptables_cmdline_def)
  ultimately show ?thesis by (auto simp: fits_def elim!: list.pred_mono_strong)
qed

lemma new_client_gateway_inv:
  assumes inv: "gateway_inv s" and mac: "length mac \<le> 17" and g: "globals s' = globals s"
    and cs: "clients s' = clients s @ [(a, new_client env mac ip s)]" and l: "cmd_log s' = cmd_log s"
    and "cl_inv s'" and "client_count s' \<le> max 0 (maxclients (config s))" and ip: "check_ip_format ip"
  shows "gateway_inv s'"
proof -
  have "fits s (new_client env mac ip s)"
    using new_client_fits [OF ip mac, of s] fits_cong [of s s "new_client env mac ip s" "blank_client mac ip"] inv
    by (simp add: gateway_inv_def blank_client_def)
  moreover have "fits s' c = fits s c" for c by (rule fits_cong [OF g]) simp_all
  ultimately have "all_fit s'" using inv by (simp add: all_fit_def gateway_inv_def cs)
  moreover have "weight s r (new_client env mac ip s) = 0" for r
    using inv by (auto simp: weight_def initial_state_def gateway_inv_def marks_distinct_def)
  then have "auth_count s' r = auth_count s r" for r
    by (simp add: auth_count_def cs weight_globals [OF g])
  then have "fw_inv s'"
    using inv by (simp add: gateway_inv_def fw_inv_def rule_net_def l log_net_globals [OF g])
  ultimately show ?thesis using inv assms(6,7) by (simp add: gateway_inv_def globals_inv [OF g])
qed

lemma add_client_gateway_inv:
  assumes inv: "gateway_inv s" and mac: "length mac \<le> 17"
  shows "gateway_inv (snd (client_list_add_client env mac ip s))"
proof (cases "fst (client_list_add_client env mac ip s) = None \<or> client_list_find mac ip s \<noteq> None")
  case True
  then have "snd (client_list_add_client env mac ip s) = s"
    by (auto simp: client_list_add_client_def client_list_append_eq split: option.splits if_split_asm)
  with inv show ?thesis by simp
next
  case False
  then have ok: "check_ip_format ip" "check_mac_format mac" "client_list_find mac ip s = None"
      "client_list_add_client env mac ip s = client_list_append env mac ip s"
    by (auto simp: client_list_add_client_def split: if_split_asm)
  then obtain a where "client_list_append env mac ip s = (Some a, snd (client_list_add_client env mac ip s))"
    using False by (metis not_None_eq prod.collapse)
  note app = client_list_append_new [OF this]
  have i: "cl_inv s" "is_int32 (maxclients (config s))" using inv by (simp_all add: gateway_inv_def)
  have "is_int32 (client_count s + 1)" using app(2) i by (auto simp: cl_inv_def is_int32_def)
  then have "client_count (snd (client_list_add_client env mac ip s)) \<le> max 0 (maxclients (config s))"
    using app(2) by (subst app(3)) simp
  then show ?thesis
    using add_client_inv [OF i, of env mac ip]
    by (intro new_client_gateway_inv [OF inv mac _ _ _ _ _ ok(1), of _ a env]) (simp_all add: app(3))
qed

lemma walk_gateway_inv:
  assumes "client_walk visit n p s = Some s'" and "gateway_inv s" and "\<And>a s. gateway_inv s \<Longrightarrow> gateway_inv (visit a s)"
  shows "gateway_inv s'"
  by (rule client_walk_invariant [OF assms])

lemma refresh_gateway_inv:
  assumes "shell_ok env" and "gateway_inv s" and "fw_refresh_client_list env s = Some s'"
  shows "gateway_inv s'"
proof -
  let ?s = "s\<lparr>time_calls := Suc (time_calls s)\<rparr>"
  obtain rc s1 where u: "iptables_fw_counters_update env ?s = (rc, s1)"
    by (cases "iptables_fw_counters_update env ?s")
  then have i: "gateway_inv s1"
    using counters_update_gateway_inv [OF time_gateway_inv [OF assms(2)], of env "Suc (time_calls s)"] by simp
  show ?thesis
  proof (cases "rc = -1")
    case True
    with assms(3) u i show ?thesis by (simp add: fw_refresh_client_list_def c_time_def)
  next
    case False
    with assms(3) u have "client_walk (refresh_client env (time_of env (time_calls s)))
        (Suc (length (clients s1))) (client_get_first_client s1) s1 = Some s'"
      by (simp add: fw_refresh_client_list_def c_time_def)
    from walk_gateway_inv [OF this i refresh_client_gateway_inv [OF assms(1)]] show ?thesis .
  qed
qed

lemma auth_client_ops_gateway_inv:
  assumes "shell_ok env" and "gateway_inv s"
  shows "gateway_inv (snd (auth_client_auth env i reason s))" "gateway_inv (snd (auth_client_deauth env i reason s))"
proof -
  have "gateway_inv (s'\<lparr>authenticated_since_start := n\<rparr>)" if "gateway_inv s'" for s' n
    using that by (rule frame_gateway_inv) simp_all
  then show "gateway_inv (snd (auth_client_auth env i reason s))"
    using auth_change_state_gateway_inv [OF assms] assms(2)
    by (simp add: auth_client_auth_def auth_client_auth_nolock_def case_prod_beta split: option.split)
  show "gateway_inv (snd (auth_client_deauth env i reason s))"
    using auth_change_state_gateway_inv [OF assms] assms(2)
    by (simp add: auth_client_deauth_def split: option.split)
qed

end
