(* ===== verification/Auth_Sessions.thy ===== *)
theory Auth_Sessions
  imports Auth_Rules
begin

text \<open>
  What the state changes and the periodic check of \<open>src/auth.c\<close> do to the clients: which changes are
  made, that a change touches one client only, and what holds of every client after a check or after
  the shutdown loop.
\<close>

section \<open>One state change\<close>

lemma delete_client_at:
  "client_at (client_list_delete a s) b = (if b = a then None else client_at s b)"
proof -
  have "map_of (filter (\<lambda>(b, _). b \<noteq> a) xs) b = (if b = a then None else map_of xs b)"
    for xs :: "(addr \<times> t_client) list" by (induction xs) auto
  then show ?thesis by (auto simp: client_list_delete_def client_at_def)
qed

lemma client_reset_at:
  assumes "client_at s a = Some c"
  shows "client_at (client_reset env a s) b = (if b = a then Some (fst (reset_client env c s)) else client_at s b)"
proof -
  have "client_at (s\<lparr>time_calls := t, rand_calls := r\<rparr>) b = client_at s b" for t r b
    by (simp add: client_at_def)
  then show ?thesis using assms by (simp add: client_reset_eq [OF assms] client_at_update)
qed

lemma block_client_at: "client_at (snd (auth_client_block env mac s)) b = client_at s b"
  using same_but_lists_frame(2) [OF auth_mac_ops_same(5)] by (simp add: client_at_def)

text \<open>A state change leaves every other client alone.\<close>

lemma auth_change_state_local:
  assumes "b \<noteq> a"
  shows "client_at (snd (auth_change_state env a st reason s)) b = client_at s b"
proof (rule auth_change_state_cases [of env a st reason s])
  fix c assume "client_at s a = Some c"
    "auth_change_state env a st reason s = (0, update_client a (\<lambda>c. c\<lparr>fw_connection_state := st\<rparr>)
       (client_reset env a (deauth_cmds env c reason s)))"
  moreover have "client_at (deauth_cmds env c reason s) a = Some c"
    using calculation(1) by (simp add: same_but_log_client_at [OF auth_cmds_same(2)])
  ultimately show ?thesis using assms
    by (simp add: client_at_update client_reset_at same_but_log_client_at [OF auth_cmds_same(2)])
qed (use assms in \<open>simp_all add: client_at_update delete_client_at block_client_at
      same_but_log_client_at [OF auth_cmds_same(1)] same_but_log_client_at [OF auth_cmds_same(2)]\<close>)

lemma deauth_client_at:
  assumes "client_at s a = Some c" and "fw_connection_state c = FW_MARK_AUTHENTICATED s"
    and "FW_MARK_PREAUTHENTICATED s \<noteq> FW_MARK_AUTHENTICATED s"
  obtains c' where "auth_change_state env a (FW_MARK_PREAUTHENTICATED s) reason s
      = (0, snd (auth_change_state env a (FW_MARK_PREAUTHENTICATED s) reason s))"
    "client_at (snd (auth_change_state env a (FW_MARK_PREAUTHENTICATED s) reason s)) a = Some c'"
    "fw_connection_state c' = FW_MARK_PREAUTHENTICATED s" "session_start c' = 0" "session_end c' = 0"
    "incoming (counters c') = 0" "outgoing (counters c') = 0" "cl_mac c' = cl_mac c" "cl_ip c' = cl_ip c"
    "cl_id c' = cl_id c"
proof -
  let ?s = "deauth_cmds env c reason s"
  have e: "auth_change_state env a (FW_MARK_PREAUTHENTICATED s) reason s
      = (0, update_client a (\<lambda>c. c\<lparr>fw_connection_state := FW_MARK_PREAUTHENTICATED s\<rparr>) (client_reset env a ?s))"
    using assms by (simp add: auth_change_state_def Let_def deauth_cmds_def)
  have "client_at ?s a = Some c" using assms(1) by (simp add: same_but_log_client_at [OF auth_cmds_same(2)])
  then have "client_at (snd (auth_change_state env a (FW_MARK_PREAUTHENTICATED s) reason s)) a
      = Some ((fst (reset_client env c ?s))\<lparr>fw_connection_state := FW_MARK_PREAUTHENTICATED s\<rparr>)"
    by (simp add: e client_at_update client_reset_at)
  then show thesis by (rule that [rotated]) (simp_all add: reset_client_eq e)
qed

lemma block_client_deleted:
  assumes "client_at s a = Some c" and "fw_connection_state c = FW_MARK_AUTHENTICATED s"
    and "FW_MARK_PREAUTHENTICATED s \<noteq> FW_MARK_AUTHENTICATED s" "FW_MARK_BLOCKED s \<noteq> FW_MARK_AUTHENTICATED s"
    and "FW_MARK_BLOCKED s \<noteq> FW_MARK_PREAUTHENTICATED s"
  shows "client_at (snd (auth_change_state env a (FW_MARK_BLOCKED s) reason s)) a = None"
  using assms by (simp add: auth_change_state_def Let_def delete_client_at)

lemma auth_change_state_refused:
  assumes "client_at s a = Some c" and "fw_connection_state c \<noteq> FW_MARK_AUTHENTICATED s"
    and "st \<noteq> FW_MARK_AUTHENTICATED s"
  shows "auth_change_state env a st reason s = (-1, s)"
  using assms by (simp add: auth_change_state_def Let_def)

section \<open>Visiting every client\<close>

text \<open>What holds of a client after its visit holds of all clients after visiting all of them.\<close>

lemma fold_visit_other:
  assumes "\<And>a b s. b \<noteq> a \<Longrightarrow> client_at (visit a s) b = client_at s b"
  shows "b \<notin> set as \<Longrightarrow> client_at (fold visit as s) b = client_at s b"
  by (induction as arbitrary: s) (simp_all add: assms)

lemma fold_visit_all:
  assumes loc: "\<And>a b s. b \<noteq> a \<Longrightarrow> client_at (visit a s) b = client_at s b"
    and keep: "\<And>a s. J s \<Longrightarrow> J (visit a s)"
    and fin: "\<And>a s c. J s \<Longrightarrow> client_at (visit a s) a = Some c \<Longrightarrow> P c"
  shows "J s \<Longrightarrow> distinct as \<Longrightarrow> a \<in> set as \<Longrightarrow> client_at (fold visit as s) a = Some c \<Longrightarrow> P c"
proof (induction as arbitrary: s)
  case (Cons b as)
  show ?case
  proof (cases "a = b")
    case True
    with Cons.prems(2,4) have "client_at (visit b s) a = Some c"
      using fold_visit_other [of visit a as "visit b s", OF loc] by simp
    with True fin Cons.prems(1) show ?thesis by blast
  next
    case False
    with Cons.IH [of "visit b s"] Cons.prems keep show ?thesis by simp
  qed
qed simp

lemma fold_visit_clients:
  assumes "\<And>a b s. b \<noteq> a \<Longrightarrow> client_at (visit a s) b = client_at s b" and "\<And>a s. J s \<Longrightarrow> J (visit a s)"
    and "\<And>a s c. J s \<Longrightarrow> client_at (visit a s) a = Some c \<Longrightarrow> P c"
    and "J s" and "distinct (addrs s)" and "client_at (fold visit (addrs s) s) a = Some c"
  shows "P c"
proof (cases "a \<in> set (addrs s)")
  case True
  show ?thesis
    by (rule fold_visit_all [where visit = visit and J = J and as = "addrs s" and s = s and a = a])
      (fact assms True)+
next
  case False
  have "client_at (fold visit (addrs s) s) a = client_at s a"
    by (rule fold_visit_other) (fact assms False)+
  with False assms(6) show ?thesis using client_at_None [of s a] by simp
qed

lemma refresh_client_local: "b \<noteq> a \<Longrightarrow> client_at (refresh_client env now a s) b = client_at s b"
  by (rule refresh_client_cases [of env now a s]) (simp_all add: auth_change_state_local delete_client_at)

lemma refresh_client_globals: "globals (refresh_client env now a s) = globals s"
  by (rule refresh_client_cases [of env now a s]) (simp_all add: auth_change_state_globals)

lemma shutdown_client_local: "b \<noteq> a \<Longrightarrow> client_at (shutdown_client env a s) b = client_at s b"
  by (simp add: shutdown_client_def auth_change_state_local)

lemma shutdown_client_globals: "globals (shutdown_client env a s) = globals s"
  by (simp add: shutdown_client_def auth_change_state_globals)

lemma shutdown_client_done:
  assumes "marks_distinct s" and "client_at (shutdown_client env a s) a = Some c"
  shows "fw_connection_state c \<noteq> FW_MARK_AUTHENTICATED s"
proof (cases "client_at s a")
  case None
  then show ?thesis using assms(2) by (simp add: shutdown_client_def auth_change_state_def)
next
  case (Some c0)
  have m: "FW_MARK_PREAUTHENTICATED s \<noteq> FW_MARK_AUTHENTICATED s" using assms(1) by (simp add: marks_distinct_def)
  show ?thesis
  proof (cases "fw_connection_state c0 = FW_MARK_AUTHENTICATED s")
    case True
    from deauth_client_at [OF Some True m, of env "Some ''shutdown_deauth''"] assms(2) m show ?thesis
      by (metis option.inject shutdown_client_def)
  next
    case False
    then show ?thesis using assms(2) Some m auth_change_state_refused [OF Some False, of "FW_MARK_PREAUTHENTICATED s"]
      by (simp add: shutdown_client_def)
  qed
qed

text \<open>The ended sessions: of the clients the code forces out, none is left authenticated.\<close>

definition session_over :: "int \<Rightarrow> t_client \<Rightarrow> bool" where
  "session_over now c \<longleftrightarrow> session_end c > 0 \<and> session_end c \<le> now"

lemma expired_client_leaves:
  assumes m: "marks_distinct s" "FW_MARK_BLOCKED s \<noteq> FW_MARK_PREAUTHENTICATED s"
    and at: "client_at s a = Some c0" and over: "session_over now c0"
    and c: "client_at (refresh_client env now a s) a = Some c"
  shows "fw_connection_state c \<noteq> FW_MARK_AUTHENTICATED s"
proof -
  note m' = m(1) [unfolded marks_distinct_def]
  have r: "refresh_client env now a s =
      (if session_timeout_block (config s) > 0
       then snd (auth_change_state env a (FW_MARK_BLOCKED s) (Some ''timeout_deauth_block'') s)
       else snd (auth_change_state env a (FW_MARK_PREAUTHENTICATED s) (Some ''timeout_deauth'') s))"
    using over by (simp add: refresh_client_def at session_over_def Let_def)
  show ?thesis
  proof (cases "fw_connection_state c0 = FW_MARK_AUTHENTICATED s")
    case A: True
    have "client_at (snd (auth_change_state env a (FW_MARK_BLOCKED s) (Some ''timeout_deauth_block'') s)) a = None"
      using block_client_deleted [OF at A] m' m(2) by simp
    moreover obtain c' where
      "client_at (snd (auth_change_state env a (FW_MARK_PREAUTHENTICATED s) (Some ''timeout_deauth'') s)) a = Some c'"
      "fw_connection_state c' = FW_MARK_PREAUTHENTICATED s"
      using m' by (rule_tac deauth_client_at [OF at A, of env "Some ''timeout_deauth''"]) auto
    ultimately show ?thesis using c m' by (simp add: r split: if_split_asm)
  next
    case False
    then show ?thesis using auth_change_state_refused [OF at False] m' c at by (simp add: r split: if_split_asm)
  qed
qed

lemma auth_change_state_session:
  assumes "client_at s a = Some c0" and "client_at (snd (auth_change_state env a st reason s)) a = Some c"
    and "session_over now c"
  shows "session_over now c0"
proof (rule auth_change_state_cases [of env a st reason s])
  fix d assume "client_at s a = Some d"
    "auth_change_state env a st reason s = (0, update_client a (\<lambda>c. c\<lparr>fw_connection_state := st\<rparr>)
       (client_reset env a (deauth_cmds env d reason s)))"
  then have "client_at (deauth_cmds env d reason s) a = Some d"
    "c = (fst (reset_client env d (deauth_cmds env d reason s)))\<lparr>fw_connection_state := st\<rparr>"
    using assms(2) by (auto simp: same_but_log_client_at [OF auth_cmds_same(2)] client_at_update client_reset_at)
  then show ?thesis using assms(3) by (simp add: reset_client_eq session_over_def)
qed (use assms in \<open>auto simp: client_at_update delete_client_at
      same_but_log_client_at [OF auth_cmds_same(1)] session_over_def\<close>)

lemma refresh_client_done:
  assumes m: "marks_distinct s" "FW_MARK_BLOCKED s \<noteq> FW_MARK_PREAUTHENTICATED s"
    and c: "client_at (refresh_client env now a s) a = Some c" and st: "fw_connection_state c = FW_MARK_AUTHENTICATED s"
  shows "\<not> session_over now c"
proof (cases "client_at s a")
  case None
  then show ?thesis using c by (simp add: refresh_client_def)
next
  case (Some c0)
  with expired_client_leaves [OF m Some _ c] st have "\<not> session_over now c0" by blast
  then show ?thesis
    using c Some auth_change_state_session [OF Some]
    by (rule_tac refresh_client_cases [of env now a s]) (auto simp: delete_client_at)
qed

section \<open>The loops\<close>

lemma counters_update_frame:
  "same_clients s (snd (iptables_fw_counters_update env s))
   \<and> globals (snd (iptables_fw_counters_update env s)) = globals s"
proof -
  let ?I = "\<lambda>s'. same_clients s s' \<and> globals s' = globals s"
  have upd: "?I s' \<Longrightarrow> ?I (update_outgoing env ip n s')" "?I s' \<Longrightarrow> ?I (update_incoming ip n s')" for ip n s'
    using same_clients_trans [of s s'] by (simp_all add: update_counters_frame)
  have pop: "?I s' \<Longrightarrow> ?I (snd (popen_read env cmd s'))" for cmd s'
    using same_clients_trans [of s s', OF _ same_but_log_clients [OF popen_same]]
      same_but_log_globals [OF popen_same]
    by (simp add: popen_read_def case_prod_beta)
  show ?thesis by (rule counters_update_rule [of ?I, OF _ pop upd]) simp_all
qed

text \<open>
  The periodic check, when the counters could be read: a pass over the list, for which \<open>s1\<close> has
  the same clients as \<open>s\<close> up to their counters.
\<close>

lemma fw_refresh_walk:
  obtains (failed) "fst (iptables_fw_counters_update env (snd (c_time env s))) = -1"
      "\<exists>s1. fw_refresh_client_list env s = Some s1 \<and> same_clients s s1"
  | (walked) s1 where "same_clients s s1" "globals s1 = globals s"
      "fw_refresh_client_list env s
        = client_walk (refresh_client env (time_of env (time_calls s))) (Suc (length (clients s1)))
            (client_get_first_client s1) s1"
proof -
  let ?s = "snd (c_time env s)" and ?s1 = "snd (iptables_fw_counters_update env (snd (c_time env s)))"
  have "same_clients s ?s" "globals ?s = globals s"
    by (simp_all add: c_time_def same_clients_def addrs_def keys_def ids_def)
  then have s1: "same_clients s ?s1" "globals ?s1 = globals s"
    using counters_update_frame [of ?s env] same_clients_trans by auto
  show thesis
  proof (cases "fst (iptables_fw_counters_update env ?s) = -1")
    case True
    then show thesis using s1
      by (intro failed) (simp_all add: fw_refresh_client_list_def c_time_def case_prod_beta)
  next
    case False
    then show thesis
      by (intro walked [OF s1]) (simp add: fw_refresh_client_list_def c_time_def case_prod_beta)
  qed
qed

section \<open>Properties\<close>

text \<open>C5. A state change succeeds exactly from Preauthenticated to Authenticated, from Authenticated to
  Preauthenticated and from Authenticated to Blocked; a refused one changes nothing, and one that
  succeeds changes no other client.\<close>

theorem auth_change_state_transitions:
  assumes "marks_distinct s" and "FW_MARK_BLOCKED s \<noteq> FW_MARK_PREAUTHENTICATED s" and "client_at s a = Some c"
  shows "(fst (auth_change_state env a st reason s) = 0 \<longleftrightarrow>
       fw_connection_state c = FW_MARK_PREAUTHENTICATED s \<and> st = FW_MARK_AUTHENTICATED s
       \<or> fw_connection_state c = FW_MARK_AUTHENTICATED s \<and> st = FW_MARK_PREAUTHENTICATED s
       \<or> fw_connection_state c = FW_MARK_AUTHENTICATED s \<and> st = FW_MARK_BLOCKED s)
    \<and> (fst (auth_change_state env a st reason s) \<noteq> 0 \<longrightarrow> auth_change_state env a st reason s = (-1, s))
    \<and> (\<forall>b. b \<noteq> a \<longrightarrow> client_at (snd (auth_change_state env a st reason s)) b = client_at s b)"
proof (intro conjI)
  show "fst (auth_change_state env a st reason s) = 0 \<longleftrightarrow>
       fw_connection_state c = FW_MARK_PREAUTHENTICATED s \<and> st = FW_MARK_AUTHENTICATED s
       \<or> fw_connection_state c = FW_MARK_AUTHENTICATED s \<and> st = FW_MARK_PREAUTHENTICATED s
       \<or> fw_connection_state c = FW_MARK_AUTHENTICATED s \<and> st = FW_MARK_BLOCKED s"
    using assms by (simp add: auth_change_state_def Let_def marks_distinct_def) metis
  show "fst (auth_change_state env a st reason s) \<noteq> 0 \<longrightarrow> auth_change_state env a st reason s = (-1, s)"
    by (rule auth_change_state_cases [of env a st reason s]) simp_all
qed (simp add: auth_change_state_local)

lemma fw_refresh_returns:
  assumes "cl_inv s"
  shows "\<exists>s'. fw_refresh_client_list env s = Some s' \<and> cl_inv s'"
proof (rule fw_refresh_walk [of env s])
  assume "\<exists>s1. fw_refresh_client_list env s = Some s1 \<and> same_clients s s1"
  then show ?thesis using assms same_clients_inv by blast
next
  fix s1 assume s1: "same_clients s s1" and e: "fw_refresh_client_list env s
    = client_walk (refresh_client env (time_of env (time_calls s))) (Suc (length (clients s1)))
        (client_get_first_client s1) s1"
  have inv: "cl_inv s1" using s1 assms by (simp add: same_clients_inv)
  then have "distinct (addrs s1)" by (simp add: cl_inv_def)
  from refresh.walk_all_total [OF this lessI] obtain s' where s': "fw_refresh_client_list env s = Some s'" using e by auto
  have "cl_inv (refresh_client env now a s)" if "cl_inv s" for now a s
    using that by (rule_tac refresh_client_cases [of env now a s]) (simp_all add: auth_change_state_inv delete_inv)
  from client_walk_invariant [OF s' [unfolded e] inv this] s' show ?thesis by blast
qed

text \<open>C17. The periodic check always returns, and never follows the pointer of a freed client, whatever
  it deletes on the way and even if two clients carry the same id; the list is well formed afterwards.\<close>

theorem fw_refresh_total:
  assumes "cl_inv s"
  shows "\<exists>s'. fw_refresh_client_list env s = Some s' \<and> cl_inv s'"
  by (rule fw_refresh_returns [OF assms])

lemma fw_refresh_fold:
  assumes "cl_inv s" and "ids_inv s" and "fst (iptables_fw_counters_update env (snd (c_time env s))) \<noteq> -1"
  shows "fw_refresh_client_list env s =
    Some (fold (refresh_client env (time_of env (time_calls s))) (addrs s)
      (snd (iptables_fw_counters_update env (snd (c_time env s)))))"
proof -
  let ?s = "snd (c_time env s)"
  let ?s1 = "snd (iptables_fw_counters_update env ?s)"
  have "same_clients s ?s" by (simp add: c_time_def same_clients_def addrs_def keys_def ids_def)
  then have s1: "same_clients s ?s1" using counters_update_frame [of ?s env] same_clients_trans by auto
  then have "distinct (addrs ?s1)" "distinct (ids ?s1)" and a: "addrs ?s1 = addrs s"
    using assms(1,2) by (simp_all add: same_clients_def cl_inv_def ids_inv_def)
  from refresh.walk_all_fold [OF this(1,2) lessI, of env "time_of env (time_calls s)"] assms(3) a show ?thesis
    by (simp add: fw_refresh_client_list_def c_time_def case_prod_beta)
qed

text \<open>C21. On a well-formed list with distinct ids, and when the counters can be read, the periodic check treats the clients
  one after the other in list order, each exactly once, although clients are deleted from the list during the pass.
  (When the counters cannot be read the check returns before the pass.)\<close>

theorem fw_refresh_visits_each:
  assumes "cl_inv s" and "ids_inv s" and "fst (iptables_fw_counters_update env (snd (c_time env s))) \<noteq> -1"
  shows "fw_refresh_client_list env s =
    Some (fold (refresh_client env (time_of env (time_calls s))) (addrs s)
      (snd (iptables_fw_counters_update env (snd (c_time env s)))))"
  by (rule fw_refresh_fold [OF assms])

lemma fold_visit_one:
  assumes loc: "\<And>a b s. b \<noteq> a \<Longrightarrow> client_at (visit a s) b = client_at s b" and keep: "\<And>a s. J s \<Longrightarrow> J (visit a s)"
  shows "J s \<Longrightarrow> distinct as \<Longrightarrow> a \<in> set as \<Longrightarrow>
    \<exists>s2. J s2 \<and> client_at s2 a = client_at s a \<and> client_at (fold visit as s) a = client_at (visit a s2) a"
proof (induction as arbitrary: s)
  case (Cons b as)
  show ?case
  proof (cases "a = b")
    case True
    then show ?thesis using Cons.prems fold_visit_other [of visit a as "visit b s", OF loc] by auto
  next
    case False
    with Cons.IH [of "visit b s"] Cons.prems keep loc [OF False] show ?thesis by auto
  qed
qed simp

text \<open>The test for an idle client, for the timeout of its state in minutes.\<close>

definition idle :: "int \<Rightarrow> int \<Rightarrow> t_client \<Rightarrow> bool" where
  "idle minutes now c \<longleftrightarrow>
     0 < to_int32 (60 * minutes) \<and> last_updated (counters c) + to_int32 (60 * minutes) \<le> now"

lemma refresh_client_idle:
  assumes "client_at s a = Some c" and "session_end c \<le> 0" and "session_limit_block (config s) \<le> 0"
    and "FW_MARK_PREAUTHENTICATED s \<noteq> FW_MARK_AUTHENTICATED s"
  shows "fw_connection_state c = FW_MARK_PREAUTHENTICATED s \<Longrightarrow>
      client_at (refresh_client env now a s) a = (if idle (preauth_idle_timeout (config s)) now c then None else Some c)"
    and "fw_connection_state c = FW_MARK_AUTHENTICATED s \<Longrightarrow> \<not> idle (auth_idle_timeout (config s)) now c \<Longrightarrow>
      client_at (refresh_client env now a s) a = Some c"
    and "fw_connection_state c = FW_MARK_AUTHENTICATED s \<Longrightarrow> idle (auth_idle_timeout (config s)) now c \<Longrightarrow>
      \<exists>c'. client_at (refresh_client env now a s) a = Some c' \<and> fw_connection_state c' = FW_MARK_PREAUTHENTICATED s
        \<and> cl_mac c' = cl_mac c \<and> cl_ip c' = cl_ip c"
  using assms deauth_client_at [OF assms(1) _ assms(4), of env "Some ''idle_deauth''"]
  by (auto simp: refresh_client_def Let_def idle_def delete_client_at)

lemma fw_refresh_one:
  assumes "cl_inv s" and "ids_inv s" and "fst (iptables_fw_counters_update env (snd (c_time env s))) \<noteq> -1"
    and "client_at (snd (iptables_fw_counters_update env (snd (c_time env s)))) a = Some c"
  obtains s' s2 where "fw_refresh_client_list env s = Some s'" "globals s2 = globals s" "client_at s2 a = Some c"
    "client_at s' a = client_at (refresh_client env (time_of env (time_calls s)) a s2) a"
proof -
  let ?s1 = "snd (iptables_fw_counters_update env (snd (c_time env s)))"
  have s1: "same_clients (snd (c_time env s)) ?s1" "globals ?s1 = globals s"
    using counters_update_frame [of "snd (c_time env s)" env] by (simp_all add: c_time_def)
  then have ad: "addrs ?s1 = addrs s" by (simp add: same_clients_def c_time_def addrs_def)
  with assms(4) have a: "a \<in> set (addrs s)" using client_at_None [of ?s1 a] by force
  have d: "distinct (addrs s)" using assms(1) by (simp add: cl_inv_def)
  have "\<exists>s2. globals s2 = globals s \<and> client_at s2 a = client_at ?s1 a
      \<and> client_at (fold (refresh_client env (time_of env (time_calls s))) (addrs s) ?s1) a
        = client_at (refresh_client env (time_of env (time_calls s)) a s2) a"
    by (rule fold_visit_one [where J = "\<lambda>s2. globals s2 = globals s"])
      (simp_all add: refresh_client_local refresh_client_globals s1 d a)
  with fw_refresh_fold [OF assms(1-3)] assms(4) show thesis by (auto intro: that)
qed


text \<open>C7. After the periodic check no client is authenticated whose session has ended by the time the
  check started, provided that the check could read the traffic counters (otherwise it returns without ending any
  session), that no two clients have the same id (a client behind another one with the same id is not visited,
  \<open>duplicate_id_not_visited\<close>), that the list is well formed and the firewall marks are distinct.\<close>

theorem fw_refresh_ends_sessions:
  assumes "cl_inv s" and "ids_inv s" and "marks_distinct s" and "FW_MARK_BLOCKED s \<noteq> FW_MARK_PREAUTHENTICATED s"
    and "fst (iptables_fw_counters_update env (snd (c_time env s))) \<noteq> -1"
    and "fw_refresh_client_list env s = Some s'"
    and "client_at s' a = Some c" and "fw_connection_state c = FW_MARK_AUTHENTICATED s"
  shows "session_end c \<le> 0 \<or> session_end c > time_of env (time_calls s)"
proof -
  let ?now = "time_of env (time_calls s)"
  obtain s1 where s1: "same_clients s s1" "globals s1 = globals s" "fw_refresh_client_list env s
      = client_walk (refresh_client env ?now) (Suc (length (clients s1))) (client_get_first_client s1) s1"
    using assms(5) by (rule_tac fw_refresh_walk [of env s]) auto
  have "distinct (addrs s1)" "distinct (ids s1)"
    using s1(1) assms(1,2) by (simp_all add: same_clients_def cl_inv_def ids_inv_def)
  with refresh.walk_all_fold [OF this lessI, of env ?now] s1(3) assms(6)
  have s': "s' = fold (refresh_client env ?now) (addrs s1) s1" by simp
  let ?J = "\<lambda>s1. globals s1 = globals s"
  have "fw_connection_state c = FW_MARK_AUTHENTICATED s \<longrightarrow> \<not> session_over ?now c"
  proof (rule fold_visit_clients [where visit = "refresh_client env ?now" and J = ?J and s = s1 and a = a])
    fix a s2 d assume g: "globals s2 = globals s" and d: "client_at (refresh_client env ?now a s2) a = Some d"
    have "marks_distinct s2" "FW_MARK_BLOCKED s2 \<noteq> FW_MARK_PREAUTHENTICATED s2"
      using assms(3,4) by (simp_all add: globals_inv [OF g] globals_fields [OF g])
    from refresh_client_done [OF this d]
    show "fw_connection_state d = FW_MARK_AUTHENTICATED s \<longrightarrow> \<not> session_over ?now d"
      by (simp add: globals_fields [OF g])
  qed (use s1 assms(7) \<open>distinct (addrs s1)\<close> in
      \<open>simp_all add: refresh_client_local refresh_client_globals s'\<close>)
  with assms(8) show ?thesis by (auto simp: session_over_def)
qed

lemma deauth_all_done:
  assumes "cl_inv s" and "ids_inv s" and "marks_distinct s"
  shows "\<exists>s'. auth_client_deauth_all env s = Some s' \<and>
    (\<forall>a c. client_at s' a = Some c \<longrightarrow> fw_connection_state c \<noteq> FW_MARK_AUTHENTICATED s)"
proof -
  have d: "distinct (addrs s)" "distinct (ids s)" using assms by (simp_all add: cl_inv_def ids_inv_def)
  let ?s' = "fold (shutdown_client env) (addrs s) s"
  have "auth_client_deauth_all env s = Some ?s'"
    using shutdown.walk_all_fold [OF d lessI] by (simp add: auth_client_deauth_all_def)
  moreover have "fw_connection_state c \<noteq> FW_MARK_AUTHENTICATED s" if "client_at ?s' a = Some c" for a c
  proof (rule fold_visit_clients [where visit = "shutdown_client env" and J = "\<lambda>s1. globals s1 = globals s"
        and s = s and a = a])
    fix a s2 d assume g: "globals s2 = globals s" and d: "client_at (shutdown_client env a s2) a = Some d"
    have "marks_distinct s2" using assms(3) by (simp add: globals_inv [OF g])
    from shutdown_client_done [OF this d] show "fw_connection_state d \<noteq> FW_MARK_AUTHENTICATED s"
      by (simp add: globals_fields [OF g])
  qed (use that d in \<open>simp_all add: shutdown_client_local shutdown_client_globals\<close>)
  ultimately show ?thesis by blast
qed

text \<open>C8. On a well-formed list in which no two clients have the same id, with distinct firewall marks, the loop at shutdown
  returns, and leaves no client authenticated. The ids are distinct as long as no client came from a state file; after
  an import two clients can share an id, and then the second one is left authenticated
  (\<open>duplicate_id_not_visited\<close>).\<close>

theorem deauth_all_complete:
  assumes "cl_inv s" and "ids_inv s" and "marks_distinct s"
  shows "\<exists>s'. auth_client_deauth_all env s = Some s' \<and>
    (\<forall>a c. client_at s' a = Some c \<longrightarrow> fw_connection_state c \<noteq> FW_MARK_AUTHENTICATED s)"
  by (rule deauth_all_done [OF assms])

section \<open>Witnesses\<close>

text \<open>A gateway with one authenticated client, whose session ends at the given time.\<close>

definition sample_marks :: nds where
  "sample_marks = (nds_start config_init)\<lparr>FW_MARK_BLOCKED := 0x10000, FW_MARK_TRUSTED := 0x20000,
     FW_MARK_AUTHENTICATED := 0x30000\<rparr>"

definition sample_client :: "int \<Rightarrow> nds" where
  "sample_client e = sample_marks\<lparr>clients := [(1, (blank_client ''00:11:22:33:44:55'' ''10.0.0.2'')
     \<lparr>fw_connection_state := 0x30000, session_end := e, cl_id := 1,
       counters := \<lparr>incoming = 5, outgoing = 5, last_updated = 1000\<rparr>\<rparr>)],
     client_count := 1, client_id := 2, next_addr := 2\<rparr>"

text \<open>A gateway with one preauthenticated client, last seen at the given time.\<close>

definition sample_idle :: "int \<Rightarrow> nds" where
  "sample_idle t = sample_marks\<lparr>clients := [(1, (blank_client ''00:11:22:33:44:55'' ''10.0.0.2'')
     \<lparr>cl_id := 1, counters := \<lparr>incoming = 0, outgoing = 0, last_updated = t\<rparr>\<rparr>)],
     client_count := 1, client_id := 2, next_addr := 2\<rparr>"

text \<open>
  Two clients with the same id, as an import from a state file can produce them, both in the given state and with
  a session that ended at 500.
\<close>

definition same_id_client :: "string \<Rightarrow> string \<Rightarrow> string \<Rightarrow> 32 word \<Rightarrow> t_client" where
  "same_id_client mac ip tok st = (blank_client mac ip)\<lparr>cl_token := tok, fw_connection_state := st, session_end := 500, cl_id := 2,
     counters := \<lparr>incoming = 5, outgoing = 5, last_updated = 1000\<rparr>\<rparr>"

definition same_id :: "32 word \<Rightarrow> nds" where
  "same_id st = sample_marks\<lparr>clients :=
     [(1, same_id_client ''00:11:22:33:44:55'' ''10.0.0.2'' ''abc'' st), (2, same_id_client ''00:11:22:33:44:66'' ''10.0.0.3'' ''xyz'' st)],
     client_count := 2, client_id := 3, next_addr := 3\<rparr>"

text \<open>
  The loops look every client up again by its id before they treat it. With two clients of one id on an otherwise
  well-formed list the first one is treated twice and the second one never: it stays authenticated at a shutdown, and
  after the end of its session.
\<close>

theorem duplicate_id_not_visited:
  "cl_inv (same_id 0x30000) \<and> marks_distinct (same_id 0x30000)
   \<and> map_option (\<lambda>s'. map (\<lambda>(a, c). (a, fw_connection_state c)) (clients s')) (auth_client_deauth_all sample_env (same_id 0x30000))
     = Some [(1, 0), (2, 0x30000)]
   \<and> map_option (\<lambda>s'. map (\<lambda>(a, c). (a, fw_connection_state c)) (clients s')) (fw_refresh_client_list sample_env (same_id 0x30000))
     = Some [(1, 0), (2, 0x30000)]"
  by code_simp

theorem auth_change_state_transitions_witness:
  "fst (auth_change_state sample_env 1 0 None (sample_client 0)) = 0"
proof -
  obtain c where c: "client_at (sample_client 0) 1 = Some c"
    by (cases "client_at (sample_client 0) 1") (use client_at_None [of "sample_client 0" 1] in code_simp)
  have "map_option fw_connection_state (client_at (sample_client 0) 1) = Some 0x30000" by code_simp
  with c have "fw_connection_state c = 0x30000" by simp
  moreover have "marks_distinct (sample_client 0)" "FW_MARK_BLOCKED (sample_client 0) \<noteq> FW_MARK_PREAUTHENTICATED (sample_client 0)"
    "FW_MARK_AUTHENTICATED (sample_client 0) = 0x30000" "FW_MARK_PREAUTHENTICATED (sample_client 0) = 0"
    by code_simp+
  ultimately show ?thesis using auth_change_state_transitions [OF _ _ c, of sample_env 0 None] by simp
qed

theorem fw_refresh_total_witness:
  "\<exists>s'. fw_refresh_client_list sample_env (sample_client 500) = Some s' \<and> cl_inv s'"
  by (rule fw_refresh_total) code_simp

theorem fw_refresh_visits_each_witness:
  "fw_refresh_client_list sample_env (sample_client 500) =
    Some (fold (refresh_client sample_env (time_of sample_env (time_calls (sample_client 500)))) (addrs (sample_client 500))
      (snd (iptables_fw_counters_update sample_env (snd (c_time sample_env (sample_client 500))))))"
  by (rule fw_refresh_visits_each) code_simp+

theorem fw_refresh_ends_sessions_witness:
  "session_end (the (client_at (the (fw_refresh_client_list sample_env (sample_client 5000))) 1)) > 1000"
proof -
  let ?s = "sample_client 5000"
  let ?s' = "the (fw_refresh_client_list sample_env ?s)"
  let ?c = "the (client_at ?s' 1)"
  have "map_option (\<lambda>c. (fw_connection_state c, session_end c)) (client_at ?s' 1) = Some (0x30000, 5000)" by code_simp
  then have c: "client_at ?s' 1 = Some ?c" "fw_connection_state ?c = 0x30000" "session_end ?c = 5000" by auto
  have "\<not> Option.is_none (fw_refresh_client_list sample_env ?s)" by code_simp
  then have "fw_refresh_client_list sample_env ?s = Some ?s'" by (simp add: Option.is_none_def)
  moreover have "cl_inv ?s" by code_simp
  moreover have "ids_inv ?s" by code_simp
  moreover have "marks_distinct ?s" by code_simp
  moreover have "FW_MARK_BLOCKED ?s \<noteq> FW_MARK_PREAUTHENTICATED ?s" by code_simp
  moreover have "fst (iptables_fw_counters_update sample_env (snd (c_time sample_env ?s))) \<noteq> -1" by code_simp
  moreover have "FW_MARK_AUTHENTICATED ?s = 0x30000" by code_simp
  moreover have "time_calls ?s = 0" by code_simp
  then have "time_of sample_env (time_calls ?s) = 1000" by (simp add: sample_env_def)
  ultimately show ?thesis using fw_refresh_ends_sessions [of ?s sample_env ?s' 1 ?c] c by simp
qed


theorem deauth_all_complete_witness:
  "\<exists>s'. auth_client_deauth_all sample_env (sample_client 0) = Some s' \<and>
    (\<forall>a c. client_at s' a = Some c \<longrightarrow> fw_connection_state c \<noteq> FW_MARK_AUTHENTICATED (sample_client 0))"
  by (rule deauth_all_complete) code_simp+

end
