(* ===== verification/Locks.thy ===== *)
theory Locks
  imports Auth_Sessions
begin

text \<open>
  The two mutexes of the program, \<open>client_list_mutex\<close> and \<open>config_mutex\<close>, and the threads that take them. For every
  function that locks, a definition gives the sequence of its lock operations, \<open>LOCK_CLIENT_LIST\<close>, \<open>LOCK_CONFIG\<close> and
  their counterparts, as a function of the branches that it takes. A thread is the sequence of its jobs. The theory
  shows that the threads cannot block each other for ever, and that a signal can block the program.
\<close>

section \<open>The lock operations of the code\<close>

datatype mutex = client_list_mutex | config_mutex
datatype action = Lock mutex | Unlock mutex

abbreviation (input) with_config :: "action list" where
  "with_config \<equiv> [Lock config_mutex, Unlock config_mutex]"

abbreviation (input) with_clients :: "action list \<Rightarrow> action list" where
  "with_clients inner \<equiv> [Lock client_list_mutex] @ inner @ [Unlock client_list_mutex]"

text \<open>
  \<open>auth_change_state\<close>: \<open>iptables_fw_authenticate\<close> and \<open>iptables_fw_deauthenticate\<close> read the limits under the
  lock of the configuration, and \<open>auth_client_block\<close> changes the list of blocked MACs under it.
\<close>

datatype change = Refused | Authenticates | Deauthenticates | Blocks

definition iptables_fw_authenticate_locks :: "action list" where
  "iptables_fw_authenticate_locks = with_config"

definition iptables_fw_deauthenticate_locks :: "action list" where
  "iptables_fw_deauthenticate_locks = with_config"

definition auth_client_block_locks :: "action list" where
  "auth_client_block_locks = with_config"

fun auth_change_state_locks :: "change \<Rightarrow> action list" where
  "auth_change_state_locks Refused = []"
| "auth_change_state_locks Authenticates = iptables_fw_authenticate_locks"
| "auth_change_state_locks Deauthenticates = iptables_fw_deauthenticate_locks"
| "auth_change_state_locks Blocks = iptables_fw_deauthenticate_locks @ auth_client_block_locks"

text \<open>The branch that a state change takes.\<close>

definition change_of :: "addr \<Rightarrow> 32 word \<Rightarrow> nds \<Rightarrow> change" where
  "change_of a new_state s =
     (case client_at s a of
        None \<Rightarrow> Refused
      | Some c \<Rightarrow>
          if fw_connection_state c = new_state then Refused
          else if fw_connection_state c = FW_MARK_PREAUTHENTICATED s then
            (if new_state = FW_MARK_AUTHENTICATED s then Authenticates else Refused)
          else if fw_connection_state c = FW_MARK_AUTHENTICATED s then
            (if new_state = FW_MARK_PREAUTHENTICATED s then Deauthenticates
             else if new_state = FW_MARK_BLOCKED s then Blocks else Refused)
          else Refused)"

lemma change_of_refused: "change_of a st s = Refused \<longleftrightarrow> fst (auth_change_state env a st reason s) \<noteq> 0"
  by (auto simp: change_of_def auth_change_state_def Let_def split: option.split)

definition iptables_fw_counters_update_locks :: "action list" where
  "iptables_fw_counters_update_locks = with_clients []"

text \<open>\<open>counted\<close>: the counters could be read; \<open>ks\<close>: what happens to each client in turn.\<close>

definition fw_refresh_client_list_locks :: "bool \<Rightarrow> change list \<Rightarrow> action list" where
  "fw_refresh_client_list_locks counted ks =
     iptables_fw_counters_update_locks
     @ (if counted then with_clients (concat (map auth_change_state_locks ks)) else [])"

definition auth_client_deauth_locks :: "change \<Rightarrow> action list" where
  "auth_client_deauth_locks k = with_clients (auth_change_state_locks k)"

definition auth_client_auth_locks :: "change \<Rightarrow> action list" where
  "auth_client_auth_locks k = with_clients (auth_change_state_locks k)"

definition auth_client_deauth_all_locks :: "change list \<Rightarrow> action list" where
  "auth_client_deauth_all_locks ks = with_clients (concat (map auth_change_state_locks ks))"

definition iptables_fw_destroy_locks :: "action list" where
  "iptables_fw_destroy_locks = with_config"

definition iptables_fw_init_locks :: "action list" where
  "iptables_fw_init_locks = with_config"

text \<open>
  A web request: the search for the client takes no lock. \<open>new\<close>: the client is added; then it may be
  authenticated or deauthenticated.
\<close>

definition libmicrohttpd_cb_locks :: "bool \<Rightarrow> change option \<Rightarrow> action list" where
  "libmicrohttpd_cb_locks new k =
     (if new then with_clients [] else []) @ (case k of None \<Rightarrow> [] | Some k \<Rightarrow> auth_client_auth_locks k)"

definition ndsctl_auth_locks :: "change option \<Rightarrow> action list" where
  "ndsctl_auth_locks k = with_clients (case k of None \<Rightarrow> [] | Some k \<Rightarrow> auth_change_state_locks k)"

definition ndsctl_deauth_locks :: "change option \<Rightarrow> action list" where
  "ndsctl_deauth_locks k = with_clients [] @ (case k of None \<Rightarrow> [] | Some k \<Rightarrow> auth_client_deauth_locks k)"

definition ndsctl_status_locks :: "action list" where
  "ndsctl_status_locks = iptables_fw_counters_update_locks @ with_clients []"

definition ndsctl_debuglevel_locks :: "action list" where
  "ndsctl_debuglevel_locks = with_config"

text \<open>\<open>ready\<close>: the JSON objects could be made, or the file be read, so that the list is looked at.\<close>

definition state_file_export_locks :: "bool \<Rightarrow> action list" where
  "state_file_export_locks ready = (if ready then with_clients [] else [])"

definition state_file_import_locks :: "bool \<Rightarrow> change list \<Rightarrow> action list" where
  "state_file_import_locks ready ks =
     (if ready then with_clients (concat (map auth_change_state_locks ks)) else [])"

text \<open>\<open>export\<close>: a state file is configured and \<open>ready\<close>.\<close>

definition termination_handler_locks :: "bool \<Rightarrow> change list \<Rightarrow> action list" where
  "termination_handler_locks export ks =
     state_file_export_locks export @ auth_client_deauth_all_locks ks @ iptables_fw_destroy_locks"

text \<open>
  What the threads do: the jobs of the start, the web server, the control thread, the check and the end.
  \<open>Mac_command\<close> stands for the six commands on the MAC lists, which all lock like \<open>auth_client_block\<close>.
\<close>

datatype job =
    Fw_destroy
  | Fw_init
  | Import bool "change list"
  | Web bool "change option"
  | Auth_command "change option"
  | Deauth_command "change option"
  | Mac_command
  | Report
  | Debuglevel
  | Check bool "change list"
  | Terminate bool "change list"

fun job_locks :: "job \<Rightarrow> action list" where
  "job_locks Fw_destroy = iptables_fw_destroy_locks"
| "job_locks Fw_init = iptables_fw_init_locks"
| "job_locks (Import ready ks) = state_file_import_locks ready ks"
| "job_locks (Web new k) = libmicrohttpd_cb_locks new k"
| "job_locks (Auth_command k) = ndsctl_auth_locks k"
| "job_locks (Deauth_command k) = ndsctl_deauth_locks k"
| "job_locks Mac_command = auth_client_block_locks"
| "job_locks Report = ndsctl_status_locks"
| "job_locks Debuglevel = ndsctl_debuglevel_locks"
| "job_locks (Check counted ks) = fw_refresh_client_list_locks counted ks"
| "job_locks (Terminate export ks) = termination_handler_locks export ks"

lemmas lock_defs = iptables_fw_authenticate_locks_def iptables_fw_deauthenticate_locks_def auth_client_block_locks_def
  iptables_fw_counters_update_locks_def fw_refresh_client_list_locks_def auth_client_deauth_locks_def
  auth_client_auth_locks_def auth_client_deauth_all_locks_def iptables_fw_destroy_locks_def iptables_fw_init_locks_def
  libmicrohttpd_cb_locks_def ndsctl_auth_locks_def ndsctl_deauth_locks_def ndsctl_status_locks_def
  ndsctl_debuglevel_locks_def state_file_export_locks_def state_file_import_locks_def termination_handler_locks_def

section \<open>Threads\<close>

text \<open>What each thread still has to do, and who holds which mutex.\<close>

record threads =
  todo :: "action list list"
  owner :: "mutex \<Rightarrow> nat option"

inductive lock_step :: "threads \<Rightarrow> threads \<Rightarrow> bool" where
  acquire: "i < length (todo t) \<Longrightarrow> todo t ! i = Lock m # p \<Longrightarrow> owner t m = None \<Longrightarrow>
     lock_step t \<lparr>todo = (todo t)[i := p], owner = (owner t)(m := Some i)\<rparr>"
| release: "i < length (todo t) \<Longrightarrow> todo t ! i = Unlock m # p \<Longrightarrow> owner t m = Some i \<Longrightarrow>
     lock_step t \<lparr>todo = (todo t)[i := p], owner = (owner t)(m := None)\<rparr>"

inductive_cases lock_stepE: "lock_step t t'"

text \<open>The same as a function: the next step of thread \<open>i\<close>, and a run by a schedule.\<close>

fun lock_step_of :: "nat \<Rightarrow> threads \<Rightarrow> threads option" where
  "lock_step_of i t =
     (if i < length (todo t) then
        (case todo t ! i of
           Lock m # p \<Rightarrow>
             if owner t m = None then Some \<lparr>todo = (todo t)[i := p], owner = (owner t)(m := Some i)\<rparr> else None
         | Unlock m # p \<Rightarrow>
             if owner t m = Some i then Some \<lparr>todo = (todo t)[i := p], owner = (owner t)(m := None)\<rparr> else None
         | [] \<Rightarrow> None)
      else None)"

lemma lock_step_of: "lock_step_of i t = Some t' \<Longrightarrow> lock_step t t'"
  using lock_step.intros [of i t]
  by (cases "todo t ! i") (auto split: if_splits action.splits)

fun run_schedule :: "nat list \<Rightarrow> threads \<Rightarrow> threads option" where
  "run_schedule [] t = Some t"
| "run_schedule (i # is) t = (case lock_step_of i t of None \<Rightarrow> None | Some t' \<Rightarrow> run_schedule is t')"

lemma run_schedule_steps: "run_schedule is t = Some t' \<Longrightarrow> (lock_step ^^ length is) t t'"
proof (induction "is" t rule: run_schedule.induct)
  case (2 i "is" t)
  then show ?case by (auto simp del: lock_step_of.simps relpowp.simps intro: lock_step_of relpowp_Suc_I2 split: option.splits)
qed simp

definition start_threads_on :: "job list list \<Rightarrow> threads" where
  "start_threads_on jobs = \<lparr>todo = map (\<lambda>js. concat (map job_locks js)) jobs, owner = (\<lambda>m. None)\<rparr>"

section \<open>The discipline\<close>

text \<open>
  Mutexes are released in the reverse order, and \<open>config_mutex\<close> may be taken while \<open>client_list_mutex\<close> is held,
  but no other while one is held.
\<close>

fun disciplined :: "mutex list \<Rightarrow> action list \<Rightarrow> bool" where
  "disciplined held [] \<longleftrightarrow> held = []"
| "disciplined held (Lock m # p) \<longleftrightarrow> (held = [] \<or> held = [client_list_mutex] \<and> m = config_mutex) \<and> disciplined (m # held) p"
| "disciplined held (Unlock m # p) \<longleftrightarrow> held \<noteq> [] \<and> hd held = m \<and> disciplined (tl held) p"

lemma disciplined_append: "disciplined held p \<Longrightarrow> disciplined [] q \<Longrightarrow> disciplined held (p @ q)"
  by (induction held p rule: disciplined.induct) auto

lemma change_disciplined: "disciplined [client_list_mutex] (auth_change_state_locks k @ p) \<longleftrightarrow> disciplined [client_list_mutex] p"
  by (cases k) (simp_all add: lock_defs)

lemma changes_disciplined:
  "disciplined [client_list_mutex] (concat (map auth_change_state_locks ks) @ p) \<longleftrightarrow> disciplined [client_list_mutex] p"
  by (induction ks) (simp_all add: change_disciplined)

lemma job_disciplined: "disciplined [] (job_locks j)"
  by (cases j)
    (auto simp: lock_defs changes_disciplined change_disciplined intro!: disciplined_append split: option.split)

lemma jobs_disciplined: "disciplined [] (concat (map job_locks js))"
  by (induction js) (simp_all add: disciplined_append job_disciplined)

section \<open>No deadlock between threads\<close>

text \<open>What a thread can hold, and the invariant: \<open>h\<close> gives the mutexes that each thread holds, the last one first.\<close>

abbreviation orders :: "mutex list set" where
  "orders \<equiv> {[], [client_list_mutex], [config_mutex], [config_mutex, client_list_mutex]}"

definition holding :: "(nat \<Rightarrow> mutex list) \<Rightarrow> threads \<Rightarrow> bool" where
  "holding h t \<longleftrightarrow>
     (\<forall>i < length (todo t). disciplined (h i) (todo t ! i) \<and> h i \<in> orders)
     \<and> (\<forall>m i. owner t m = Some i \<longleftrightarrow> i < length (todo t) \<and> m \<in> set (h i))"

lemma holding_start: "holding (\<lambda>i. []) (start_threads_on jobs)"
  by (simp add: holding_def start_threads_on_def jobs_disciplined)

lemma holding_owner: "holding h t \<Longrightarrow> owner t m = Some i \<longleftrightarrow> i < length (todo t) \<and> m \<in> set (h i)"
  by (simp add: holding_def)

lemma holding_thread: "holding h t \<Longrightarrow> i < length (todo t) \<Longrightarrow> disciplined (h i) (todo t ! i) \<and> h i \<in> orders"
  by (simp add: holding_def)

lemma holding_update:
  assumes "holding h t" "i < length (todo t)" "disciplined hi p" "hi \<in> orders"
    and "\<And>k j. o' k = Some j \<longleftrightarrow> j < length (todo t) \<and> k \<in> set ((h(i := hi)) j)"
  shows "\<exists>h'. holding h' \<lparr>todo = (todo t)[i := p], owner = o'\<rparr>"
proof -
  have "holding (h(i := hi)) \<lparr>todo = (todo t)[i := p], owner = o'\<rparr>"
    using assms by (simp add: holding_def nth_list_update)
  then show ?thesis by blast
qed

lemma holding_step:
  assumes "lock_step t t'" and h: "holding h t"
  shows "\<exists>h'. holding h' t'"
  using assms(1)
proof cases
  case (acquire i m p)
  have d: "disciplined (m # h i) p" "m # h i \<in> orders"
    using holding_thread [OF h acquire(2)] acquire(3) by (cases m; auto)+
  have free: "m \<notin> set (h j)" if "j < length (todo t)" for j
    using that acquire(4) holding_owner [OF h, of m j] by simp
  show ?thesis unfolding acquire(1)
    by (rule holding_update [OF h acquire(2) d]) (use free holding_owner [OF h] acquire(2) in auto)
next
  case (release i m p)
  have d: "disciplined (tl (h i)) p" "tl (h i) \<in> orders" and tl: "set (tl (h i)) = set (h i) - {m}"
    using holding_thread [OF h release(2)] release(3) by auto
  have only: "m \<notin> set (h j)" if "j < length (todo t)" "j \<noteq> i" for j
    using that release(4) holding_owner [OF h, of m j] by simp
  show ?thesis unfolding release(1)
    by (rule holding_update [OF h release(2) d]) (use tl only holding_owner [OF h] release(2) in auto)
qed

lemma holding_reachable: "(lock_step ^^ n) (start_threads_on jobs) t \<Longrightarrow> \<exists>h. holding h t"
  by (induction n arbitrary: t) (auto intro: holding_start dest: holding_step)

definition pending :: "threads \<Rightarrow> nat" where
  "pending t = sum_list (map length (todo t))"

lemma pending_update:
  "i < length xs \<Longrightarrow> xs ! i = a # p \<Longrightarrow> sum_list (map length xs) = Suc (sum_list (map length (xs[i := p])))"
  by (induction xs arbitrary: i) (auto simp: nth_Cons' split: nat.split)

lemma pending_step: "lock_step t t' \<Longrightarrow> pending t = Suc (pending t')"
  by (erule lock_stepE) (simp_all add: pending_def pending_update)

lemma pending_steps: "(lock_step ^^ n) t t' \<Longrightarrow> pending t = n + pending t'"
  by (induction n arbitrary: t') (auto dest: pending_step)

lemma pending_zero: "pending t = 0 \<longleftrightarrow> (\<forall>i < length (todo t). todo t ! i = [])"
  by (auto simp: pending_def all_set_conv_all_nth)

lemma owner_free_none: "holding h t \<Longrightarrow> pending t = 0 \<Longrightarrow> owner t m = None"
proof (rule ccontr)
  assume h: "holding h t" and p: "pending t = 0" and "owner t m \<noteq> None"
  then obtain i where i: "i < length (todo t)" "m \<in> set (h i)" by (auto simp: holding_owner)
  with p have "todo t ! i = []" by (simp add: pending_zero)
  with holding_thread [OF h i(1)] i(2) show False by simp
qed

lemma holder_of_config_steps:
  assumes h: "holding h t" and "owner t config_mutex = Some i"
  shows "\<exists>t'. lock_step t t'"
proof -
  from assms have i: "i < length (todo t)" "config_mutex \<in> set (h i)" by (simp_all add: holding_owner)
  with holding_thread [OF h i(1)] obtain p where "todo t ! i = Unlock config_mutex # p"
    by (cases "(h i, todo t ! i)" rule: disciplined.cases) auto
  with i(1) assms(2) show ?thesis by (blast intro: lock_step.release)
qed

lemma holder_of_clients_steps:
  assumes h: "holding h t" and "owner t client_list_mutex = Some i" and "owner t config_mutex = None"
  shows "\<exists>t'. lock_step t t'"
proof -
  from assms have i: "i < length (todo t)" "client_list_mutex \<in> set (h i)" by (simp_all add: holding_owner)
  moreover from assms(3) i(1) have "config_mutex \<notin> set (h i)" using holding_owner [OF h, of config_mutex i] by simp
  ultimately obtain p where "todo t ! i = Unlock client_list_mutex # p \<or> todo t ! i = Lock config_mutex # p"
    using holding_thread [OF h i(1)] by (cases "(h i, todo t ! i)" rule: disciplined.cases) auto
  with i(1) assms(2, 3) show ?thesis by (blast intro: lock_step.intros)
qed

lemma some_thread_steps:
  assumes h: "holding h t" and "0 < pending t"
  shows "\<exists>t'. lock_step t t'"
proof (cases "owner t config_mutex")
  case None
  note config_free = this
  show ?thesis
  proof (cases "owner t client_list_mutex")
    case None
    with config_free have free: "owner t m = None" for m by (cases m) simp_all
    from assms(2) obtain i where i: "i < length (todo t)" "todo t ! i \<noteq> []" by (metis pending_zero less_numeral_extra(3))
    from holding_thread [OF h i(1)] holding_owner [OF h] free i(1) have "h i = []" by (metis not_None_eq list.set_intros(1) neq_Nil_conv)
    with holding_thread [OF h i(1)] i(2) obtain m p where "todo t ! i = Lock m # p"
      by (cases "(h i, todo t ! i)" rule: disciplined.cases) auto
    with i(1) free show ?thesis by (blast intro: lock_step.acquire)
  qed (rule holder_of_clients_steps [OF h _ config_free])
qed (rule holder_of_config_steps [OF h])


section \<open>A signal inside a critical section\<close>

text \<open>
  SIGTERM runs \<open>termination_handler\<close> on a thread, on top of what that thread was doing. \<open>pthread_mutex_lock\<close> on
  a mutex that the same thread already holds does not return.
\<close>

definition deliver_sigterm :: "nat \<Rightarrow> bool \<Rightarrow> change list \<Rightarrow> threads \<Rightarrow> threads" where
  "deliver_sigterm i export ks t = t\<lparr>todo := (todo t)[i := termination_handler_locks export ks @ todo t ! i]\<rparr>"

lemma termination_handler_locks_first: "\<exists>p. termination_handler_locks export ks = Lock client_list_mutex # p"
  by (simp add: lock_defs)

lemma self_blocked:
  assumes "lock_step\<^sup>*\<^sup>* t t'" and "todo t ! i = Lock m # p" and "owner t m = Some i"
  shows "todo t' ! i = todo t ! i \<and> owner t' m = Some i"
  using assms(1)
proof induction
  case (step u v)
  from step(2) show ?case
    by (rule lock_stepE) (use step(3) assms(2) in \<open>auto simp: nth_list_update split: if_splits\<close>)
qed (simp add: assms(3))

text \<open>
  C25. A termination signal that is delivered to a thread while it works on the client list blocks the
  program: the handler waits for the mutex that its own thread holds. Whatever the other threads do, neither the
  handler nor the interrupted function gets any further, and the mutex is never released.
\<close>

theorem sigterm_self_deadlock:
  assumes "i < length (todo t)" and "owner t client_list_mutex = Some i"
    and "lock_step\<^sup>*\<^sup>* (deliver_sigterm i export ks t) t'"
  shows "todo t' ! i = termination_handler_locks export ks @ todo t ! i \<and> owner t' client_list_mutex = Some i"
proof -
  obtain p where "termination_handler_locks export ks = Lock client_list_mutex # p"
    using termination_handler_locks_first by blast
  with self_blocked [OF assms(3), of i client_list_mutex "p @ todo t ! i"] assms(1, 2) show ?thesis
    by (simp add: deliver_sigterm_def)
qed

text \<open>
  The periodic check, a web request and a command that sets the debug level, in a schedule in which the check
  is interrupted while it holds the client list.
\<close>

definition three_threads :: threads where
  "three_threads = start_threads_on [[Check True [Blocks]], [Web True (Some Authenticates)], [Debuglevel]]"

definition interrupted :: threads where
  "interrupted = the (run_schedule [0, 0, 1, 1, 0] three_threads)"

lemma interrupted_run: "run_schedule [0, 0, 1, 1, 0] three_threads = Some interrupted"
  by (simp add: interrupted_def three_threads_def start_threads_on_def lock_defs)

lemma interrupted_reached: "(lock_step ^^ 5) three_threads interrupted"
  using run_schedule_steps [OF interrupted_run] by (simp del: relpowp.simps add: eval_nat_numeral)

lemma interrupted_eq:
  "interrupted =
     \<lparr>todo = [[Lock config_mutex, Unlock config_mutex, Lock config_mutex, Unlock config_mutex, Unlock client_list_mutex],
        [Lock client_list_mutex, Lock config_mutex, Unlock config_mutex, Unlock client_list_mutex],
        [Lock config_mutex, Unlock config_mutex]],
      owner = (\<lambda>m. None)(client_list_mutex := Some 0)\<rparr>"
  by (simp add: interrupted_def three_threads_def start_threads_on_def lock_defs fun_upd_def fun_eq_iff)


text \<open>After the signal the debug level is still set, but the check stays where it was.\<close>

definition stuck :: threads where
  "stuck = the (run_schedule [2, 2] (deliver_sigterm 0 True [] interrupted))"

lemma stuck_run: "run_schedule [2, 2] (deliver_sigterm 0 True [] interrupted) = Some stuck"
  by (simp add: stuck_def deliver_sigterm_def interrupted_eq lock_defs)

theorem sigterm_self_deadlock_witness:
  "todo stuck ! 0 = termination_handler_locks True [] @ todo interrupted ! 0
    \<and> owner stuck client_list_mutex = Some 0 \<and> todo stuck ! 2 = []"
proof -
  have "lock_step\<^sup>*\<^sup>* (deliver_sigterm 0 True [] interrupted) stuck"
    using run_schedule_steps [OF stuck_run] by (rule relpowp_imp_rtranclp)
  moreover have "0 < length (todo interrupted)" "owner interrupted client_list_mutex = Some 0"
    by (simp_all add: interrupted_eq)
  moreover have "todo stuck ! 2 = []" by (simp add: stuck_def deliver_sigterm_def interrupted_eq lock_defs)
  ultimately show ?thesis using sigterm_self_deadlock [of 0 interrupted True "[]" stuck] by blast
qed

end
