(* ===== verification/Conf_Parse.thy ===== *)
theory Conf_Parse
  imports Conf
begin

text \<open>
  The reader of the configuration file, \<open>config_read\<close> of \<open>src/conf.c\<close> and its helpers. The file is its
  contents; \<open>fgets\<close> takes lines off it, cut at \<open>MAX_BUF - 1\<close> bytes as in the code. \<open>Inl n\<close> is \<open>exit(n)\<close>.
  The parameter \<open>is_exec\<close> answers the \<open>stat\<close> calls (a regular file with the user's execute bit).
\<close>

section \<open>Lines and words\<close>

fun strip_comment :: "char option \<Rightarrow> string \<Rightarrow> string" where
  "strip_comment prev [] = []"
| "strip_comment prev (c # s) =
     (if c = CHR ''#'' \<and> prev \<noteq> Some (CHR 0x5C) then [] else c # strip_comment (Some c) s)"

definition strip_whitespace :: "string \<Rightarrow> string" where
  "strip_whitespace line =
     rev (dropWhile isspace (rev (dropWhile isspace (strip_comment None line))))"

text \<open>\<open>TO_NEXT_WORD(s, e)\<close>: the current word, the rest behind it, and whether the end was reached.\<close>

definition to_next_word :: "string \<Rightarrow> string \<times> string \<times> bool" where
  "to_next_word s =
     (let w = takeWhile (\<lambda>c. \<not> isblank c) s; r = dropWhile (\<lambda>c. \<not> isblank c) s in
      if r = [] then (w, [], True) else (w, dropWhile isblank (tl r), False))"

section \<open>Options\<close>

datatype (plugins only: code) OpCodes =
    oBadOption | oSessionTimeout | oSessionTimeoutBlock | oSessionLimitBlock | oDaemon | oDebugLevel
  | oMaxClients | oGatewayName | oGatewayDomainName | oGatewayInterface | oGatewayIPRange | oGatewayIP
  | oGatewayAddress | oGatewayPort | oHTTPDMaxConn | oWebRoot | oSplashPage | oStatusPage | oRedirectURL
  | oPreauthIdleTimeout | oAuthIdleTimeout | oCheckInterval | oSetMSS | oMSSValue | oTrafficControl
  | oDownloadLimit | oUploadLimit | oUploadIFB | oNdsctlSocket | oSyslogFacility | oFirewallRule
  | oFirewallRuleSet | oEmptyRuleSetPolicy | oMACmechanism | oTrustedMACList | oBlockedMACList
  | oAllowedMACList | oFWMarkAuthenticated | oFWMarkTrusted | oFWMarkBlocked | oBinAuth | oPreAuth
  | oStateFile

definition config_keywords :: "(string \<times> OpCodes) list" where
  "config_keywords = [
     (''sessiontimeout'', oSessionTimeout),
     (''sessiontimeoutblock'', oSessionTimeoutBlock),
     (''sessionlimitblock'', oSessionLimitBlock),
     (''daemon'', oDaemon),
     (''debuglevel'', oDebugLevel),
     (''maxclients'', oMaxClients),
     (''gatewayname'', oGatewayName),
     (''gatewaydomainname'', oGatewayDomainName),
     (''gatewayinterface'', oGatewayInterface),
     (''gatewayiprange'', oGatewayIPRange),
     (''gatewayip'', oGatewayIP),
     (''gatewayaddress'', oGatewayAddress),
     (''gatewayport'', oGatewayPort),
     (''webroot'', oWebRoot),
     (''splashpage'', oSplashPage),
     (''statuspage'', oStatusPage),
     (''redirectURL'', oRedirectURL),
     (''preauthidletimeout'', oPreauthIdleTimeout),
     (''authidletimeout'', oAuthIdleTimeout),
     (''checkinterval'', oCheckInterval),
     (''setmss'', oSetMSS),
     (''mssvalue'', oMSSValue),
     (''trafficcontrol'', oTrafficControl),
     (''downloadlimit'', oDownloadLimit),
     (''uploadlimit'', oUploadLimit),
     (''ifb'', oUploadIFB),
     (''syslogfacility'', oSyslogFacility),
     (''ndsctlsocket'', oNdsctlSocket),
     (''firewallruleset'', oFirewallRuleSet),
     (''firewallrule'', oFirewallRule),
     (''emptyrulesetpolicy'', oEmptyRuleSetPolicy),
     (''trustedmaclist'', oTrustedMACList),
     (''blockedmaclist'', oBlockedMACList),
     (''allowedmaclist'', oAllowedMACList),
     (''MACmechanism'', oMACmechanism),
     (''fw_mark_authenticated'', oFWMarkAuthenticated),
     (''fw_mark_trusted'', oFWMarkTrusted),
     (''fw_mark_blocked'', oFWMarkBlocked),
     (''binauth'', oBinAuth),
     (''preauth'', oPreAuth),
     (''statefile'', oStateFile)]"

definition config_parse_opcode :: "string \<Rightarrow> OpCodes" where
  "config_parse_opcode cp =
     (case find (\<lambda>(name, _). strcasecmp_eq cp name) config_keywords of
        None \<Rightarrow> oBadOption
      | Some (_, opcode) \<Rightarrow> opcode)"

definition parse_boolean :: "string \<Rightarrow> int" where
  "parse_boolean line =
     (if strcasecmp_eq line ''no'' \<or> strcasecmp_eq line ''false'' \<or> line = ''0'' then 0
      else if strcasecmp_eq line ''yes'' \<or> strcasecmp_eq line ''true'' \<or> line = ''1'' then 1
      else -1)"

section \<open>Firewall rules\<close>

definition rule_target :: "string \<Rightarrow> t_firewall_target option" where
  "rule_target token =
     (if strcasecmp_eq token ''block'' then Some TARGET_REJECT
      else if strcasecmp_eq token ''drop'' then Some TARGET_DROP
      else if strcasecmp_eq token ''allow'' then Some TARGET_ACCEPT
      else if strcasecmp_eq token ''log'' then Some TARGET_LOG
      else if strcasecmp_eq token ''ulog'' then Some TARGET_ULOG
      else None)"

text \<open>The optional words of a rule: what is parsed, the rest of the line, and \<open>finished\<close>.\<close>

definition parse_rule_protocol :: "string \<Rightarrow> bool \<Rightarrow> string option \<times> string \<times> bool" where
  "parse_rule_protocol leftover finished =
     (if strncmp_eq leftover ''tcp'' 3 \<or> strncmp_eq leftover ''udp'' 3
         \<or> strncmp_eq leftover ''all'' 3 \<or> strncmp_eq leftover ''icmp'' 4
      then (case to_next_word leftover of (w, r, e) \<Rightarrow> (Some w, r, finished \<or> e))
      else (None, leftover, finished))"

definition parse_rule_port ::
  "string option \<Rightarrow> string \<Rightarrow> bool \<Rightarrow> int + (string option \<times> string \<times> bool)" where
  "parse_rule_port prot leftover finished =
     (if strncmp_eq leftover ''port'' 4 then
        (case prot of
           None \<Rightarrow> Inl 1
         | Some p \<Rightarrow>
             if \<not> (strncmp_eq p ''tcp'' 3 \<or> strncmp_eq p ''udp'' 3) then Inl 1
             else case to_next_word leftover of (_, r, e) \<Rightarrow>
               (case to_next_word r of (w, r', e') \<Rightarrow>
                 if list_all (\<lambda>c. isdigit c \<or> c = CHR '':'') w
                 then Inr (Some w, r', finished \<or> e \<or> e') else Inl 1))
      else Inr (None, leftover, finished))"

definition parse_rule_ipset :: "string \<Rightarrow> bool \<Rightarrow> string option \<times> string \<times> bool" where
  "parse_rule_ipset leftover finished =
     (if strncmp_eq leftover ''ipset'' 5 then
        (case to_next_word leftover of (_, r, e) \<Rightarrow>
          (case to_next_word r of (w, r', e') \<Rightarrow> (Some w, r', finished \<or> e \<or> e')))
      else (None, leftover, finished))"

definition parse_rule_mask :: "string \<Rightarrow> bool \<Rightarrow> int + string option" where
  "parse_rule_mask leftover finished =
     (if finished then Inr None
      else case to_next_word leftover of (other_kw, r, e) \<Rightarrow>
        if other_kw \<noteq> ''to'' \<or> e then Inl 1
        else case to_next_word r of (w, r', e') \<Rightarrow>
          if list_all (\<lambda>c. isdigit c \<or> c = CHR ''.'' \<or> c = CHR ''/'') w then Inr (Some w) else Inl 1)"

text \<open>\<open>_parse_firewall_rule\<close> without its last step, which appends the rule to the rule set.\<close>

definition parse_rule :: "string \<Rightarrow> int + t_firewall_rule" where
  "parse_rule line =
     (case to_next_word (map tolower line) of (token, leftover, finished) \<Rightarrow>
       (case rule_target token of
          None \<Rightarrow> Inl 1
        | Some tgt \<Rightarrow>
            (case parse_rule_protocol leftover finished of (prot, leftover, finished) \<Rightarrow>
              (case parse_rule_port prot leftover finished of
                 Inl e \<Rightarrow> Inl e
               | Inr (prt, leftover, finished) \<Rightarrow>
                   (case parse_rule_ipset leftover finished of (ips, leftover, finished) \<Rightarrow>
                     (case parse_rule_mask leftover finished of
                        Inl e \<Rightarrow> Inl e
                      | Inr msk \<Rightarrow>
                          Inr \<lparr>target = tgt, protocol = prot, port = prt,
                            rule_mask = Some (case msk of None \<Rightarrow> ''0.0.0.0/0'' | Some m \<Rightarrow> m),
                            ipset = ips\<rparr>))))))"

definition parse_firewall_rule :: "string \<Rightarrow> string \<Rightarrow> s_config \<Rightarrow> int + s_config" where
  "parse_firewall_rule ruleset leftover cfg =
     (case parse_rule leftover of
        Inl e \<Rightarrow> Inl e
      | Inr r \<Rightarrow> Inr (update_ruleset ruleset (\<lambda>rs. rs\<lparr>rules := rules rs @ [r]\<rparr>) cfg))"

text \<open>The lines of a rule set, up to the closing brace or the end of the file.\<close>

function ruleset_lines :: "string \<Rightarrow> string \<Rightarrow> s_config \<Rightarrow> int + (s_config \<times> string)" where
  "ruleset_lines ruleset fd cfg =
     (case fgets MAX_BUF fd of
        None \<Rightarrow> Inr (cfg, fd)
      | Some (line, fd') \<Rightarrow>
          (let p1 = strip_whitespace line in
           if p1 = [] then ruleset_lines ruleset fd' cfg
           else if hd p1 = CHR ''}'' then Inr (cfg, fd')
           else
             let opt = takeWhile (\<lambda>c. \<not> isblank c) p1; p2 = dropWhile (\<lambda>c. \<not> isblank c) p1 in
             if p2 = [] then Inl 1
             else if config_parse_opcode opt = oFirewallRule then
               (case parse_firewall_rule ruleset (dropWhile isblank (tl p2)) cfg of
                  Inl e \<Rightarrow> Inl e
                | Inr cfg' \<Rightarrow> ruleset_lines ruleset fd' cfg')
             else Inl 1))"
  by pat_completeness auto
termination
  by (relation "measure (\<lambda>(ruleset, fd, cfg). length fd)") (auto dest: fgets_shorter)

declare ruleset_lines.simps [simp del]

definition parse_firewall_ruleset :: "string \<Rightarrow> string \<Rightarrow> s_config \<Rightarrow> int + (s_config \<times> string)" where
  "parse_firewall_ruleset rulesetname fd cfg =
     (let name = takeWhile (\<lambda>c. c \<noteq> CHR '' '' \<and> c \<noteq> TAB) rulesetname in
      if get_ruleset cfg name = None then Inl 1 else ruleset_lines name fd cfg)"

definition iptables_policy :: "string \<Rightarrow> string option" where
  "iptables_policy policy =
     (if strcasecmp_eq policy ''passthrough'' then Some ''RETURN''
      else if strcasecmp_eq policy ''allow'' then Some ''ACCEPT''
      else if strcasecmp_eq policy ''block'' then Some ''REJECT''
      else None)"

text \<open>
  \<open>parse_empty_ruleset_policy\<close>. When the argument is a single word, the code steps over its NUL and
  reads on in the line buffer; \<open>beyond\<close> is the string found there.
\<close>

definition parse_empty_ruleset_policy :: "string \<Rightarrow> string \<Rightarrow> s_config \<Rightarrow> int + s_config" where
  "parse_empty_ruleset_policy beyond ptr cfg =
     (let ptr = dropWhile isblank ptr;
          rulesetname = takeWhile (\<lambda>c. \<not> isblank c) ptr;
          rest = dropWhile (\<lambda>c. \<not> isblank c) ptr
      in if get_ruleset cfg rulesetname = None then Inl 1
         else
           let p = dropWhile isblank (if rest = [] then beyond else tl rest);
               policy = takeWhile (\<lambda>c. \<not> isblank c) p
           in case iptables_policy policy of
                None \<Rightarrow> Inl 1
              | Some v \<Rightarrow>
                  Inr (update_ruleset rulesetname (\<lambda>rs. rs\<lparr>emptyrulesetpolicy := Some v\<rparr>) cfg))"

section \<open>MAC lists\<close>

text \<open>The tokens that repeated \<open>strsep(&p, ", \t")\<close> delivers.\<close>

definition is_mac_delim :: "char \<Rightarrow> bool" where
  "is_mac_delim c \<longleftrightarrow> c = CHR '','' \<or> c = CHR '' '' \<or> c = TAB"

fun strsep_tokens :: "string \<Rightarrow> string list" where
  "strsep_tokens [] = [[]]"
| "strsep_tokens (c # s) =
     (if is_mac_delim c then [] # strsep_tokens s
      else case strsep_tokens s of [] \<Rightarrow> [[c]] | t # ts \<Rightarrow> (c # t) # ts)"

fun add_macs :: "(string \<Rightarrow> s_config \<Rightarrow> int \<times> s_config) \<Rightarrow> string list \<Rightarrow> s_config \<Rightarrow> int + s_config" where
  "add_macs add [] cfg = Inr cfg"
| "add_macs add (m # ms) cfg =
     (if m = [] then add_macs add ms cfg
      else case add m cfg of (rc, cfg') \<Rightarrow> if rc < 0 then Inl 1 else add_macs add ms cfg')"

definition parse_trusted_mac_list :: "string \<Rightarrow> s_config \<Rightarrow> int + s_config" where
  "parse_trusted_mac_list ptr cfg = add_macs add_to_trusted_mac_list (strsep_tokens ptr) cfg"

definition parse_blocked_mac_list :: "string \<Rightarrow> s_config \<Rightarrow> int + s_config" where
  "parse_blocked_mac_list ptr cfg = add_macs add_to_blocked_mac_list (strsep_tokens ptr) cfg"

definition parse_allowed_mac_list :: "string \<Rightarrow> s_config \<Rightarrow> int + s_config" where
  "parse_allowed_mac_list ptr cfg = add_macs add_to_allowed_mac_list (strsep_tokens ptr) cfg"

section \<open>The options that take a number\<close>

text \<open>\<open>if (sscanf(p1, fmt, &x) < 1 || !(ok x)) exit(ec);\<close>\<close>

definition numeric_arg :: "directive \<Rightarrow> int \<Rightarrow> (int \<Rightarrow> bool) \<Rightarrow> string \<Rightarrow> int + int" where
  "numeric_arg d ec ok p1 =
     (case sscanf1 d p1 of
        (rc, Some v) \<Rightarrow> if rc < 1 \<or> \<not> ok (scan_int v) then Inl ec else Inr (scan_int v)
      | (rc, None) \<Rightarrow> Inl ec)"

definition with_arg :: "int + int \<Rightarrow> (int \<Rightarrow> s_config) \<Rightarrow> int + s_config" where
  "with_arg r f = (case r of Inl e \<Rightarrow> Inl e | Inr v \<Rightarrow> Inr (f v))"

definition bool_arg :: "string \<Rightarrow> int + int" where
  "bool_arg p1 = (if parse_boolean p1 \<noteq> -1 then Inr (parse_boolean p1) else Inl 1)"

text \<open>
  The \<open>switch\<close> of \<open>config_read\<close>, without \<open>oFirewallRuleSet\<close>, which reads further lines. \<open>beyond\<close> is the
  rest of the line buffer behind the argument.
\<close>

definition apply_option ::
  "(string \<Rightarrow> bool) \<Rightarrow> string \<Rightarrow> OpCodes \<Rightarrow> string \<Rightarrow> s_config \<Rightarrow> int + s_config" where
  "apply_option is_exec beyond opcode p1 cfg =
     (case opcode of
        oSessionTimeout \<Rightarrow> with_arg (numeric_arg FInt 1 (\<lambda>v. 0 \<le> v) p1) (\<lambda>v. cfg\<lparr>session_timeout := v\<rparr>)
      | oSessionTimeoutBlock \<Rightarrow> with_arg (numeric_arg FUnsigned (-1) (\<lambda>v. True) p1)
          (\<lambda>v. cfg\<lparr>session_timeout_block := to_int32 v\<rparr>)
      | oSessionLimitBlock \<Rightarrow>
          (case sscanf1 FUnsigned p1 of
             (rc, Some v) \<Rightarrow> Inr (cfg\<lparr>session_limit_block := to_int32 (scan_int v)\<rparr>)
           | (rc, None) \<Rightarrow> if rc < 0 then Inl (-1) else Inr cfg)
      | oDaemon \<Rightarrow> Inr (if daemon cfg = -1 \<and> parse_boolean p1 \<noteq> -1
                        then cfg\<lparr>daemon := parse_boolean p1\<rparr> else cfg)
      | oDebugLevel \<Rightarrow> with_arg (numeric_arg FInt 1 (\<lambda>v. DEBUGLEVEL_MIN \<le> v) p1)
          (\<lambda>v. cfg\<lparr>debuglevel := (if v > DEBUGLEVEL_MAX then DEBUGLEVEL_MAX else v)\<rparr>)
      | oMaxClients \<Rightarrow> with_arg (numeric_arg FInt 1 (\<lambda>v. 1 \<le> v) p1) (\<lambda>v. cfg\<lparr>maxclients := v\<rparr>)
      | oGatewayName \<Rightarrow> Inr (cfg\<lparr>gw_name := p1\<rparr>)
      | oGatewayDomainName \<Rightarrow> Inr (cfg\<lparr>gw_domain := Some p1\<rparr>)
      | oGatewayInterface \<Rightarrow> Inr (cfg\<lparr>gw_interface := Some p1\<rparr>)
      | oGatewayIPRange \<Rightarrow> Inr (cfg\<lparr>gw_iprange := p1\<rparr>)
      | oGatewayAddress \<Rightarrow> Inr (cfg\<lparr>gw_ip := Some p1\<rparr>)
      | oGatewayIP \<Rightarrow> Inr (cfg\<lparr>gw_ip := Some p1\<rparr>)
      | oGatewayPort \<Rightarrow> with_arg (numeric_arg FUnsigned 1 (\<lambda>v. True) p1) (\<lambda>v. cfg\<lparr>gw_port := of_int v\<rparr>)
      | oBinAuth \<Rightarrow> if is_exec p1 then Inr (cfg\<lparr>binauth := Some p1\<rparr>) else Inl 1
      | oPreAuth \<Rightarrow> if is_exec p1 then Inr (cfg\<lparr>preauth := Some p1\<rparr>) else Inl 1
      | oEmptyRuleSetPolicy \<Rightarrow> parse_empty_ruleset_policy beyond p1 cfg
      | oTrustedMACList \<Rightarrow> parse_trusted_mac_list p1 cfg
      | oBlockedMACList \<Rightarrow> parse_blocked_mac_list p1 cfg
      | oAllowedMACList \<Rightarrow> parse_allowed_mac_list p1 cfg
      | oMACmechanism \<Rightarrow>
          if strcasecmp_eq ''allow'' p1 then Inr (cfg\<lparr>macmechanism := MAC_ALLOW\<rparr>)
          else if strcasecmp_eq ''block'' p1 then Inr (cfg\<lparr>macmechanism := MAC_BLOCK\<rparr>)
          else Inl 1
      | oWebRoot \<Rightarrow> Inr (cfg\<lparr>webroot := rev (dropWhile (\<lambda>c. c = CHR ''/'') (rev p1))\<rparr>)
      | oSplashPage \<Rightarrow> Inr (cfg\<lparr>splashpage := p1\<rparr>)
      | oStatusPage \<Rightarrow> Inr (cfg\<lparr>statuspage := p1\<rparr>)
      | oRedirectURL \<Rightarrow> Inr (cfg\<lparr>redirectURL := Some p1\<rparr>)
      | oAuthIdleTimeout \<Rightarrow> with_arg (numeric_arg FInt 1 (\<lambda>v. 0 \<le> v) p1)
          (\<lambda>v. cfg\<lparr>auth_idle_timeout := v\<rparr>)
      | oPreauthIdleTimeout \<Rightarrow> with_arg (numeric_arg FInt 1 (\<lambda>v. 0 \<le> v) p1)
          (\<lambda>v. cfg\<lparr>preauth_idle_timeout := v\<rparr>)
      | oNdsctlSocket \<Rightarrow> Inr (cfg\<lparr>ndsctl_sock := p1\<rparr>)
      | oSetMSS \<Rightarrow> with_arg (bool_arg p1) (\<lambda>v. cfg\<lparr>set_mss := v\<rparr>)
      | oMSSValue \<Rightarrow> with_arg (numeric_arg FInt 1 (\<lambda>v. True) p1) (\<lambda>v. cfg\<lparr>mss_value := v\<rparr>)
      | oTrafficControl \<Rightarrow> with_arg (bool_arg p1) (\<lambda>v. cfg\<lparr>traffic_control := v\<rparr>)
      | oDownloadLimit \<Rightarrow> with_arg (numeric_arg FInt 1 (\<lambda>v. 0 \<le> v) p1) (\<lambda>v. cfg\<lparr>download_limit := v\<rparr>)
      | oUploadLimit \<Rightarrow> with_arg (numeric_arg FInt 1 (\<lambda>v. 0 \<le> v) p1) (\<lambda>v. cfg\<lparr>upload_limit := v\<rparr>)
      | oUploadIFB \<Rightarrow> with_arg (numeric_arg FInt 1 (\<lambda>v. 0 \<le> v) p1) (\<lambda>v. cfg\<lparr>upload_ifb := v\<rparr>)
      | oFWMarkAuthenticated \<Rightarrow>
          with_arg (numeric_arg FHex 1 (\<lambda>v. of_int v \<noteq> (0 :: 32 word) \<and> of_int v \<noteq> fw_mark_blocked cfg
              \<and> of_int v \<noteq> fw_mark_trusted cfg) p1)
            (\<lambda>v. cfg\<lparr>fw_mark_authenticated := of_int v\<rparr>)
      | oFWMarkBlocked \<Rightarrow>
          with_arg (numeric_arg FHex 1 (\<lambda>v. of_int v \<noteq> (0 :: 32 word) \<and> of_int v \<noteq> fw_mark_authenticated cfg
              \<and> of_int v \<noteq> fw_mark_trusted cfg) p1)
            (\<lambda>v. cfg\<lparr>fw_mark_blocked := of_int v\<rparr>)
      | oFWMarkTrusted \<Rightarrow>
          with_arg (numeric_arg FHex 1 (\<lambda>v. of_int v \<noteq> (0 :: 32 word) \<and> of_int v \<noteq> fw_mark_authenticated cfg
              \<and> of_int v \<noteq> fw_mark_blocked cfg) p1)
            (\<lambda>v. cfg\<lparr>fw_mark_trusted := of_int v\<rparr>)
      | oCheckInterval \<Rightarrow> with_arg (numeric_arg FIntAuto 1 (\<lambda>v. 1 \<le> v) p1) (\<lambda>v. cfg\<lparr>checkinterval := v\<rparr>)
      | oSyslogFacility \<Rightarrow> with_arg (numeric_arg FInt 1 (\<lambda>v. True) p1) (\<lambda>v. cfg\<lparr>syslog_facility := v\<rparr>)
      | oStateFile \<Rightarrow> Inr (cfg\<lparr>statefile := Some p1\<rparr>)
      | oBadOption \<Rightarrow> Inl 1
      | oFirewallRuleSet \<Rightarrow> Inr cfg
      | oFirewallRule \<Rightarrow> Inr cfg
      | oHTTPDMaxConn \<Rightarrow> Inr cfg)"

section \<open>The file\<close>

text \<open>
  One line: the option word ends at white space, the argument starts behind blanks. \<open>Inr None\<close> is a
  line with nothing on it.
\<close>

definition split_option :: "string \<Rightarrow> int + (string \<times> string) option" where
  "split_option line =
     (let s = strip_whitespace line in
      if s = [] then Inr None
      else
        let opt = takeWhile (\<lambda>c. \<not> isspace c) s; rest = dropWhile (\<lambda>c. \<not> isspace c) s in
        if rest = [] then Inl 1 else Inr (Some (opt, dropWhile isblank (tl rest))))"

definition config_line ::
  "(string \<Rightarrow> bool) \<Rightarrow> (string \<Rightarrow> string) \<Rightarrow> string \<Rightarrow> string \<Rightarrow> s_config \<Rightarrow> int + (s_config \<times> string)" where
  "config_line is_exec tail line fd cfg =
     (case split_option line of
        Inl e \<Rightarrow> Inl e
      | Inr None \<Rightarrow> Inr (cfg, fd)
      | Inr (Some (opt, p1)) \<Rightarrow>
          if config_parse_opcode opt = oFirewallRuleSet then parse_firewall_ruleset p1 fd cfg
          else case apply_option is_exec (tail line) (config_parse_opcode opt) p1 cfg of
              Inl e \<Rightarrow> Inl e
            | Inr cfg' \<Rightarrow> Inr (cfg', fd))"

lemma ruleset_lines_step:
  assumes "ruleset_lines rs fd cfg = Inr (cfg', fd')"
  obtains (stop) "cfg' = cfg" "length fd' \<le> length fd"
    | (more) fd1 cfg1 where "length fd1 < length fd" "ruleset_lines rs fd1 cfg1 = Inr (cfg', fd')"
        "cfg1 = cfg \<or> (\<exists>l. parse_firewall_rule rs l cfg = Inr cfg1)"
proof (cases "fgets MAX_BUF fd")
  case None
  with assms that(1) show ?thesis by (simp add: ruleset_lines.simps [of rs fd])
next
  case (Some r)
  obtain line fd1 where r: "r = (line, fd1)" by (cases r)
  have lt: "length fd1 < length fd" using Some r fgets_shorter by simp
  have "ruleset_lines rs fd1 cfg = Inr (cfg', fd') \<or> (cfg' = cfg \<and> fd' = fd1)
      \<or> (\<exists>cfg1 l. parse_firewall_rule rs l cfg = Inr cfg1 \<and> ruleset_lines rs fd1 cfg1 = Inr (cfg', fd'))"
    using assms Some r
    by (simp add: ruleset_lines.simps [of rs fd] Let_def split: if_splits sum.splits) blast+
  with lt that show ?thesis by (metis less_imp_le)
qed

lemma ruleset_lines_rest:
  "ruleset_lines rs fd cfg = Inr (cfg', fd') \<Longrightarrow> length fd' \<le> length fd"
proof (induction "length fd" arbitrary: fd cfg rule: less_induct)
  case less
  from less.prems show ?case
  proof (cases rule: ruleset_lines_step)
    case (more fd1 cfg1)
    then have "length fd' \<le> length fd1" using less.hyps by blast
    with more(1) show ?thesis by simp
  qed simp
qed

lemma config_line_rest:
  "config_line is_exec tail line fd cfg = Inr (cfg', fd') \<Longrightarrow> length fd' \<le> length fd"
  by (auto simp: config_line_def parse_firewall_ruleset_def Let_def dest: ruleset_lines_rest
      split: sum.splits option.splits if_splits)

text \<open>\<open>tail\<close> is the stale contents of the line buffer behind the current line.\<close>

function config_read_loop ::
  "(string \<Rightarrow> bool) \<Rightarrow> (string \<Rightarrow> string) \<Rightarrow> string \<Rightarrow> s_config \<Rightarrow> int + s_config" where
  "config_read_loop is_exec tail fd cfg =
     (case fgets MAX_BUF fd of
        None \<Rightarrow> Inr cfg
      | Some (line, fd') \<Rightarrow>
          (case config_line is_exec tail line fd' cfg of
             Inl e \<Rightarrow> Inl e
           | Inr (cfg', fd'') \<Rightarrow> config_read_loop is_exec tail fd'' cfg'))"
  by pat_completeness auto
termination
  by (relation "measure (\<lambda>(is_exec, tail, fd, cfg). length fd)")
    (auto dest!: fgets_shorter config_line_rest)

declare config_read_loop.simps [simp del]

text \<open>The argument \<open>contents\<close> is \<^const>\<open>None\<close> when the file cannot be opened.\<close>

definition config_read ::
  "(string \<Rightarrow> bool) \<Rightarrow> (string \<Rightarrow> string) \<Rightarrow> string option \<Rightarrow> s_config \<Rightarrow> int + s_config" where
  "config_read is_exec tail contents cfg =
     (case contents of None \<Rightarrow> Inl 1 | Some fd \<Rightarrow> config_read_loop is_exec tail fd cfg)"

section \<open>What a configuration that was read satisfies\<close>

text \<open>
  The facts the rest of the program relies on: ranges of the numbers, marks that are nonzero and
  pairwise different, MAC lists without duplicates, and every rule set with a policy iptables knows.
\<close>

definition policies_ok :: "s_config \<Rightarrow> bool" where
  "policies_ok cfg \<longleftrightarrow> list_all (\<lambda>rs. emptyrulesetpolicy rs \<in>
     {Some ''RETURN'', Some ''ACCEPT'', Some ''REJECT''}) (rulesets cfg)"

definition marks_ok :: "s_config \<Rightarrow> bool" where
  "marks_ok cfg \<longleftrightarrow>
     distinct [0, fw_mark_authenticated cfg, fw_mark_blocked cfg, fw_mark_trusted cfg]"

definition ranges_ok :: "s_config \<Rightarrow> bool" where
  "ranges_ok cfg \<longleftrightarrow> 0 \<le> session_timeout cfg \<and> 0 \<le> debuglevel cfg \<and> debuglevel cfg \<le> 3
     \<and> 1 \<le> maxclients cfg \<and> 0 \<le> auth_idle_timeout cfg \<and> 0 \<le> preauth_idle_timeout cfg
     \<and> 0 \<le> download_limit cfg \<and> 0 \<le> upload_limit cfg \<and> 0 \<le> upload_ifb cfg \<and> 1 \<le> checkinterval cfg
     \<and> macmechanism cfg \<in> {MAC_ALLOW, MAC_BLOCK}"

definition config_ok :: "s_config \<Rightarrow> bool" where
  "config_ok cfg \<longleftrightarrow> ranges_ok cfg \<and> marks_ok cfg \<and> mac_lists_ok cfg \<and> policies_ok cfg"

lemmas config_ok_defs = config_ok_def ranges_ok_def marks_ok_def mac_lists_ok_def policies_ok_def

lemma update_first_ruleset_all:
  "(\<And>rs. P rs \<Longrightarrow> P (f rs)) \<Longrightarrow> list_all P rss \<Longrightarrow> list_all P (update_first_ruleset name f rss)"
  by (induction rss) auto

lemma update_ruleset_ok:
  assumes "config_ok cfg"
    and "\<And>rs. emptyrulesetpolicy rs \<in> {Some ''RETURN'', Some ''ACCEPT'', Some ''REJECT''} \<Longrightarrow>
      emptyrulesetpolicy (f rs) \<in> {Some ''RETURN'', Some ''ACCEPT'', Some ''REJECT''}"
  shows "config_ok (update_ruleset name f cfg)"
proof -
  have "policies_ok (update_ruleset name f cfg)"
    using assms unfolding policies_ok_def config_ok_def update_ruleset_def
    by (simp del: insert_iff add: update_first_ruleset_all)
  with assms(1) show ?thesis
    by (simp add: config_ok_def ranges_ok_def marks_ok_def mac_lists_ok_def update_ruleset_def)
qed

lemma parse_firewall_rule_ok:
  "parse_firewall_rule rs line cfg = Inr cfg' \<Longrightarrow> config_ok cfg \<Longrightarrow> config_ok cfg'"
  by (auto simp: parse_firewall_rule_def split: sum.splits intro!: update_ruleset_ok)

lemma ruleset_lines_ok:
  "ruleset_lines rs fd cfg = Inr (cfg', fd') \<Longrightarrow> config_ok cfg \<Longrightarrow> config_ok cfg'"
proof (induction "length fd" arbitrary: fd cfg rule: less_induct)
  case less
  from less.prems(1) show ?case
    by (rule ruleset_lines_step) (use less in \<open>auto dest: parse_firewall_rule_ok\<close>)
qed

lemma iptables_policy_range: "iptables_policy p = Some v \<Longrightarrow> v \<in> {''RETURN'', ''ACCEPT'', ''REJECT''}"
  unfolding iptables_policy_def by (simp split: if_split_asm)

lemma parse_empty_ruleset_policy_ok:
  assumes "parse_empty_ruleset_policy beyond p cfg = Inr cfg'" and "config_ok cfg"
  shows "config_ok cfg'"
proof -
  obtain name q v where "iptables_policy q = Some v"
    and cfg': "cfg' = update_ruleset name (\<lambda>rs. rs\<lparr>emptyrulesetpolicy := Some v\<rparr>) cfg"
    using assms(1) unfolding parse_empty_ruleset_policy_def Let_def
    by (simp split: if_split_asm option.splits; blast)
  then have "Some v \<in> {Some ''RETURN'', Some ''ACCEPT'', Some ''REJECT''}"
    using iptables_policy_range [of q v] by blast
  then show ?thesis unfolding cfg' by (intro update_ruleset_ok assms(2)) simp
qed

lemma add_macs_ok:
  "add_macs add ms cfg = Inr cfg' \<Longrightarrow> (\<And>m c. config_ok c \<Longrightarrow> config_ok (snd (add m c))) \<Longrightarrow>
   config_ok cfg \<Longrightarrow> config_ok cfg'"
proof (induction ms arbitrary: cfg)
  case (Cons m ms)
  have "config_ok (snd (add m cfg))" using Cons.prems by blast
  with Cons show ?case by (cases "add m cfg") (auto split: if_splits)
qed simp

lemma mac_list_ops_config_ok:
  assumes "config_ok cfg"
  shows "config_ok (snd (add_to_trusted_mac_list m cfg))"
    and "config_ok (snd (add_to_blocked_mac_list m cfg))"
    and "config_ok (snd (add_to_allowed_mac_list m cfg))"
proof -
  have *: "ranges_ok (snd (f m cfg)) = ranges_ok cfg" "marks_ok (snd (f m cfg)) = marks_ok cfg"
    "policies_ok (snd (f m cfg)) = policies_ok cfg"
    if "f \<in> {add_to_trusted_mac_list, add_to_blocked_mac_list, add_to_allowed_mac_list}" for f
    using that unfolding ranges_ok_def marks_ok_def policies_ok_def
    by (elim insertE emptyE; simp add: add_to_trusted_mac_list_def add_to_blocked_mac_list_def
        add_to_allowed_mac_list_def Let_def)+
  show "config_ok (snd (add_to_trusted_mac_list m cfg))"
    "config_ok (snd (add_to_blocked_mac_list m cfg))"
    "config_ok (snd (add_to_allowed_mac_list m cfg))"
    using assms
    by (simp_all add: config_ok_def * mac_lists_ok_def nds_frame trusted.add_distinct
        blocked.add_distinct allowed.add_distinct)
qed

lemma parse_mac_lists_ok:
  "parse_trusted_mac_list p cfg = Inr cfg' \<Longrightarrow> config_ok cfg \<Longrightarrow> config_ok cfg'"
  "parse_blocked_mac_list p cfg = Inr cfg' \<Longrightarrow> config_ok cfg \<Longrightarrow> config_ok cfg'"
  "parse_allowed_mac_list p cfg = Inr cfg' \<Longrightarrow> config_ok cfg \<Longrightarrow> config_ok cfg'"
  unfolding parse_trusted_mac_list_def parse_blocked_mac_list_def parse_allowed_mac_list_def
  by (erule add_macs_ok, rule mac_list_ops_config_ok, assumption+)+

lemma with_arg_Inr: "with_arg r f = Inr c \<longleftrightarrow> (\<exists>v. r = Inr v \<and> c = f v)"
  by (auto simp: with_arg_def split: sum.splits)

lemma numeric_arg_Inr: "numeric_arg d e ok p = Inr v \<Longrightarrow> ok v"
  by (auto simp: numeric_arg_def split: prod.splits option.splits if_splits)

text \<open>Which assignments keep \<^const>\<open>config_ok\<close>.\<close>

lemma config_ok_free_field:
  assumes "config_ok cfg"
  shows "config_ok (cfg\<lparr>session_timeout_block := v0\<rparr>)" and
    "config_ok (cfg\<lparr>session_limit_block := v1\<rparr>)" and
    "config_ok (cfg\<lparr>daemon := v2\<rparr>)" and
    "config_ok (cfg\<lparr>gw_name := v3\<rparr>)" and
    "config_ok (cfg\<lparr>gw_domain := v4\<rparr>)" and
    "config_ok (cfg\<lparr>gw_interface := v5\<rparr>)" and
    "config_ok (cfg\<lparr>gw_iprange := v6\<rparr>)" and
    "config_ok (cfg\<lparr>gw_ip := v7\<rparr>)" and
    "config_ok (cfg\<lparr>gw_port := v8\<rparr>)" and
    "config_ok (cfg\<lparr>binauth := v9\<rparr>)" and
    "config_ok (cfg\<lparr>preauth := v10\<rparr>)" and
    "config_ok (cfg\<lparr>webroot := v11\<rparr>)" and
    "config_ok (cfg\<lparr>splashpage := v12\<rparr>)" and
    "config_ok (cfg\<lparr>statuspage := v13\<rparr>)" and
    "config_ok (cfg\<lparr>redirectURL := v14\<rparr>)" and
    "config_ok (cfg\<lparr>ndsctl_sock := v15\<rparr>)" and
    "config_ok (cfg\<lparr>set_mss := v16\<rparr>)" and
    "config_ok (cfg\<lparr>mss_value := v17\<rparr>)" and
    "config_ok (cfg\<lparr>traffic_control := v18\<rparr>)" and
    "config_ok (cfg\<lparr>syslog_facility := v19\<rparr>)" and
    "config_ok (cfg\<lparr>statefile := v20\<rparr>)"
  using assms by (simp_all add: config_ok_defs)

lemma config_ok_ranged_field:
  assumes "config_ok cfg"
  shows "0 \<le> v \<Longrightarrow> config_ok (cfg\<lparr>session_timeout := v\<rparr>)" and
    "0 \<le> v \<Longrightarrow> v \<le> 3 \<Longrightarrow> config_ok (cfg\<lparr>debuglevel := v\<rparr>)" and
    "1 \<le> v \<Longrightarrow> config_ok (cfg\<lparr>maxclients := v\<rparr>)" and
    "0 \<le> v \<Longrightarrow> config_ok (cfg\<lparr>auth_idle_timeout := v\<rparr>)" and
    "0 \<le> v \<Longrightarrow> config_ok (cfg\<lparr>preauth_idle_timeout := v\<rparr>)" and
    "0 \<le> v \<Longrightarrow> config_ok (cfg\<lparr>download_limit := v\<rparr>)" and
    "0 \<le> v \<Longrightarrow> config_ok (cfg\<lparr>upload_limit := v\<rparr>)" and
    "0 \<le> v \<Longrightarrow> config_ok (cfg\<lparr>upload_ifb := v\<rparr>)" and
    "1 \<le> v \<Longrightarrow> config_ok (cfg\<lparr>checkinterval := v\<rparr>)" and
    "v = MAC_ALLOW \<or> v = MAC_BLOCK \<Longrightarrow> config_ok (cfg\<lparr>macmechanism := v\<rparr>)"
  using assms by (simp_all add: config_ok_defs)

lemma marks_ok_update:
  "marks_ok cfg \<Longrightarrow> v \<noteq> 0 \<Longrightarrow> v \<noteq> fw_mark_blocked cfg \<Longrightarrow> v \<noteq> fw_mark_trusted cfg \<Longrightarrow>
    marks_ok (cfg\<lparr>fw_mark_authenticated := v\<rparr>)"
  "marks_ok cfg \<Longrightarrow> v \<noteq> 0 \<Longrightarrow> v \<noteq> fw_mark_authenticated cfg \<Longrightarrow> v \<noteq> fw_mark_trusted cfg \<Longrightarrow>
    marks_ok (cfg\<lparr>fw_mark_blocked := v\<rparr>)"
  "marks_ok cfg \<Longrightarrow> v \<noteq> 0 \<Longrightarrow> v \<noteq> fw_mark_authenticated cfg \<Longrightarrow> v \<noteq> fw_mark_blocked cfg \<Longrightarrow>
    marks_ok (cfg\<lparr>fw_mark_trusted := v\<rparr>)"
  by (auto simp: marks_ok_def)

lemma config_ok_mark_field:
  assumes "config_ok cfg"
  shows "v \<noteq> 0 \<Longrightarrow> v \<noteq> fw_mark_blocked cfg \<Longrightarrow> v \<noteq> fw_mark_trusted cfg \<Longrightarrow>
      config_ok (cfg\<lparr>fw_mark_authenticated := v\<rparr>)" and
    "v \<noteq> 0 \<Longrightarrow> v \<noteq> fw_mark_authenticated cfg \<Longrightarrow> v \<noteq> fw_mark_trusted cfg \<Longrightarrow>
      config_ok (cfg\<lparr>fw_mark_blocked := v\<rparr>)" and
    "v \<noteq> 0 \<Longrightarrow> v \<noteq> fw_mark_authenticated cfg \<Longrightarrow> v \<noteq> fw_mark_blocked cfg \<Longrightarrow>
      config_ok (cfg\<lparr>fw_mark_trusted := v\<rparr>)"
  using assms marks_ok_update [of cfg v]
  by (simp_all add: config_ok_def ranges_ok_def mac_lists_ok_def policies_ok_def)

lemma if_Inr_eq:
  "((if b then x else y) = Inr c) \<longleftrightarrow> (b \<and> x = Inr c \<or> \<not> b \<and> y = Inr c)"
  by simp

lemma session_limit_block_option:
  "apply_option is_exec beyond oSessionLimitBlock p1 cfg = Inr cfg' \<Longrightarrow>
   cfg' = cfg \<or> (\<exists>v. cfg' = cfg\<lparr>session_limit_block := v\<rparr>)"
  by (simp add: apply_option_def split: prod.splits option.splits if_splits) blast+

lemma with_numeric_arg:
  "with_arg (numeric_arg d e ok p) f = Inr c \<Longrightarrow> (\<And>v. ok v \<Longrightarrow> P (f v)) \<Longrightarrow> P c"
  by (metis numeric_arg_Inr with_arg_Inr)

lemma with_any_arg: "with_arg r f = Inr c \<Longrightarrow> (\<And>v. P (f v)) \<Longrightarrow> P c"
  by (metis with_arg_Inr)

lemma apply_option_ok:
  assumes opt: "apply_option is_exec beyond opcode p1 cfg = Inr cfg'" and ok: "config_ok cfg"
  shows "config_ok cfg'"
proof (cases "opcode = oSessionLimitBlock")
  case True
  with opt have "cfg' = cfg \<or> (\<exists>v. cfg' = cfg\<lparr>session_limit_block := v\<rparr>)"
    using session_limit_block_option by simp
  then show ?thesis using ok by (elim disjE exE) (simp_all add: config_ok_free_field)
next
  case False
  note field_ok = config_ok_free_field [OF ok] config_ok_ranged_field [OF ok]
    config_ok_mark_field [OF ok] ok
  from False opt show ?thesis
    by (cases opcode; simp only: apply_option_def OpCodes.case if_Inr_eq sum.inject sum.distinct simp_thms)
      (((erule parse_empty_ruleset_policy_ok parse_mac_lists_ok, rule ok)
       | (erule with_numeric_arg with_any_arg | elim disjE conjE | erule subst)?,
         (elim disjE conjE)?, (erule subst)?,
         (rule field_ok | assumption | simp add: field_ok)+)+)
qed

lemma config_line_ok:
  "config_line is_exec tail line fd cfg = Inr (cfg', fd') \<Longrightarrow> config_ok cfg \<Longrightarrow> config_ok cfg'"
  by (auto simp: config_line_def parse_firewall_ruleset_def Let_def dest: ruleset_lines_ok apply_option_ok
      split: sum.splits option.splits if_splits)

lemma config_read_loop_ok:
  "config_read_loop is_exec tail fd cfg = Inr cfg' \<Longrightarrow> config_ok cfg \<Longrightarrow> config_ok cfg'"
proof (induction is_exec tail fd cfg rule: config_read_loop.induct)
  case (1 is_exec tail fd cfg)
  show ?case
  proof (cases "fgets MAX_BUF fd")
    case None
    with 1(2,3) show ?thesis by (simp add: config_read_loop.simps [of _ _ fd])
  next
    case (Some r)
    obtain line fd1 where r: "r = (line, fd1)" by (cases r)
    with 1(2) Some obtain cfg1 fd2 where "config_line is_exec tail line fd1 cfg = Inr (cfg1, fd2)"
      and "config_read_loop is_exec tail fd2 cfg1 = Inr cfg'"
      by (auto simp: config_read_loop.simps [of _ _ fd] split: sum.splits)
    then show ?thesis
      using 1(1) [OF Some r [symmetric] _ refl] 1(3) config_line_ok by blast
  qed
qed

lemma config_init_ok: "config_ok config_init"
  by code_simp

lemma take_word_prefix:
  "strncmp_eq s k n \<Longrightarrow> length k = n \<Longrightarrow> list_all (\<lambda>c. \<not> isblank c) k \<Longrightarrow>
   take n (takeWhile (\<lambda>c. \<not> isblank c) s) = k"
  unfolding strncmp_eq_def
  by (metis append_eq_conv_conj append_take_drop_id list_all_iff order_refl take_all takeWhile_append2)

lemma to_next_word_word: "to_next_word s = (w, r, e) \<Longrightarrow> w = takeWhile (\<lambda>c. \<not> isblank c) s"
  by (auto simp: to_next_word_def Let_def split: if_splits)

lemma keyword_prefix:
  "strncmp_eq s ''tcp'' 3 \<Longrightarrow> take 3 (takeWhile (\<lambda>c. \<not> isblank c) s) = ''tcp''"
  "strncmp_eq s ''udp'' 3 \<Longrightarrow> take 3 (takeWhile (\<lambda>c. \<not> isblank c) s) = ''udp''"
  "strncmp_eq s ''all'' 3 \<Longrightarrow> take 3 (takeWhile (\<lambda>c. \<not> isblank c) s) = ''all''"
  "strncmp_eq s ''icmp'' 4 \<Longrightarrow> take 4 (takeWhile (\<lambda>c. \<not> isblank c) s) = ''icmp''"
  by (erule take_word_prefix, simp, simp add: isblank_def)+

lemma parse_rule_protocol_word:
  "parse_rule_protocol l f = (Some p, l', f') \<Longrightarrow>
   take 3 p \<in> {''tcp'', ''udp'', ''all''} \<or> take 4 p = ''icmp''"
  by (auto simp: parse_rule_protocol_def dest!: to_next_word_word keyword_prefix
      split: if_splits prod.splits)

lemma parse_rule_port_word:
  "parse_rule_port prot l f = Inr (Some p, l', f') \<Longrightarrow>
   (\<exists>q. prot = Some q \<and> take 3 q \<in> {''tcp'', ''udp''}) \<and> set p \<subseteq> {c. isdigit c} \<union> {CHR '':''}"
  by (auto simp: parse_rule_port_def strncmp_eq_def list_all_iff
      split: if_splits prod.splits option.splits)

lemma parse_rule_mask_word:
  "parse_rule_mask l f = Inr (Some m) \<Longrightarrow> set m \<subseteq> {c. isdigit c} \<union> {CHR ''.'', CHR ''/''}"
  by (auto simp: parse_rule_mask_def list_all_iff split: if_splits prod.splits)

lemma parse_rule_parts:
  assumes "parse_rule line = Inr r"
  obtains l1 f1 l2 f2 l3 f3 l4 f4 msk where
    "parse_rule_protocol l1 f1 = (protocol r, l2, f2)"
    "parse_rule_port (protocol r) l2 f2 = Inr (port r, l3, f3)"
    "parse_rule_mask l4 f4 = Inr msk"
    "rule_mask r = Some (case msk of None \<Rightarrow> ''0.0.0.0/0'' | Some m \<Rightarrow> m)"
proof -
  obtain tok l1 f1 where w: "to_next_word (map tolower line) = (tok, l1, f1)"
    by (metis prod_cases3)
  obtain tgt where t: "rule_target tok = Some tgt"
    using assms by (cases "rule_target tok") (simp_all add: parse_rule_def w)
  obtain prot l2 f2 where p: "parse_rule_protocol l1 f1 = (prot, l2, f2)"
    by (metis prod_cases3)
  obtain prt l3 f3 where q: "parse_rule_port prot l2 f2 = Inr (prt, l3, f3)"
  proof (cases "parse_rule_port prot l2 f2")
    case (Inr x)
    with that show ?thesis by (cases x) auto
  qed (use assms in \<open>simp add: parse_rule_def w t p\<close>)
  obtain ips l4 f4 where i: "parse_rule_ipset l3 f3 = (ips, l4, f4)"
    by (metis prod_cases3)
  obtain msk where m: "parse_rule_mask l4 f4 = Inr msk"
    using assms by (cases "parse_rule_mask l4 f4") (simp_all add: parse_rule_def w t p q i)
  have "r = \<lparr>target = tgt, protocol = prot, port = prt,
      rule_mask = Some (case msk of None \<Rightarrow> ''0.0.0.0/0'' | Some m \<Rightarrow> m), ipset = ips\<rparr>"
    using assms by (simp add: parse_rule_def w t p q i m)
  with that p q m show ?thesis by simp
qed

section \<open>Properties\<close>

text \<open>C32. Whatever the configuration file contains, if reading it on top of the defaults does not
  terminate the program, the result has its numbers in range, firewall marks that are nonzero and
  pairwise distinct, MAC lists without case-insensitive duplicates, and every rule set with an
  empty-rule-set policy that is an iptables target.\<close>

theorem config_read_ok:
  assumes "config_read is_exec tail contents config_init = Inr cfg"
  shows "config_ok cfg"
  using assms config_read_loop_ok [OF _ config_init_ok]
  by (auto simp: config_read_def split: option.splits)

definition sample_file :: string where
  "sample_file = ''GatewayInterface br-lan'' @ [NL] @ ''  maxclients 5 # five'' @ [NL] @
     ''FirewallRuleSet authenticated-users {'' @ [NL] @ ''FirewallRule allow tcp port 80 to 10.0.0.0/8'' @
     [NL] @ ''}'' @ [NL] @ ''fw_mark_authenticated 0x40000'' @ [NL]"

theorem config_read_ok_witness:
  "\<exists>cfg. config_read (\<lambda>_. False) (\<lambda>_. []) (Some sample_file) config_init = Inr cfg \<and> config_ok cfg
     \<and> fw_mark_authenticated cfg = 0x40000 \<and> gw_interface cfg = Some ''br-lan''"
proof -
  let ?r = "config_read (\<lambda>_. False) (\<lambda>_. []) (Some sample_file) config_init"
  have "case ?r of Inl _ \<Rightarrow> False
    | Inr c \<Rightarrow> fw_mark_authenticated c = 0x40000 \<and> gw_interface c = Some ''br-lan''" by code_simp
  then obtain cfg where "?r = Inr cfg" "fw_mark_authenticated cfg = 0x40000"
    "gw_interface cfg = Some ''br-lan''" by (auto split: sum.splits)
  then show ?thesis using config_read_ok [of "\<lambda>_. False" "\<lambda>_. []" "Some sample_file" cfg] by blast
qed

text \<open>\<open>SessionLimitBlock\<close> is the only numeric option whose argument is not required to be a number:
  on text \<open>sscanf\<close> returns 0, which the test for a negative result lets pass, and the old value stays;
  \<open>SessionTimeoutBlock\<close> exits on the same argument.\<close>

theorem session_limit_block_accepts_text:
  "apply_option is_exec beyond oSessionLimitBlock ''unlimited'' cfg = Inr cfg
   \<and> apply_option is_exec beyond oSessionTimeoutBlock ''unlimited'' cfg = Inl (-1)"
proof -
  have "sscanf1 FUnsigned ''unlimited'' = (0, None)" by code_simp
  then show ?thesis by (simp add: apply_option_def numeric_arg_def with_arg_def)
qed

text \<open>C33. The firewall rules that the parser produces are well formed: the protocol begins with one of
  the four known names, a port is given only for tcp or udp and consists of digits and colons, the
  mask is always set, and consists of digits, dots and slashes.\<close>

theorem parse_rule_well_formed:
  assumes "parse_rule line = Inr r"
  shows "(\<forall>p. protocol r = Some p \<longrightarrow> take 3 p \<in> {''tcp'', ''udp'', ''all''} \<or> take 4 p = ''icmp'')
    \<and> (\<forall>p. port r = Some p \<longrightarrow> (\<exists>q. protocol r = Some q \<and> take 3 q \<in> {''tcp'', ''udp''})
         \<and> set p \<subseteq> {c. isdigit c} \<union> {CHR '':''})
    \<and> (\<exists>m. rule_mask r = Some m \<and> set m \<subseteq> {c. isdigit c} \<union> {CHR ''.'', CHR ''/''})"
proof -
  obtain l1 f1 l2 f2 l3 f3 l4 f4 msk where parts:
    "parse_rule_protocol l1 f1 = (protocol r, l2, f2)"
    "parse_rule_port (protocol r) l2 f2 = Inr (port r, l3, f3)"
    "parse_rule_mask l4 f4 = Inr msk"
    "rule_mask r = Some (case msk of None \<Rightarrow> ''0.0.0.0/0'' | Some m \<Rightarrow> m)"
    using assms by (rule parse_rule_parts)
  have "set (case msk of None \<Rightarrow> ''0.0.0.0/0'' | Some m \<Rightarrow> m) \<subseteq> {c. isdigit c} \<union> {CHR ''.'', CHR ''/''}"
    using parse_rule_mask_word parts(3) by (auto simp: isdigit_def split: option.splits)
  with parts(4) have "\<exists>m. rule_mask r = Some m \<and> set m \<subseteq> {c. isdigit c} \<union> {CHR ''.'', CHR ''/''}"
    by blast
  moreover have "take 3 p \<in> {''tcp'', ''udp'', ''all''} \<or> take 4 p = ''icmp''" if "protocol r = Some p" for p
    using parse_rule_protocol_word [OF parts(1) [unfolded that]] .
  moreover have "(\<exists>q. protocol r = Some q \<and> take 3 q \<in> {''tcp'', ''udp''})
      \<and> set p \<subseteq> {c. isdigit c} \<union> {CHR '':''}" if "port r = Some p" for p
    using parse_rule_port_word [OF parts(2) [unfolded that]] .
  ultimately show ?thesis by blast
qed

theorem parse_rule_well_formed_witness:
  "\<exists>r. parse_rule ''allow tcp port 80 to 10.0.0.0/8'' = Inr r \<and> port r = Some ''80''
     \<and> set ''80'' \<subseteq> {c. isdigit c} \<union> {CHR '':''}"
proof -
  let ?r = "parse_rule ''allow tcp port 80 to 10.0.0.0/8''"
  have "case ?r of Inl _ \<Rightarrow> False | Inr r \<Rightarrow> port r = Some ''80''" by code_simp
  then obtain r where "?r = Inr r" "port r = Some ''80''" by (auto split: sum.splits)
  then show ?thesis using parse_rule_well_formed [of "''allow tcp port 80 to 10.0.0.0/8''" r] by blast
qed

end
