(* ===== verification/Status.thy ===== *)
theory Status
  imports Auth_Rules
begin

text \<open>
  The reports of \<open>src/util.c\<close> for the control program: \<open>ndsctl_status\<close>, \<open>ndsctl_clients\<close> and
  \<open>ndsctl_json\<close>. What is printed to the stream is the result of the function, next to the new state: a
  report first reads the counters of the firewall. The average rates are C doubles: a double is a
  fraction here, and every operation rounds to 53 significant bits, to nearest and ties to even. The
  local time of \<open>format_time\<close> is the parameter \<open>ft\<close>.
\<close>

section \<open>Doubles\<close>

fun bits :: "nat \<Rightarrow> nat" where
  "bits n = (if n = 0 then 0 else Suc (bits (n div 2)))"

declare bits.simps [simp del]

definition round_even :: "nat \<Rightarrow> nat \<Rightarrow> nat" where
  "round_even p q =
     (let d = p div q; r = p mod q in if 2 * r < q \<or> (2 * r = q \<and> even d) then d else d + 1)"

definition scaled :: "int \<Rightarrow> nat \<times> nat \<Rightarrow> nat \<times> nat" where
  "scaled k x = (case x of (p, q) \<Rightarrow> if 0 \<le> k then (p * 2 ^ nat k, q) else (p, q * 2 ^ nat (- k)))"

text \<open>The double nearest to a positive fraction; the numbers below are far from the limits of the exponent.\<close>

definition round_double :: "nat \<times> nat \<Rightarrow> nat \<times> nat" where
  "round_double x =
     (case x of (p, q) \<Rightarrow>
       if p = 0 then (0, 1)
       else
         (let k0 = 53 + int (bits q) - int (bits p);
              k = (case scaled k0 x of (n, d) \<Rightarrow> if n div d \<ge> 2 ^ 53 then k0 - 1 else k0);
              m = (case scaled k x of (n, d) \<Rightarrow> round_even n d)
          in scaled (- k) (m, 1)))"

definition double_div :: "nat \<times> nat \<Rightarrow> nat \<times> nat \<Rightarrow> nat \<times> nat" where
  "double_div x y = round_double (fst x * snd y, snd x * fst y)"

text \<open>\<open>%.2f\<close> of a double.\<close>

definition show_fixed2 :: "nat \<times> nat \<Rightarrow> string" where
  "show_fixed2 x =
     (let n = round_even (100 * fst x) (snd x)
      in show_nat (n div 100) @ [CHR ''.'', digit_char (n mod 100 div 10), digit_char (n mod 10)])"

text \<open>
  \<open>((double) bytes) / 125 / secs\<close>, printed. A division by zero gives an infinity, or for 0 / 0 a value that
  is not a number, whose sign depends on the processor.
\<close>

definition avg_text :: "64 word \<Rightarrow> 64 word \<Rightarrow> string" where
  "avg_text bytes secs =
     (if secs = 0 then (if bytes = 0 then ''-nan'' else ''inf'')
      else show_fixed2 (double_div (double_div (round_double (unat bytes, 1)) (125, 1))
             (round_double (unat secs, 1))))"

section \<open>Status\<close>

definition ln :: "string \<Rightarrow> string" where
  "ln x = x @ [NL]"

text \<open>A difference of times as \<open>unsigned long\<close>.\<close>

definition secs_since :: "int \<Rightarrow> int \<Rightarrow> 64 word" where
  "secs_since start now = of_int (now - start)"

definition minutes_text :: "int \<Rightarrow> string" where
  "minutes_text minutes = format_duration 0 (to_int32 (minutes * 60))"

definition kbytes :: "64 word \<Rightarrow> string" where
  "kbytes w = show_word (w div 1000)"

definition status_head :: "int \<Rightarrow> nds \<Rightarrow> string" where
  "status_head now s =
     (let cfg = config s; name = show_str (gw_http_name cfg); name_port = show_str (gw_http_name_port cfg);
          listening = (\<lambda>x. ln (''Server listening: http://'' @ x))
      in ln ''=================='' @ ln ''NoDogSplash Status'' @ ln ''====''
       @ ln ''Version: 5.0.2''
       @ ln (''Uptime: '' @ format_duration (started_time s) now)
       @ ln (''Gateway Name: '' @ gw_name cfg)
       @ ln (''Managed interface: '' @ show_str (gw_interface cfg))
       @ ln (''Managed IP range: '' @ gw_iprange cfg)
       @ listening name
       @ (if \<not> strncmp_eq name_port name (length name_port) then listening name_port else [])
       @ (case gw_domain cfg of Some d \<Rightarrow> listening d | None \<Rightarrow> [])
       @ (case binauth cfg of Some b \<Rightarrow> ln (''Binauth Script: '' @ b) | None \<Rightarrow> ln ''Binauth: Disabled'')
       @ (case preauth cfg of Some b \<Rightarrow> ln (''Preauth Script: '' @ b) | None \<Rightarrow> ln ''Preauth: Disabled'')
       @ ln (''Client Check Interval: '' @ show_int (checkinterval cfg) @ ''s'')
       @ ln (''Preauth Idle Timeout: '' @ minutes_text (preauth_idle_timeout cfg) @ ''m'')
       @ ln (''Auth Idle Timeout: '' @ minutes_text (auth_idle_timeout cfg))
       @ ln (''Session Timeout: '' @ minutes_text (session_timeout cfg))
       @ ln (''Block after Session timed out: '' @ (if session_timeout_block cfg \<noteq> 0 then ''yes'' else ''no''))
       @ (if session_limit_block cfg \<noteq> 0
          then ln (''Block after Download limit: '' @ show_int (session_limit_block cfg) @ '' MB'') else [])
       @ (case redirectURL cfg of Some u \<Rightarrow> ln (''Redirect URL: '' @ u) | None \<Rightarrow> [])
       @ ln (''Traffic control: '' @ (if traffic_control cfg \<noteq> 0 then ''yes'' else ''no''))
       @ (if traffic_control cfg \<noteq> 0
          then ln (''Download rate limit: '' @ (if download_limit cfg > 0
                     then show_int (download_limit cfg) @ '' kbit/s'' else ''none''))
             @ ln (''Upload rate limit: '' @ (if upload_limit cfg > 0
                     then show_int (upload_limit cfg) @ '' kbit/s'' else ''none''))
          else []))"

definition total_line :: "string \<Rightarrow> 64 word \<Rightarrow> 64 word \<Rightarrow> string" where
  "total_line label bytes uptimesecs =
     ln (''Total '' @ label @ '': '' @ kbytes bytes @ '' kByte; avg: '' @ avg_text bytes uptimesecs @ '' kbit/s'')"

definition status_client :: "(int \<Rightarrow> string) \<Rightarrow> int \<Rightarrow> nds \<Rightarrow> nat \<Rightarrow> t_client \<Rightarrow> string" where
  "status_client ft now s indx c =
     (let k = counters c; d0 = secs_since (session_start c) now; durationsecs = (if d0 < 1 then 1 else d0)
      in ln (''Client '' @ show_nat indx)
       @ ln (''  IP: '' @ cl_ip c @ '' MAC: '' @ cl_mac c)
       @ ln (''  Last Activity: '' @ ft (last_updated k) @ '' ('' @ format_duration (last_updated k) now @ '' ago)'')
       @ (if session_start c \<noteq> 0
          then ln (''  Session Start: '' @ ft (session_start c) @ '' ('' @ format_duration (session_start c) now @ '' ago)'')
          else ln ''  Session Start: -'')
       @ (if session_end c \<noteq> 0
          then ln (''  Session End:   '' @ ft (session_end c) @ '' ('' @ format_duration now (session_end c) @ '' left)'')
          else ln ''  Session End:   -'')
       @ ln (''  Token: '' @ cl_token c)
       @ ln (''  State: '' @ fw_connection_state_as_string (fw_connection_state c) s)
       @ ln (''  Download: '' @ kbytes (incoming k) @ '' kByte; avg: '' @ avg_text (incoming k) durationsecs @ '' kbit/s'')
       @ ln (''  Upload:   '' @ kbytes (outgoing k) @ '' kByte; avg: '' @ avg_text (outgoing k) durationsecs @ '' kbit/s'')
       @ ln [])"

text \<open>A loop over the client list: the text of each client with its index.\<close>

fun print_clients :: "(nat \<Rightarrow> t_client \<Rightarrow> string) \<Rightarrow> nat \<Rightarrow> (addr \<times> t_client) list \<Rightarrow> string" where
  "print_clients p indx [] = []"
| "print_clients p indx ((a, c) # cs) = p indx c @ print_clients p (indx + 1) cs"

definition mac_section :: "string \<Rightarrow> bool \<Rightarrow> string list \<Rightarrow> string" where
  "mac_section label not_applicable macs =
     label @ '' MAC addresses:'' @
     (if not_applicable then ln '' N/A''
      else if macs \<noteq> [] then ln [] @ concat (map (\<lambda>m. ln (''  '' @ m)) macs)
      else ln '' none'')"

definition ndsctl_status :: "env \<Rightarrow> (int \<Rightarrow> string) \<Rightarrow> nds \<Rightarrow> string \<times> nds" where
  "ndsctl_status env ft s0 =
     (case c_time env s0 of (now, s1) \<Rightarrow>
       (let uptimesecs = secs_since (started_time s1) now in
        case iptables_fw_total_download env s1 of (download_bytes, s2) \<Rightarrow>
        case iptables_fw_total_upload env s2 of (upload_bytes, s3) \<Rightarrow>
          (let s = snd (iptables_fw_counters_update env s3) in
           (status_head now s1
            @ total_line ''download'' download_bytes uptimesecs
            @ total_line ''upload'' upload_bytes uptimesecs
            @ ln ''===='' @ ln (''Client authentications since start: '' @ show_word (authenticated_since_start s3))
            @ ln (''Current clients: '' @ show_int (get_client_list_length s))
            @ (if clients s \<noteq> [] then ln [] else [])
            @ print_clients (status_client ft now s) 0 (clients s)
            @ ln ''====''
            @ mac_section ''Blocked'' (macmechanism (config s) = MAC_ALLOW) (blockedmaclist (config s))
            @ mac_section ''Allowed'' (macmechanism (config s) = MAC_BLOCK) (allowedmaclist (config s))
            @ mac_section ''Trusted'' False (trustedmaclist (config s))
            @ ln ''========'', s))))"

section \<open>Machine-readable lists\<close>

definition duration_of :: "t_client \<Rightarrow> int \<Rightarrow> string" where
  "duration_of c now = show_int (if session_start c \<noteq> 0 then now - session_start c else 0)"

definition clients_entry :: "int \<Rightarrow> nds \<Rightarrow> nat \<Rightarrow> t_client \<Rightarrow> string" where
  "clients_entry now s indx c =
     (let k = counters c; durationsecs = secs_since (session_start c) now
      in ln (''client_id='' @ show_nat indx) @ ln (''ip='' @ cl_ip c) @ ln (''mac='' @ cl_mac c)
       @ ln (''added='' @ show_int (session_start c)) @ ln (''active='' @ show_int (last_updated k))
       @ ln (''duration='' @ duration_of c now)
       @ ln (''token='' @ cl_token c) @ ln (''state='' @ fw_connection_state_as_string (fw_connection_state c) s)
       @ ln (''downloaded='' @ kbytes (incoming k)) @ ln (''avg_down_speed='' @ avg_text (incoming k) durationsecs)
       @ ln (''uploaded='' @ kbytes (outgoing k)) @ ln (''avg_up_speed='' @ avg_text (outgoing k) durationsecs)
       @ ln [])"

definition ndsctl_clients :: "env \<Rightarrow> nds \<Rightarrow> string \<times> nds" where
  "ndsctl_clients env s =
     (case c_time env s of (now, s) \<Rightarrow>
       (let s = snd (iptables_fw_counters_update env s)
        in (ln (show_int (get_client_list_length s)) @ (if clients s \<noteq> [] then ln [] else [])
            @ print_clients (clients_entry now s) 0 (clients s), s)))"

section \<open>JSON\<close>

definition quoted :: "string \<Rightarrow> string" where
  "quoted x = CHR 0x22 # x @ [CHR 0x22]"

definition field :: "string \<Rightarrow> string \<Rightarrow> string" where
  "field name v = quoted name @ '':'' @ v"

text \<open>The id is printed with \<open>%d\<close>.\<close>

definition json_fields :: "t_client \<Rightarrow> int \<Rightarrow> nds \<Rightarrow> (string \<times> string) list" where
  "json_fields c now s =
     (let k = counters c; durationsecs = secs_since (session_start c) now
      in [(''id'', show_int (sint (cl_id c))),
          (''ip'', quoted (cl_ip c)),
          (''mac'', quoted (cl_mac c)),
          (''added'', show_int (session_start c)),
          (''active'', show_int (last_updated k)),
          (''duration'', duration_of c now),
          (''token'', quoted (cl_token c)),
          (''state'', quoted (fw_connection_state_as_string (fw_connection_state c) s)),
          (''downloaded'', kbytes (incoming k)),
          (''avg_down_speed'', avg_text (incoming k) durationsecs),
          (''uploaded'', kbytes (outgoing k)),
          (''avg_up_speed'', avg_text (outgoing k) durationsecs)])"

definition ndsctl_json_client :: "t_client \<Rightarrow> int \<Rightarrow> nds \<Rightarrow> string" where
  "ndsctl_json_client c now s =
     (let fs = json_fields c now s
      in concat (map (\<lambda>(n, v). ln (field n v @ '','')) (butlast fs)) @ ln (case last fs of (n, v) \<Rightarrow> field n v))"

definition ndsctl_json_one :: "env \<Rightarrow> string \<Rightarrow> nds \<Rightarrow> string \<times> nds" where
  "ndsctl_json_one env arg s =
     (case c_time env s of (now, s) \<Rightarrow>
       (let s = snd (iptables_fw_counters_update env s) in
        (case client_list_find_by_any arg arg arg s of
           Some a \<Rightarrow> (case client_at s a of
               Some c \<Rightarrow> ln ''{'' @ ndsctl_json_client c now s @ ln ''}''
             | None \<Rightarrow> [])
         | None \<Rightarrow> ln ''{}'', s)))"

fun json_clients :: "int \<Rightarrow> nds \<Rightarrow> (addr \<times> t_client) list \<Rightarrow> string" where
  "json_clients now s [] = []"
| "json_clients now s ((a, c) # cs) =
     ln (quoted (cl_mac c) @ '':{'') @ ndsctl_json_client c now s
     @ (if cs \<noteq> [] then ln ''},'' else ln ''}'') @ json_clients now s cs"

definition ndsctl_json_all :: "env \<Rightarrow> nds \<Rightarrow> string \<times> nds" where
  "ndsctl_json_all env s =
     (case c_time env s of (now, s) \<Rightarrow>
       (let s = snd (iptables_fw_counters_update env s)
        in (ln ''{'' @ ln (quoted ''client_length'' @ '': '' @ show_int (get_client_list_length s) @ '','')
            @ ln (quoted ''clients'' @ '':{'') @ json_clients now s (clients s) @ ln ''}'' @ ln ''}'', s)))"

definition ndsctl_json :: "env \<Rightarrow> string \<Rightarrow> nds \<Rightarrow> string \<times> nds" where
  "ndsctl_json env arg s = (if arg \<noteq> [] then ndsctl_json_one env arg s else ndsctl_json_all env s)"

section \<open>A report changes the counters only\<close>

text \<open>The clients without their counters, and the state without clients, command log and clock.\<close>

definition sessions :: "nds \<Rightarrow> (addr \<times> t_client) list" where
  "sessions s = map (\<lambda>(a, c). (a, c\<lparr>counters := \<lparr>incoming = 0, outgoing = 0, last_updated = 0\<rparr>\<rparr>)) (clients s)"

definition listing :: "string \<times> int \<Rightarrow> bool" where
  "listing x \<longleftrightarrow> prefix ''iptables -v -n -x -t mangle -L '' (fst x)"

definition only_counters :: "nds \<Rightarrow> nds \<Rightarrow> bool" where
  "only_counters s s' \<longleftrightarrow> sessions s' = sessions s
     \<and> s'\<lparr>clients := [], cmd_log := [], time_calls := 0\<rparr> = s\<lparr>clients := [], cmd_log := [], time_calls := 0\<rparr>
     \<and> (\<exists>log. cmd_log s' = cmd_log s @ log \<and> list_all listing log)"

lemma only_counters_refl [simp]: "only_counters s s"
  by (simp add: only_counters_def)

lemma only_counters_trans [trans]: "only_counters s s' \<Longrightarrow> only_counters s' s'' \<Longrightarrow> only_counters s s''"
  by (fastforce simp: only_counters_def)

lemma time_only_counters [simp]: "only_counters s (s\<lparr>time_calls := t\<rparr>)"
  by (simp add: only_counters_def sessions_def)

lemma update_only_counters: "only_counters s (update_client a (\<lambda>c. c\<lparr>counters := f (counters c)\<rparr>) s)"
  by (auto simp: only_counters_def sessions_def update_client_def)

lemma popen_read_only_counters:
  "prefix ''iptables -v -n -x -t mangle -L '' cmd \<Longrightarrow> only_counters s (snd (popen_read env cmd s))"
  by (auto simp: popen_read_def popen_def only_counters_def sessions_def listing_def split: option.split)

lemma updates_only_counters:
  "only_counters s (update_outgoing env ip n s)" "only_counters s (update_incoming ip n s)"
  using only_counters_trans [OF time_only_counters update_only_counters [where f = "\<lambda>k. k\<lparr>outgoing := _, last_updated := _\<rparr>"]]
    update_only_counters [where f = "\<lambda>k. k\<lparr>incoming := _\<rparr>"]
  by (simp_all add: update_outgoing_def update_incoming_def c_time_def split: option.split)

lemma counters_update_only_counters: "only_counters s (snd (iptables_fw_counters_update env s))"
proof (rule counters_update_rule [where I = "only_counters s"])
  fix chain s' assume "only_counters s s'"
  then show "only_counters s (snd (popen_read env (''iptables -v -n -x -t mangle -L '' @ chain) s'))"
    by (rule only_counters_trans) (rule popen_read_only_counters, simp)
qed (auto intro: only_counters_trans updates_only_counters)

lemma total_only_counters:
  "only_counters s (snd (iptables_fw_total_upload env s))"
  "only_counters s (snd (iptables_fw_total_download env s))"
proof -
  have "only_counters s (snd (fw_total env cmd fmt chain s))" if "prefix ''iptables -v -n -x -t mangle -L '' cmd"
    for cmd fmt chain
    using popen_read_only_counters [OF that, of s env]
    by (cases "popen_read env cmd s") (auto simp: fw_total_def split: option.split)
  then show "only_counters s (snd (iptables_fw_total_upload env s))"
    "only_counters s (snd (iptables_fw_total_download env s))"
    by (simp_all add: iptables_fw_total_upload_def iptables_fw_total_download_def)
qed

lemma timed_update_only_counters:
  "only_counters s (snd (iptables_fw_counters_update env (s\<lparr>time_calls := t\<rparr>)))"
  by (rule only_counters_trans [OF time_only_counters counters_update_only_counters])

lemma reports_only_counters:
  "only_counters s (snd (ndsctl_status env ft s)) \<and> only_counters s (snd (ndsctl_clients env s))
   \<and> only_counters s (snd (ndsctl_json env arg s))"
proof (intro conjI)
  let ?s1 = "s\<lparr>time_calls := Suc (time_calls s)\<rparr>"
  let ?s2 = "snd (iptables_fw_total_download env ?s1)"
  let ?s3 = "snd (iptables_fw_total_upload env ?s2)"
  note time_only_counters
  also note total_only_counters(2)
  also note total_only_counters(1)
  also note counters_update_only_counters
  finally have "only_counters s (snd (iptables_fw_counters_update env ?s3))" .
  then show "only_counters s (snd (ndsctl_status env ft s))"
    by (simp add: ndsctl_status_def c_time_def case_prod_beta Let_def)
qed (simp_all add: ndsctl_clients_def ndsctl_json_def ndsctl_json_one_def ndsctl_json_all_def c_time_def Let_def
    timed_update_only_counters)

text \<open>
  C29. The reports of the control program are read-only: \<open>ndsctl_status\<close>, \<open>ndsctl_clients\<close> and \<open>ndsctl_json\<close>
  change nothing but the traffic counters and activity times of the clients; they run only
  commands that list the rules of the mangle table.
\<close>

theorem reports_read_only:
  "only_counters s (snd (ndsctl_status env ft s)) \<and> only_counters s (snd (ndsctl_clients env s))
   \<and> only_counters s (snd (ndsctl_json env arg s))"
  by (rule reports_only_counters)

lemma report_gateway_inv:
  assumes "gateway_inv s" and "s' = snd (ndsctl_status env ft s) \<or> s' = snd (ndsctl_clients env s) \<or> s' = snd (ndsctl_json env arg s)"
  shows "gateway_inv s'"
proof -
  have total: "gateway_inv (snd (fw_total env (''iptables -v -n -x -t mangle -L '' @ c) fmt chain s))" if "gateway_inv s"
    for s c fmt chain
    using popen_read_gateway_inv [OF that neutral_listing, of env c]
    by (cases "popen_read env (''iptables -v -n -x -t mangle -L '' @ c) s") (auto simp: fw_total_def split: option.split)
  note tot = total [of _ "''PREROUTING''", simplified] total [of _ "''POSTROUTING''", simplified]
  note time_gateway_inv [OF assms(1)]
  note t = this counters_update_gateway_inv [OF this]
  from assms(2) show ?thesis
    by (elim disjE)
      (simp_all add: ndsctl_status_def ndsctl_clients_def ndsctl_json_def ndsctl_json_one_def ndsctl_json_all_def
        c_time_def Let_def case_prod_beta iptables_fw_total_upload_def iptables_fw_total_download_def t tot
        counters_update_gateway_inv)
qed

section \<open>Numbers and durations\<close>

text \<open>A JSON number without sign and exponent.\<close>

definition json_number :: "string \<Rightarrow> bool" where
  "json_number v \<longleftrightarrow> list_all (\<lambda>c. isdigit c \<or> c = CHR ''.'') v"

lemma json_number_avg: "json_number (avg_text bytes secs) \<longleftrightarrow> secs \<noteq> 0"
proof (cases "secs = 0")
  case True
  then show ?thesis by (simp add: avg_text_def json_number_def isdigit_def)
next
  case False
  have "json_number (show_fixed2 x)" for x
    by (auto simp: show_fixed2_def json_number_def list_all_iff Let_def dest: set_show_nat)
  with False show ?thesis by (simp add: avg_text_def)
qed

text \<open>
  The JSON report of a client gives the average rates as numbers unless the session started in
  the second of the report; in that second it prints \<open>inf\<close> or \<open>-nan\<close>, which is not JSON.
\<close>

theorem json_speed_number:
  "\<exists>v w. (''avg_down_speed'', v) \<in> set (json_fields c now s) \<and> (''avg_up_speed'', w) \<in> set (json_fields c now s)
     \<and> (json_number v \<longleftrightarrow> secs_since (session_start c) now \<noteq> 0) \<and> (json_number w \<longleftrightarrow> secs_since (session_start c) now \<noteq> 0)"
  by (rule exI [of _ "avg_text (incoming (counters c)) (secs_since (session_start c) now)"],
      rule exI [of _ "avg_text (outgoing (counters c)) (secs_since (session_start c) now)"])
    (simp add: json_fields_def Let_def json_number_avg)

text \<open>
  For durations of less than 2^31 seconds, \<open>format_duration\<close> splits the seconds exactly: days,
  hours, minutes and seconds add up to the duration, and the last three are below 24, 60 and 60.
\<close>

theorem duration_fields_exact:
  assumes "0 \<le> secs" and "secs < 2 ^ 31" and "duration_fields secs = (days, hours, minutes, seconds)"
  shows "((days * 24 + hours) * 60 + minutes) * 60 + seconds = secs \<and> 0 \<le> days
    \<and> 0 \<le> hours \<and> hours < 24 \<and> 0 \<le> minutes \<and> minutes < 60 \<and> 0 \<le> seconds \<and> seconds < 60"
proof -
  have "is_int32 x" if "0 \<le> x" "x \<le> secs" for x using that assms(2) by (simp add: is_int32_def)
  then have t: "to_int32 x = x" if "0 \<le> x" "x \<le> secs" for x using that by simp
  define d h m where "d = secs div 86400" and "h = (secs - d * 86400) div 3600"
    and "m = (secs - d * 86400 - h * 3600) div 60"
  have q: "0 \<le> x div n" "x div n * n \<le> x" "x - x div n * n < n" "x div n \<le> x" if "0 \<le> x" "0 < n" for x n :: int
  proof -
    have "x - x div n * n = x mod n" by (rule minus_div_mult_eq_mod)
    with that pos_mod_bound [of n x] pos_mod_sign [of n x]
    show "x div n * n \<le> x" "x - x div n * n < n" by linarith+
    show "0 \<le> x div n" using that by (simp add: pos_imp_zdiv_nonneg_iff)
    show "x div n \<le> x" using that zdiv_mono2 [of x 1 n] by simp
  qed
  have d: "0 \<le> d" "d * 86400 \<le> secs" "secs - d * 86400 < 86400" "d \<le> secs"
    using q [OF assms(1), of 86400] by (simp_all add: d_def)
  have h: "0 \<le> h" "h * 3600 \<le> secs - d * 86400" "secs - d * 86400 - h * 3600 < 3600" "h \<le> secs - d * 86400"
    using q [of "secs - d * 86400" 3600] d(2) by (simp_all add: h_def)
  have m: "0 \<le> m" "m * 60 \<le> secs - d * 86400 - h * 3600" "secs - d * 86400 - h * 3600 - m * 60 < 60"
      "m \<le> secs - d * 86400 - h * 3600"
    using q [of "secs - d * 86400 - h * 3600" 60] h(2) by (simp_all add: m_def)
  have "days = d" "hours = h" "minutes = m" "seconds = secs - d * 86400 - h * 3600 - m * 60"
    using assms(3) t [of d] t [of "d * 86400"] t [of h] t [of "h * 3600"] t [of m] t [of "m * 60"]
      t [of "secs - d * 86400 - h * 3600 - m * 60"] d h m
    by (simp_all add: duration_fields_def Let_def flip: d_def h_def m_def)
  then show ?thesis using d h m by simp
qed

theorem duration_fields_exact_witness:
  "((1 * 24 + 10) * 60 + 17) * 60 + (36 :: int) = 123456 \<and> duration_fields 123456 = (1, 10, 17, 36)"
proof -
  have e: "duration_fields 123456 = (1, 10, 17, 36)" by code_simp
  from duration_fields_exact [OF _ _ this] show ?thesis using e by simp
qed

end
