(* ===== verification/Host.thy ===== *)
theory Host
  imports Conf
begin

text \<open>
  The parts of the program that face the operating system: the log messages of \<open>src/debug.c\<close>, the wrappers of
  \<open>src/safe.c\<close> that end the process when the C library fails, the addresses of the gateway's interface
  and the interface of its default route (\<open>src/util.c\<close>), the signal handlers of \<open>src/main.c\<close> and the control socket of \<open>src/ndsctl_thread.c\<close>. What the
  system calls return is an argument of the definitions.
\<close>

section \<open>Log messages\<close>

abbreviation (input) LOG_EMERG :: int where "LOG_EMERG \<equiv> 0"
abbreviation (input) LOG_CRIT :: int where "LOG_CRIT \<equiv> 2"
abbreviation (input) LOG_ERR :: int where "LOG_ERR \<equiv> 3"
abbreviation (input) LOG_WARNING :: int where "LOG_WARNING \<equiv> 4"
abbreviation (input) LOG_NOTICE :: int where "LOG_NOTICE \<equiv> 5"
abbreviation (input) LOG_INFO :: int where "LOG_INFO \<equiv> 6"
abbreviation (input) LOG_DEBUG :: int where "LOG_DEBUG \<equiv> 7"

text \<open>The levels that \<open>do_log\<close> handles; for the others it logs a message of its own and returns 1.\<close>

definition do_log :: "int \<Rightarrow> int \<Rightarrow> bool option" where
  "do_log level lim =
     (if level = LOG_EMERG \<or> level = LOG_ERR then Some (lim \<ge> 0)
      else if level = LOG_WARNING \<or> level = LOG_NOTICE then Some (lim \<ge> 1)
      else if level = LOG_INFO then Some (lim \<ge> 2)
      else if level = LOG_DEBUG then Some (lim \<ge> 3)
      else None)"

datatype log_line = Stdout string | Stderr string | Syslog int string

text \<open>
  A message that passes, with the time and the process id of the moment. The message is formatted; \<open>where\<close> is
  the file name and line.
\<close>

definition emit :: "string \<Rightarrow> int \<Rightarrow> string \<times> int \<Rightarrow> int \<Rightarrow> string \<Rightarrow> s_config \<Rightarrow> log_line list" where
  "emit ts pid loc level msg cfg =
     (let line = ''['' @ show_int level @ '']['' @ take 24 ts @ '']['' @ show_int pid @ '']('' @ fst loc @ '':''
              @ show_int (snd loc) @ '') '' @ msg @ [NL]
      in (if daemon cfg \<noteq> 0 then Stdout line else Stderr line)
         # (if log_syslog cfg \<noteq> 0 then [Syslog level msg] else []))"

definition debug_msg :: "string \<Rightarrow> int \<Rightarrow> string \<times> int \<Rightarrow> int \<Rightarrow> string \<Rightarrow> s_config \<Rightarrow> log_line list" where
  "debug_msg ts pid loc level msg cfg =
     (case do_log level (debuglevel cfg) of
        Some b \<Rightarrow> if b then emit ts pid loc level msg cfg else []
      | None \<Rightarrow>
          (if do_log LOG_ERR (debuglevel cfg) = Some True
           then emit ts pid (''debug.c'', 57) LOG_ERR (''Unhandled debug level: '' @ show_int level) cfg else [])
          @ emit ts pid loc level msg cfg)"

text \<open>A higher debug level shows at least the messages of a lower one, on the same channels.\<close>

lemma debug_msg_more:
  assumes "debuglevel cfg \<le> d"
  shows "set (debug_msg ts pid loc level msg cfg) \<subseteq> set (debug_msg ts pid loc level msg (cfg\<lparr>debuglevel := d\<rparr>))"
proof -
  have "emit ts pid l n m (cfg\<lparr>debuglevel := d\<rparr>) = emit ts pid l n m cfg" for l n m by (simp add: emit_def)
  with assms show ?thesis by (auto simp: debug_msg_def do_log_def)
qed

section \<open>Wrappers that end the process\<close>

datatype 'a safe = Returns 'a | Exits int | Aborts

definition safe_malloc :: "'p option \<Rightarrow> 'p safe" where
  "safe_malloc ptr = (case ptr of None \<Rightarrow> Exits 1 | Some p \<Rightarrow> Returns p)"

definition safe_strdup :: "(string \<Rightarrow> string option) \<Rightarrow> string option \<Rightarrow> string safe" where
  "safe_strdup strdup s =
     (case s of None \<Rightarrow> Exits 1 | Some t \<Rightarrow> (case strdup t of None \<Rightarrow> Exits 1 | Some u \<Rightarrow> Returns u))"

definition safe_vasprintf :: "string option \<Rightarrow> string safe" where
  "safe_vasprintf formatted = (case formatted of None \<Rightarrow> Exits 1 | Some t \<Rightarrow> Returns t)"

definition safe_asprintf :: "string option \<Rightarrow> string safe" where
  "safe_asprintf formatted = safe_vasprintf formatted"

definition safe_fork :: "int \<Rightarrow> int safe" where
  "safe_fork result = (if result = -1 then Aborts else Returns result)"

section \<open>The interface of the gateway\<close>

text \<open>An IPv6 address is given by its text.\<close>

datatype sockaddr = AF_INET nat nat nat nat | AF_INET6 string | AF_other

text \<open>The list of \<open>getifaddrs\<close>: interface names with their addresses, NULL for none.\<close>

fun find_iface_ip :: "(string \<times> sockaddr option) list \<Rightarrow> string \<Rightarrow> int \<Rightarrow> string \<Rightarrow> string" where
  "find_iface_ip [] ifname v6 addrbuf = addrbuf"
| "find_iface_ip ((name, addr) # cur) ifname v6 addrbuf =
     (if name = ifname then
        (case addr of
           Some (AF_INET6 text) \<Rightarrow> if v6 \<noteq> 0 then text else find_iface_ip cur ifname v6 addrbuf
         | Some (AF_INET a b c d) \<Rightarrow> if v6 = 0 then dotted [a, b, c, d] else find_iface_ip cur ifname v6 addrbuf
         | _ \<Rightarrow> find_iface_ip cur ifname v6 addrbuf)
      else find_iface_ip cur ifname v6 addrbuf)"

definition get_iface_ip :: "(string \<times> sockaddr option) list option \<Rightarrow> string \<Rightarrow> int \<Rightarrow> string option" where
  "get_iface_ip addrs ifname v6 =
     map_option (\<lambda>as. find_iface_ip as ifname v6 (if v6 \<noteq> 0 then ''::'' else ''0.0.0.0'')) addrs"

definition show_hex2 :: "8 word \<Rightarrow> string" where
  "show_hex2 w = (let s = show_hex w in replicate (2 - length s) (CHR ''0'') @ s)"

definition mac_text :: "8 word list \<Rightarrow> string" where
  "mac_text hw = show_hex2 (hw ! 0) @ '':'' @ show_hex2 (hw ! 1) @ '':'' @ show_hex2 (hw ! 2) @ '':''
     @ show_hex2 (hw ! 3) @ '':'' @ show_hex2 (hw ! 4) @ '':'' @ show_hex2 (hw ! 5)"

abbreviation (input) IFNAMSIZ :: nat where "IFNAMSIZ \<equiv> 16"

text \<open>
  On Linux. \<open>sock\<close>: whether a socket can be created; \<open>ioctl\<close>: the hardware address of an interface. \<^const>\<open>None\<close>: the
  name is copied past the end of \<open>ifr_name\<close>.
\<close>

definition get_iface_mac :: "bool \<Rightarrow> (string \<Rightarrow> (8 word list) option) \<Rightarrow> string \<Rightarrow> string option option" where
  "get_iface_mac sock ioctl ifname =
     (if length ifname \<ge> IFNAMSIZ then None
      else Some (if \<not> sock then None else map_option mac_text (ioctl ifname)))"

definition is_addr :: "(string \<Rightarrow> bool) \<Rightarrow> string \<Rightarrow> bool" where
  "is_addr inet_pton6 addr \<longleftrightarrow> inet_pton4 addr \<or> inet_pton6 addr"

text \<open>
  \<open>get_ext_iface\<close>: the interface of the default route in \<open>/proc/net/route\<close>. \<open>routes i\<close> is the file at try \<open>i\<close>; when it
  cannot be opened, \<open>feof\<close> is called on NULL, \<^const>\<open>None\<close>. Names of interfaces fit their buffer of 16 bytes.
\<close>

abbreviation NUM_EXT_INTERFACE_DETECT_RETRY :: nat where "NUM_EXT_INTERFACE_DETECT_RETRY \<equiv> 0"

definition route_format :: "directive list" where
  "route_format = FWord # FSpace # FWord # concat (replicate 9 [FSpace, FSkipWord]) @ [FSpace]"

lemma scanf_word_shorter:
  assumes "scanf (FWord # ds) stream = (rc, vs, rest)" and "rest \<noteq> []"
  shows "length rest < length stream"
proof -
  let ?s = "skip_space stream"
  let ?r = "dropWhile (\<lambda>c. \<not> isspace c) ?s"
  have s: "?s \<noteq> []" using assms by (auto simp: scanf_def scan_word_def Let_def)
  have l: "length ?s \<le> length stream" by (simp add: skip_space_def length_dropWhile_le)
  have "\<not> isspace (hd ?s)" using s hd_dropWhile unfolding skip_space_def by blast
  with s have "length ?r < length ?s" by (cases ?s) (auto simp: le_imp_less_Suc length_dropWhile_le)
  moreover have "scanf_from ds [SStr (takeWhile (\<lambda>c. \<not> isspace c) ?s)] ?r = (rc, vs, rest)"
    using assms(1) s by (simp add: scanf_def scan_word_def Let_def)
  ultimately show ?thesis using l scanf_from_rest by fastforce
qed

function default_route :: "string \<Rightarrow> string option" where
  "default_route stream =
     (case scanf route_format stream of (rc, vs, rest) \<Rightarrow>
        if rc = 2 \<and> scan_str (vs ! 1) = ''00000000'' then Some (scan_str (vs ! 0))
        else if rest = [] then None else default_route rest)"
  by pat_completeness auto
termination
  by (relation "measure length") (auto simp: route_format_def dest: scanf_word_shorter [OF sym] simp del: concat.simps replicate.simps)

declare default_route.simps [simp del]

fun detect_iface :: "nat \<Rightarrow> nat \<Rightarrow> (nat \<Rightarrow> string option) \<Rightarrow> (int + string) option" where
  "detect_iface 0 i routes = Some (Inl 1)"
| "detect_iface (Suc n) i routes =
     (case routes i of
        None \<Rightarrow> None
      | Some stream \<Rightarrow>
          (case default_route stream of Some device \<Rightarrow> Some (Inr device) | None \<Rightarrow> detect_iface n (i + 1) routes))"

definition get_ext_iface :: "(nat \<Rightarrow> string option) \<Rightarrow> (int + string) option" where
  "get_ext_iface routes = detect_iface NUM_EXT_INTERFACE_DETECT_RETRY 1 routes"

text \<open>
  The first file with a default route decides, if it is read in time; but with the number of tries of \<open>conf.h\<close>, which is
  meant to retry for ever, the process exits at once.
\<close>

lemma detect_iface_first:
  assumes "routes (i + k) = Some stream" and "default_route stream = Some device" and "k < n"
    and "\<And>j. j < k \<Longrightarrow> \<exists>stream. routes (i + j) = Some stream \<and> default_route stream = None"
  shows "detect_iface n i routes = Some (Inr device)"
  using assms
proof (induction n arbitrary: i k)
  case (Suc n)
  show ?case
  proof (cases k)
    case 0
    with Suc.prems show ?thesis by simp
  next
    case (Suc k')
    obtain st where "routes i = Some st" "default_route st = None" using Suc.prems(4) [of 0] Suc by auto
    moreover have "\<exists>stream. routes (Suc i + j) = Some stream \<and> default_route stream = None" if "j < k'" for j
      using Suc.prems(4) [of "Suc j"] that Suc by simp
    ultimately show ?thesis using Suc.IH [of "Suc i" k'] Suc.prems(1-3) Suc by simp
  qed
qed simp

lemma get_ext_iface_exits: "get_ext_iface routes = Some (Inl 1)"
  by (simp add: get_ext_iface_def)

section \<open>Signals\<close>

datatype signal = SIGCHLD | SIGPIPE | SIGTERM | SIGQUIT | SIGINT
datatype sa_handler = Sigchld_handler | SIG_IGN | Termination_handler

definition signal_actions :: "(signal \<times> sa_handler) list" where
  "signal_actions = [(SIGCHLD, Sigchld_handler), (SIGPIPE, SIG_IGN), (SIGTERM, Termination_handler),
     (SIGQUIT, Termination_handler), (SIGINT, Termination_handler)]"

text \<open>The handlers are installed one after the other; the first \<open>sigaction\<close> that fails ends the program.\<close>

fun install_signals :: "(signal \<Rightarrow> bool) \<Rightarrow> (signal \<times> sa_handler) list \<Rightarrow> (signal \<rightharpoonup> sa_handler) \<Rightarrow> int + (signal \<rightharpoonup> sa_handler)" where
  "install_signals sigaction [] installed = Inr installed"
| "install_signals sigaction ((sig, h) # xs) installed =
     (if sigaction sig then install_signals sigaction xs (installed(sig \<mapsto> h)) else Inl 1)"

definition init_signals :: "(signal \<Rightarrow> bool) \<Rightarrow> int + (signal \<rightharpoonup> sa_handler)" where
  "init_signals sigaction = install_signals sigaction signal_actions Map.empty"

text \<open>What \<open>waitpid\<close> returns, and the messages of the handler, with their levels; it changes nothing.\<close>

datatype wait_result = Wait_failed bool string | Wait_exited int int | Wait_signaled int int | Wait_changed int int

definition sigchld_handler :: "wait_result \<Rightarrow> (int \<times> string) list" where
  "sigchld_handler w =
     [(LOG_DEBUG, ''SIGCHLD handler: Trying to reap a child''),
      (case w of
         Wait_failed echild err \<Rightarrow>
           if echild then (LOG_DEBUG, ''SIGCHLD handler: waitpid(): No child exists now.'')
           else (LOG_ERR, ''SIGCHLD handler: Error reaping child (waitpid() returned -1): '' @ err)
       | Wait_exited pid status \<Rightarrow>
           (LOG_DEBUG, ''SIGCHLD handler: Process PID '' @ show_int pid @ '' exited normally, status '' @ show_int status)
       | Wait_signaled pid sig \<Rightarrow>
           (LOG_DEBUG, ''SIGCHLD handler: Process PID '' @ show_int pid @ '' exited due to signal '' @ show_int sig)
       | Wait_changed pid status \<Rightarrow>
           (LOG_DEBUG, ''SIGCHLD handler: Process PID '' @ show_int pid @ '' changed state, status '' @ show_int status
              @ '' not exited, ignoring''))]"

section \<open>The control socket\<close>

abbreviation (input) SUN_PATH_SIZE :: nat where "SUN_PATH_SIZE \<equiv> 108"

text \<open>
  Before the loop of the control thread: \<open>Process_exit\<close> is \<open>exit\<close>, without the clean-up of the termination handler;
  \<open>Thread_exit\<close> ends the thread, and with it the gateway.
\<close>

datatype socket_setup = Process_exit int | Thread_exit | Listening int

definition open_control_socket :: "string \<Rightarrow> bool \<Rightarrow> bool \<Rightarrow> bool \<Rightarrow> bool \<Rightarrow> socket_setup" where
  "open_control_socket sock_name bound listening added allocated =
     (if length sock_name > SUN_PATH_SIZE - 1 then Process_exit 1
      else if \<not> bound then Thread_exit
      else if \<not> listening then Thread_exit
      else if \<not> added then Thread_exit
      else if \<not> allocated then Thread_exit
      else Listening 1)"

abbreviation (input) O_NONBLOCK :: int where "O_NONBLOCK \<equiv> 2048"

definition socket_set_non_blocking :: "int \<Rightarrow> (int \<Rightarrow> int) \<Rightarrow> int" where
  "socket_set_non_blocking getfl setfl = (if getfl \<noteq> 0 then setfl (getfl OR O_NONBLOCK) else getfl)"

section \<open>The addresses are well formed\<close>

definition octets_ok :: "sockaddr option \<Rightarrow> bool" where
  "octets_ok addr = (case addr of Some (AF_INET a b c d) \<Rightarrow> a < 256 \<and> b < 256 \<and> c < 256 \<and> d < 256 | _ \<Rightarrow> True)"

lemma check_ip_dotted: "a < 256 \<Longrightarrow> b < 256 \<Longrightarrow> c < 256 \<Longrightarrow> d < 256 \<Longrightarrow> check_ip_format (dotted [a, b, c, d])"
  unfolding check_ip_format_def inet_pton4_iff by (intro exI [of _ "[a, b, c, d]"]) auto

lemma find_iface_ip_well_formed:
  assumes "list_all (octets_ok \<circ> snd) as" and "check_ip_format buf"
  shows "check_ip_format (find_iface_ip as ifname 0 buf)"
  using assms
  by (induction as ifname "0 :: int" buf rule: find_iface_ip.induct)
    (auto simp: octets_ok_def check_ip_dotted simp del: dotted.simps split: option.split sockaddr.split)

text \<open>The address is that of the first entry for the interface, or the unspecified one.\<close>

lemma find_iface_ip_exact:
  "find_iface_ip as ifname 0 buf
   = (case filter (\<lambda>(name, addr). name = ifname \<and> (\<exists>a b c d. addr = Some (AF_INET a b c d))) as of
        (_, Some (AF_INET a b c d)) # _ \<Rightarrow> dotted [a, b, c, d] | _ \<Rightarrow> buf)"
  by (induction as ifname "0 :: int" buf rule: find_iface_ip.induct) (auto split: option.split sockaddr.split)

lemma show_hex2_digits: "\<exists>a < 16. \<exists>b < 16. show_hex2 w = [digit_char a, digit_char b]"
proof -
  have n: "unat w < 256" using unsigned_less [of w, where 'a = nat] by simp
  show ?thesis
  proof (cases "unat w < 16")
    case True
    then have "show_hex w = [digit_char (unat w)]" unfolding show_hex_def by (subst show_base.simps) simp
    moreover have "digit_char 0 = CHR ''0''" by (simp add: digit_char_def)
    ultimately show ?thesis using True by (intro exI [of _ 0]) (auto simp: show_hex2_def)
  next
    case False
    have q: "unat w div 16 < 16" using n by simp
    have "show_hex w = [digit_char (unat w div 16), digit_char (unat w mod 16)]"
      unfolding show_hex_def using False q by (subst show_base.simps, subst show_base.simps) simp
    then show ?thesis using q by (intro exI [of _ "unat w div 16"] exI [of _ "unat w mod 16"] conjI) (simp_all add: show_hex2_def)
  qed
qed

lemma ether_group_pair:
  assumes "a < 16" and "b < 16"
  shows "cnt < 5 \<Longrightarrow> ether_group cnt (digit_char a # digit_char b # CHR '':'' # s) = Some s"
    and "ether_group (Suc (Suc (Suc (Suc (Suc 0))))) [digit_char a, digit_char b] = Some []"
proof -
  have x: "isxdigit (digit_char a)" "isxdigit (digit_char b)" using assms by simp_all
  have n: "digit_char b \<noteq> CHR '':''" "\<not> isspace (digit_char b)"
    using nat_less_16_cases [OF assms(2)] by (auto simp: digit_char_def isspace_def)
  show "cnt < 5 \<Longrightarrow> ether_group cnt (digit_char a # digit_char b # CHR '':'' # s) = Some s"
    using x n by simp
  show "ether_group (Suc (Suc (Suc (Suc (Suc 0))))) [digit_char a, digit_char b] = Some []" using x n by simp
qed

lemma mac_text_well_formed: "check_mac_format (mac_text hw)"
proof -
  obtain d e where d: "d w < 16" "e w < 16" "show_hex2 w = [digit_char (d w), digit_char (e w)]" for w
    using show_hex2_digits by metis
  have "ether_aton s = ether_aton_loop (Suc (Suc (Suc (Suc (Suc (Suc 0)))))) 0 s" for s
    by (simp add: ether_aton_def numeral_eq_Suc)
  then show ?thesis
    by (simp add: check_mac_format_def mac_text_def d ether_group_pair del: ether_group.simps)
qed

end
