(* ===== verification/Path.thy ===== *)
theory Path
  imports Nds_Prelude
begin

text \<open>
  \<open>src/path.c\<close>: \<open>buffer_path_simplify\<close>, which the web server applies to every requested URL before
  it is used as a file name below the web root. The destination is a buffer of the caller's size,
  so that a store past its end is the value \<^const>\<open>None\<close>.
\<close>

section \<open>The routine\<close>

text \<open>The inner loop \<open>while (out > start && *out != '/') out--\<close>.\<close>

fun back_to_slash :: "string \<Rightarrow> nat \<Rightarrow> nat" where
  "back_to_slash dest 0 = 0"
| "back_to_slash dest (Suc n) =
     (if dest ! Suc n \<noteq> CHR ''/'' then back_to_slash dest n else Suc n)"

text \<open>
  What the end of a path token does to \<open>out\<close>: the body of \<open>if (c == '/' || c == '\0')\<close>, with
  \<open>at_end\<close> for \<open>c == '\0'\<close>.
\<close>

definition path_token_end :: "string \<Rightarrow> nat \<Rightarrow> nat \<Rightarrow> char \<Rightarrow> char \<Rightarrow> bool \<Rightarrow> nat" where
  "path_token_end dest out slash pre2 pre1 at_end =
     (let toklen = out - slash in
      if toklen = 3 \<and> pre2 = CHR ''.'' \<and> pre1 = CHR ''.'' \<and> dest ! slash = CHR ''/'' then
        (let out = slash;
             out = (if out > 0 then back_to_slash dest (out - 1) else out)
         in if at_end then out + 1 else out)
      else if toklen = 1 \<or> (pre2 = CHR ''/'' \<and> pre1 = CHR ''.'') then
        (let out = slash in if at_end then out + 1 else out)
      else out)"

text \<open>
  The main loop. The list argument is the input from the current character \<open>c\<close> on; the empty list
  is \<open>c == '\0'\<close>. Result: the buffer and the final \<open>out\<close>.
\<close>

fun path_loop :: "string \<Rightarrow> nat \<Rightarrow> nat \<Rightarrow> char \<Rightarrow> string \<Rightarrow> (string \<times> nat) option" where
  "path_loop dest out slash pre1 [] = Some (dest, out)"
| "path_loop dest out slash pre1 (x # walk) =
     do {
       dest \<leftarrow> store dest out x;
       let out = out + 1;
       if walk = [] \<or> hd walk = CHR ''/'' then
         (let out = path_token_end dest out slash pre1 x (walk = [])
          in path_loop dest out out x walk)
       else path_loop dest out slash x walk
     }"

definition skip_leading :: "string \<Rightarrow> string" where
  "skip_leading src =
     (let walk = dropWhile (\<lambda>c. c = CHR '' '') src in
      case walk of
        [] \<Rightarrow> walk
      | a # w1 \<Rightarrow>
          if a = CHR ''.'' then
            (if w1 = [] \<or> hd w1 = CHR ''/'' then w1
             else if hd w1 = CHR ''.'' \<and> (tl w1 = [] \<or> hd (tl w1) = CHR ''/'') then tl w1
             else walk)
          else walk)"

definition buffer_path_simplify :: "string \<Rightarrow> string \<Rightarrow> string option" where
  "buffer_path_simplify dest src =
     (if src = [] then store dest 0 NUL
      else do {
        (dest, out) \<leftarrow> path_loop dest 0 0 NUL (skip_leading src);
        store dest out NUL
      })"

section \<open>Reference: resolving the components of a path\<close>

text \<open>
  The result of the routine without its buffer, for any input. A resolved prefix of the path is a pair: the part before
  the first slash (empty for an absolute path) and the stack of the components after it. For an absolute path this
  is the usual resolution (\<open>path_ref_absolute\<close> below). For a relative path it follows the code, which does not
  resolve it in the usual way: a first component of one character is dropped, since the test \<open>toklen == 1\<close> takes
  it for a slash, and a first component that is removed by \<open>..\<close> at the end leaves its first character.
\<close>

type_synonym resolved = "string \<times> string list"

definition render :: "resolved \<Rightarrow> string" where
  "render \<sigma> = fst \<sigma> @ join_with (CHR ''/'') (snd \<sigma>)"

definition resolve :: "resolved \<Rightarrow> string \<Rightarrow> resolved" where
  "resolve \<sigma> c =
     (if c = ''..'' then (if snd \<sigma> = [] then ([], []) else (fst \<sigma>, butlast (snd \<sigma>)))
      else if c = [] \<or> c = ''.'' then \<sigma>
      else (fst \<sigma>, snd \<sigma> @ [c]))"

text \<open>
  An empty, \<open>.\<close> or \<open>..\<close> component at the end keeps one character, the slash of a directory; where
  \<open>..\<close> removes the part before the first slash, the kept character is the first of that part.
\<close>

definition resolve_tail :: "resolved \<Rightarrow> string \<Rightarrow> string" where
  "resolve_tail \<sigma> c =
     (if c = ''..'' \<and> snd \<sigma> = [] \<and> fst \<sigma> \<noteq> [] then [hd (fst \<sigma>)]
      else if c = [] \<or> c = ''.'' \<or> c = ''..'' then ''/'' else [])"

fun resolve_path :: "resolved \<Rightarrow> string list \<Rightarrow> string" where
  "resolve_path \<sigma> [] = render \<sigma>"
| "resolve_path \<sigma> [c] = render (resolve \<sigma> c) @ resolve_tail \<sigma> c"
| "resolve_path \<sigma> (c # d # cs) = resolve_path (resolve \<sigma> c) (d # cs)"

definition path_ref :: "string \<Rightarrow> string" where
  "path_ref src =
     (case split_at (CHR ''/'') (skip_leading src) of
        [] \<Rightarrow> []
      | t # cs \<Rightarrow> if cs = [] then t else resolve_path (if length t = 1 then [] else t, []) cs)"

section \<open>Lemmas\<close>

lemma render_simps [simp]: "render (b, st) = b @ join_with (CHR ''/'') st"
  by (simp add: render_def)

lemma back_to_slash_stop:
  "k \<le> n \<Longrightarrow> (k = 0 \<or> dest ! k = CHR ''/'') \<Longrightarrow>
   (\<forall>i. k < i \<and> i \<le> n \<longrightarrow> dest ! i \<noteq> CHR ''/'') \<Longrightarrow> back_to_slash dest n = k"
  by (induction n) (auto simp: le_Suc_eq)

text \<open>Running over the rest of a token: its characters are appended, then the token ends.\<close>

lemma path_loop_token:
  "xs \<noteq> [] \<Longrightarrow> CHR ''/'' \<notin> set (tl xs) \<Longrightarrow> walk = [] \<or> hd walk = CHR ''/'' \<Longrightarrow>
   out + length xs \<le> length dest \<Longrightarrow>
   path_loop dest out slash p (xs @ walk) =
     (let dest' = take out dest @ xs @ drop (out + length xs) dest;
          o' = path_token_end dest' (out + length xs) slash (last (p # butlast xs)) (last xs) (walk = [])
      in path_loop dest' o' o' (last xs) walk)"
proof (induction xs arbitrary: dest out p)
  case Nil
  then show ?case by simp
next
  case (Cons x xs)
  have upd: "dest[out := x] = take out dest @ x # drop (Suc out) dest"
    using Cons.prems(4) by (simp add: upd_conv_take_nth_drop)
  show ?case
  proof (cases "xs = []")
    case True
    with Cons.prems upd show ?thesis by (auto simp: Let_def)
  next
    case False
    then obtain y ys where xs: "xs = y # ys" by (cases xs) auto
    with Cons.prems(2) have y: "y \<noteq> CHR ''/''" by auto
    have "path_loop dest out slash p ((x # xs) @ walk) =
        path_loop (dest[out := x]) (Suc out) slash x (xs @ walk)"
      using Cons.prems(4) xs y by (simp add: Let_def)
    moreover have "take (Suc out) (dest[out := x]) = take out dest @ [x]"
      and "drop (Suc out + length xs) (dest[out := x]) = drop (out + length (x # xs)) dest"
      using Cons.prems(4) by (simp_all add: take_list_update_snoc)
    ultimately show ?thesis
      using Cons.IH [of "Suc out" "dest[out := x]" x] Cons.prems False xs by simp
  qed
qed

text \<open>Prefixes of the buffer that hold a resolved path.\<close>

definition holds :: "string \<Rightarrow> resolved \<Rightarrow> bool" where
  "holds dest \<sigma> \<longleftrightarrow> take (length (render \<sigma>)) dest = render \<sigma>"

definition plain :: "resolved \<Rightarrow> bool" where
  "plain \<sigma> \<longleftrightarrow> CHR ''/'' \<notin> set (fst \<sigma>) \<and> (\<forall>c \<in> set (snd \<sigma>). CHR ''/'' \<notin> set c)"

lemma plain_resolve: "plain \<sigma> \<Longrightarrow> CHR ''/'' \<notin> set c \<Longrightarrow> plain (resolve \<sigma> c)"
  by (auto simp: plain_def resolve_def dest: in_set_butlastD)

lemma length_render_resolve:
  "length (render (resolve \<sigma> c)) \<le> length (render \<sigma>) + 1 + length c"
  by (cases "snd \<sigma>" rule: rev_cases) (auto simp: resolve_def render_def)

text \<open>Going back over the last component of a resolved path.\<close>

lemma back_to_slash_render:
  assumes "plain \<sigma>" and "take (length (render \<sigma>)) dest = render \<sigma>" and "render \<sigma> \<noteq> []"
  shows "back_to_slash dest (length (render \<sigma>) - 1) = length (render (resolve \<sigma> ''..''))"
proof (rule back_to_slash_stop)
  have nth: "dest ! i = render \<sigma> ! i" if "i < length (render \<sigma>)" for i
    using that assms(2) by (metis nth_take)
  let ?k = "length (render (resolve \<sigma> ''..''))"
  show "?k \<le> length (render \<sigma>) - 1"
    using assms(3) by (cases "snd \<sigma>" rule: rev_cases) (auto simp: resolve_def render_def)
  show "?k = 0 \<or> dest ! ?k = CHR ''/''"
    using nth [of ?k] by (cases "snd \<sigma>" rule: rev_cases)
      (auto simp: resolve_def render_def nth_append)
  show "\<forall>i. ?k < i \<and> i \<le> length (render \<sigma>) - 1 \<longrightarrow> dest ! i \<noteq> CHR ''/''"
  proof (intro allI impI)
    fix i assume i: "?k < i \<and> i \<le> length (render \<sigma>) - 1"
    with assms(3) have lt: "i < length (render \<sigma>)" by (cases "render \<sigma>") auto
    show "dest ! i \<noteq> CHR ''/''"
    proof (cases "snd \<sigma>" rule: rev_cases)
      case Nil
      with assms(1) lt nth [OF lt] show ?thesis
        by (auto simp: render_def plain_def) (metis nth_mem)
    next
      case (snoc st c)
      with i lt have "render \<sigma> ! i = c ! (i - ?k - 1)" and "i - ?k - 1 < length c"
        by (auto simp: resolve_def render_def nth_append nth_Cons')
      with assms(1) snoc nth [OF lt] show ?thesis
        by (auto simp: plain_def) (metis nth_mem)
    qed
  qed
qed

text \<open>The end of a token resolves its component.\<close>

lemma path_token_end_resolve:
  assumes "plain \<sigma>" and "CHR ''/'' \<notin> set c"
    and dest: "take (length (render \<sigma>) + 1 + length c) dest = render \<sigma> @ CHR ''/'' # c"
  shows "path_token_end dest (length (render \<sigma>) + 1 + length c) (length (render \<sigma>))
           (last (p # butlast (CHR ''/'' # c))) (last (CHR ''/'' # c)) at_end =
         length (render (resolve \<sigma> c)) +
           (if at_end \<and> (c = [] \<or> c = ''.'' \<or> c = ''..'') then 1 else 0)"
proof -
  let ?r = "length (render \<sigma>)"
  have hold: "take ?r dest = render \<sigma>"
    using arg_cong [OF dest, of "take ?r"] by (simp add: min_def)
  have slash: "dest ! ?r = CHR ''/''"
  proof -
    have "dest ! ?r = take (?r + 1 + length c) dest ! ?r" by simp
    then show ?thesis by (simp only: dest) simp
  qed
  have go_back: "(if ?r > 0 then back_to_slash dest (?r - 1) else ?r) =
      length (render (resolve \<sigma> ''..''))"
  proof (cases "render \<sigma> = []")
    case True
    then show ?thesis by (auto simp: resolve_def render_def) (cases "snd \<sigma>"; simp)+
  next
    case False
    with back_to_slash_render [OF assms(1) hold] show ?thesis by simp
  qed
  consider "c = []" | x where "c = [x]" | x y where "c = [x, y]"
    | x y z w where "c = x # y # z # w"
    by (cases c rule: remdups_adj.cases) (auto, metis list.exhaust)
  then show ?thesis
  proof cases
    case 1
    then show ?thesis by (simp add: path_token_end_def resolve_def Let_def)
  next
    case 2
    then show ?thesis by (auto simp: path_token_end_def resolve_def Let_def render_def)
  next
    case 3
    with assms(2) show ?thesis
      using go_back slash by (auto simp: path_token_end_def Let_def) (auto simp: resolve_def render_def)
  next
    case 4
    then have "last (p # butlast (CHR ''/'' # c)) = last (x # butlast (y # z # w))"
      by simp
    moreover have "last (x # butlast (y # z # w)) \<in> insert x (set (butlast (y # z # w)))"
      by (metis last_in_set list.distinct(1) list.simps(15))
    ultimately have "last (p # butlast (CHR ''/'' # c)) \<in> set c"
      using 4 by (metis in_set_butlastD insert_iff list.simps(15))
    with assms(2) have "last (p # butlast (CHR ''/'' # c)) \<noteq> CHR ''/''"
      by metis
    with 4 show ?thesis by (auto simp: path_token_end_def resolve_def Let_def render_def)
  qed
qed


text \<open>What is left of a resolved path is a prefix of what was written.\<close>

lemma prefix_resolve:
  "prefix (render (resolve \<sigma> c) @ resolve_tail \<sigma> c) (render \<sigma> @ CHR ''/'' # c)"
  by (cases "snd \<sigma>" rule: rev_cases; cases "fst \<sigma>")
    (auto simp: resolve_def resolve_tail_def render_def)

lemma length_resolve_tail:
  "length (resolve_tail \<sigma> c) = (if c = [] \<or> c = ''.'' \<or> c = ''..'' then 1 else 0)"
  by (simp add: resolve_tail_def)

lemma take_prefix: "take n xs = ys \<Longrightarrow> prefix zs ys \<Longrightarrow> take (length zs) xs = zs"
  by (metis append_eq_conv_conj prefixE take_is_prefix prefix_order.trans)

lemma join_with_nil_iff [simp]: "join_with s cs = [] \<longleftrightarrow> cs = []"
  by (cases cs) auto

lemma hd_join_with [simp]: "cs \<noteq> [] \<Longrightarrow> hd (join_with s cs) = s"
  by (cases cs) auto

text \<open>The whole loop over the components after the first slash.\<close>

lemma path_loop_resolve:
  assumes "cs \<noteq> []" and "\<forall>c \<in> set cs. CHR ''/'' \<notin> set c" and "plain \<sigma>" and "holds dest \<sigma>"
    and "length (render \<sigma>) + length (join_with (CHR ''/'') cs) \<le> length dest"
  shows "\<exists>dest' out. path_loop dest (length (render \<sigma>)) (length (render \<sigma>)) p
             (join_with (CHR ''/'') cs) = Some (dest', out)
           \<and> take out dest' = resolve_path \<sigma> cs \<and> length dest' = length dest
           \<and> out \<le> length (render \<sigma>) + length (join_with (CHR ''/'') cs)"
  using assms
proof (induction cs arbitrary: \<sigma> dest p)
  case Nil
  then show ?case by simp
next
  case (Cons c cs)
  let ?r = "length (render \<sigma>)" and ?J = "join_with (CHR ''/'') cs"
  let ?xs = "CHR ''/'' # c"
  let ?d = "take ?r dest @ ?xs @ drop (?r + length ?xs) dest"
  let ?o = "length (render (resolve \<sigma> c)) +
    (if cs = [] \<and> (c = [] \<or> c = ''.'' \<or> c = ''..'') then 1 else 0)"
  have c: "CHR ''/'' \<notin> set c" using Cons.prems(2) by simp
  have len: "?r + length ?xs \<le> length dest" using Cons.prems(5) by simp
  have ld: "length ?d = length dest" using len by simp
  have d: "take (?r + 1 + length c) ?d = render \<sigma> @ ?xs"
    using len Cons.prems(4) by (simp add: holds_def)
  have "path_loop dest ?r ?r p (?xs @ ?J) =
      (let o' = path_token_end ?d (?r + length ?xs) ?r (last (p # butlast ?xs)) (last ?xs) (?J = [])
       in path_loop ?d o' o' (last ?xs) ?J)"
    using path_loop_token [of ?xs ?J ?r dest ?r p] c len by (cases "cs = []") (auto simp: Let_def)
  also have "path_token_end ?d (?r + length ?xs) ?r (last (p # butlast ?xs)) (last ?xs) (?J = []) = ?o"
    using path_token_end_resolve [OF Cons.prems(3) c d, of p "cs = []"] by simp
  finally have step: "path_loop dest ?r ?r p (?xs @ ?J) = path_loop ?d ?o ?o (last ?xs) ?J"
    by (simp only: Let_def)
  show ?case
  proof (cases "cs = []")
    case True
    have "take (length (render (resolve \<sigma> c) @ resolve_tail \<sigma> c)) ?d =
        render (resolve \<sigma> c) @ resolve_tail \<sigma> c"
      by (rule take_prefix [OF d prefix_resolve])
    with True have "take ?o ?d = resolve_path \<sigma> (c # cs)"
      by (simp add: length_resolve_tail split: if_splits)
    moreover have "?o \<le> ?r + length ?xs"
      using prefix_length_le [OF prefix_resolve [of \<sigma> c]] True
      by (simp add: length_resolve_tail split: if_splits)
    ultimately show ?thesis using step True ld by simp
  next
    case False
    have "holds ?d (resolve \<sigma> c)"
      unfolding holds_def using take_prefix [OF d append_prefixD [OF prefix_resolve]] .
    moreover have "length (render (resolve \<sigma> c)) + length ?J \<le> length ?d"
      using Cons.prems(5) length_render_resolve [of \<sigma> c] ld by simp
    ultimately obtain dest' out where
      "path_loop ?d ?o ?o (last ?xs) ?J = Some (dest', out)"
      "take out dest' = resolve_path (resolve \<sigma> c) cs" "length dest' = length dest"
      "out \<le> length (render (resolve \<sigma> c)) + length ?J"
      using Cons.IH [of "resolve \<sigma> c" ?d "last ?xs"] plain_resolve [OF Cons.prems(3) c]
        Cons.prems(2) False ld by auto
    moreover have "resolve_path \<sigma> (c # cs) = resolve_path (resolve \<sigma> c) cs"
      using False by (cases cs) simp_all
    ultimately show ?thesis
      using step length_render_resolve [of \<sigma> c] by auto
  qed
qed

text \<open>The loop from the first character on.\<close>

lemma path_token_end_first:
  assumes "t \<noteq> []" and "CHR ''/'' \<notin> set t" and "take (length t) dest = t"
  shows "path_token_end dest (length t) 0 (last (NUL # butlast t)) (last t) at_end =
           (if length t = 1 then (if at_end then 1 else 0) else length t)"
proof -
  have "dest ! 0 \<noteq> CHR ''/''"
    using assms by (cases t; cases dest) auto
  moreover have "last (NUL # butlast t) \<noteq> CHR ''/''"
  proof (cases "butlast t = []")
    case False
    then have "last (butlast t) \<in> set t"
      by (meson in_set_butlastD last_in_set)
    with False assms(2) show ?thesis by auto
  qed simp
  ultimately show ?thesis by (auto simp: path_token_end_def Let_def)
qed

lemma path_loop_all:
  assumes "length (skip_leading src) \<le> length dest"
  shows "\<exists>dest' out. path_loop dest 0 0 NUL (skip_leading src) = Some (dest', out)
           \<and> take out dest' = path_ref src \<and> length dest' = length dest
           \<and> out \<le> length (skip_leading src)"
proof -
  obtain t cs where split: "split_at (CHR ''/'') (skip_leading src) = t # cs"
    by (metis neq_Nil_conv split_at_ne)
  then have s: "skip_leading src = t @ join_with (CHR ''/'') cs"
    using join_with_split_at [of "CHR ''/''" "skip_leading src"] by simp
  have no: "CHR ''/'' \<notin> set t" "\<forall>c \<in> set cs. CHR ''/'' \<notin> set c"
    using split_at_parts [of _ "CHR ''/''" "skip_leading src"] split by auto
  let ?b = "if length t = 1 then [] else t"
  have plain: "plain (?b, [])" using no by (simp add: plain_def)
  show ?thesis
  proof (cases "t = []")
    case True
    show ?thesis
    proof (cases "cs = []")
      case True
      with s split \<open>t = []\<close> show ?thesis by (simp add: path_ref_def)
    next
      case False
      with True show ?thesis
        using path_loop_resolve [OF False no(2), of "([], [])" dest NUL] assms s split
        by (simp add: path_ref_def plain_def holds_def)
    qed
  next
    case False
    let ?d = "t @ drop (length t) dest"
    have td: "take (length t) ?d = t" by simp
    have ld: "length ?d = length dest" using assms s by simp
    have tl: "CHR ''/'' \<notin> set (tl t)" using no(1) by (cases t) auto
    have "path_loop dest 0 0 NUL (skip_leading src) =
        (let o' = path_token_end ?d (length t) 0 (last (NUL # butlast t)) (last t) (cs = [])
         in path_loop ?d o' o' (last t) (join_with (CHR ''/'') cs))"
      using path_loop_token [of t "join_with (CHR ''/'') cs" 0 dest 0 NUL] False tl assms s
      by (cases "cs = []") (auto simp: Let_def)
    also have "path_token_end ?d (length t) 0 (last (NUL # butlast t)) (last t) (cs = []) =
        (if length t = 1 then (if cs = [] then 1 else 0) else length t)"
      by (rule path_token_end_first [OF False no(1) td])
    finally have step: "path_loop dest 0 0 NUL (skip_leading src) =
        (let o' = (if length t = 1 then (if cs = [] then 1 else 0) else length t)
         in path_loop ?d o' o' (last t) (join_with (CHR ''/'') cs))" .
    show ?thesis
    proof (cases "cs = []")
      case True
      with step s split False ld show ?thesis by (auto simp: path_ref_def)
    next
      case False
      have "holds ?d (?b, [])" by (simp add: holds_def)
      with step show ?thesis
        using path_loop_resolve [OF False no(2) plain, of ?d "last t"] assms s split False ld
        by (auto simp: path_ref_def Let_def split: if_splits)
    qed
  qed
qed

text \<open>The characters of the result come from the input.\<close>

lemma suffix_skip_leading: "suffix (skip_leading src) src"
proof -
  have "suffix (skip_leading src) (dropWhile (\<lambda>c. c = CHR '' '') src)"
  proof (cases "dropWhile (\<lambda>c. c = CHR '' '') src")
    case Nil
    then show ?thesis by (simp only: skip_leading_def Let_def list.case suffix_order.order_refl)
  next
    case (Cons a w)
    then show ?thesis by (cases w) (simp_all add: skip_leading_def suffix_Cons Let_def)
  qed
  then show ?thesis
    by (meson suffix_dropWhile suffix_order.trans)
qed

lemmas set_skip_leading = set_mono_suffix [OF suffix_skip_leading]
lemmas length_skip_leading = suffix_length_le [OF suffix_skip_leading]

lemma set_join_with: "set (join_with s ps) \<subseteq> insert s (\<Union>p \<in> set ps. set p)"
  by (induction ps) auto

lemma set_render_resolve:
  "set (render (resolve \<sigma> c)) \<subseteq> set (render \<sigma>) \<union> set (CHR ''/'' # c)"
  using set_mono_prefix [OF append_prefixD [OF prefix_resolve [of \<sigma> c]]] by auto

lemma set_resolve_path:
  "set (resolve_path \<sigma> cs) \<subseteq> set (render \<sigma>) \<union> set (join_with (CHR ''/'') cs)"
proof (induction \<sigma> cs rule: resolve_path.induct)
  case (2 \<sigma> c)
  then show ?case
    using set_mono_prefix [OF prefix_resolve [of \<sigma> c]] by auto
next
  case (3 \<sigma> c d cs)
  then show ?case using set_render_resolve [of \<sigma> c] by auto
qed simp

lemma set_path_ref: "set (path_ref src) \<subseteq> set src"
proof -
  obtain t cs where split: "split_at (CHR ''/'') (skip_leading src) = t # cs"
    by (metis neq_Nil_conv split_at_ne)
  then have "skip_leading src = t @ join_with (CHR ''/'') cs"
    using join_with_split_at [of "CHR ''/''" "skip_leading src"] by simp
  then have "set t \<union> set (join_with (CHR ''/'') cs) \<subseteq> set src"
    using set_skip_leading [of src] by simp
  moreover have "set (path_ref src) \<subseteq> set t \<union> set (join_with (CHR ''/'') cs)"
    using split set_resolve_path [of "(if length t = 1 then [] else t, [])" cs]
    by (auto simp: path_ref_def split: if_splits)
  ultimately show ?thesis by blast
qed

text \<open>A run that stays inside its buffer does the same in a longer one.\<close>

lemma back_to_slash_append:
  "n < length dest \<Longrightarrow> back_to_slash (dest @ ext) n = back_to_slash dest n"
  by (induction n) (auto simp: nth_append)

lemma back_to_slash_le: "back_to_slash dest n \<le> n"
  by (induction n) auto

lemma path_token_end_append:
  "slash < length dest \<Longrightarrow>
   path_token_end (dest @ ext) out slash pre2 pre1 at_end =
   path_token_end dest out slash pre2 pre1 at_end"
  by (simp add: path_token_end_def Let_def nth_append back_to_slash_append)

lemma path_token_end_le:
  "slash < out \<Longrightarrow> path_token_end dest out slash pre2 pre1 at_end \<le> out"
  using back_to_slash_le [of dest "slash - 1"]
  by (auto simp: path_token_end_def Let_def)

lemma path_loop_append:
  "path_loop dest out slash p s = Some (d, o') \<Longrightarrow> slash \<le> out \<Longrightarrow>
   path_loop (dest @ ext) out slash p s = Some (d @ ext, o') \<and> length d = length dest"
proof (induction dest out slash p s rule: path_loop.induct)
  case (2 dest out slash p x walk)
  from "2.prems"(1) have lt: "out < length dest"
    by (auto simp: store_def bind_eq_Some_conv split: if_splits)
  let ?d = "dest[out := x]" and ?e = "walk = [] \<or> hd walk = CHR ''/''"
  let ?o = "if ?e then path_token_end ?d (Suc out) slash p x (walk = []) else Suc out"
  let ?s = "if ?e then ?o else slash"
  have eq: "path_loop dest out slash p (x # walk) = path_loop ?d ?o ?s x walk"
    using lt by (simp add: Let_def)
  have eq': "path_loop (dest @ ext) out slash p (x # walk) = path_loop (?d @ ext) ?o ?s x walk"
    using lt "2.prems"(2)
    by (simp add: Let_def list_update_append path_token_end_append)
  have "path_loop (?d @ ext) ?o ?s x walk = Some (d @ ext, o') \<and> length d = length ?d"
  proof (cases ?e)
    case True
    with eq "2.prems"(1) show ?thesis
      using "2.IH"(1) [of ?d "Suc out" ?o] lt by simp
  next
    case False
    with eq "2.prems" show ?thesis
      using "2.IH"(2) [of ?d "Suc out"] lt by simp
  qed
  with eq' show ?case by simp
qed simp

lemma cstr_update_NUL:
  "out < length d \<Longrightarrow> NUL \<notin> set (take out d) \<Longrightarrow> cstr (d[out := NUL]) = take out d"
  by (simp add: cstr_def upd_conv_take_nth_drop) (subst takeWhile_append2; force)

text \<open>
  Whatever the input and the buffer: if no store is out of bounds, the buffer holds the reference
  result as a C string, and it fits.
\<close>

lemma buffer_path_simplify_ref:
  assumes "buffer_path_simplify dest src = Some d" and "NUL \<notin> set src"
  shows "cstr d = path_ref src \<and> length (path_ref src) < length d \<and> length d = length dest"
proof (cases "src = []")
  case True
  with assms(1) show ?thesis
    by (auto simp: buffer_path_simplify_def store_def path_ref_def skip_leading_def cstr_def
        upd_conv_take_nth_drop split: if_splits)
next
  case False
  with assms(1) obtain d' out where run: "path_loop dest 0 0 NUL (skip_leading src) = Some (d', out)"
    and d: "out < length d'" "d = d'[out := NUL]"
    by (auto simp: buffer_path_simplify_def store_def bind_eq_Some_conv split: if_splits)
  let ?ext = "replicate (length (skip_leading src)) NUL"
  from path_loop_append [OF run, of ?ext]
  have ext: "path_loop (dest @ ?ext) 0 0 NUL (skip_leading src) = Some (d' @ ?ext, out)"
    and len: "length d' = length dest" by simp_all
  from path_loop_all [of src "dest @ ?ext"] ext d(1) have ref: "take out d' = path_ref src"
    by auto
  moreover have "NUL \<notin> set (path_ref src)"
    using assms(2) set_path_ref [of src] by blast
  ultimately show ?thesis
    using cstr_update_NUL [of out d'] d len by (metis length_list_update length_take min.absorb4)
qed

text \<open>Components of the reference result.\<close>

definition safe_base :: "resolved \<Rightarrow> bool" where
  "safe_base \<sigma> \<longleftrightarrow> plain \<sigma> \<and> fst \<sigma> \<noteq> ''..'' \<and> ''..'' \<notin> set (snd \<sigma>)"

lemma safe_base_resolve: "safe_base \<sigma> \<Longrightarrow> CHR ''/'' \<notin> set c \<Longrightarrow> safe_base (resolve \<sigma> c)"
  using plain_resolve [of \<sigma> c] by (auto simp: safe_base_def resolve_def dest: in_set_butlastD)

lemma split_render: "plain \<sigma> \<Longrightarrow> split_at (CHR ''/'') (render \<sigma>) = fst \<sigma> # snd \<sigma>"
  by (cases \<sigma>) (simp add: plain_def split_at_join)

lemma split_render_slash:
  "plain \<sigma> \<Longrightarrow> split_at (CHR ''/'') (render \<sigma> @ ''/'') = fst \<sigma> # snd \<sigma> @ [[]]"
  using split_at_join [of "CHR ''/''" "fst \<sigma>" "snd \<sigma> @ [[]]"]
  by (auto simp: plain_def render_def)

lemma resolve_path_safe:
  "safe_base \<sigma> \<Longrightarrow> \<forall>c \<in> set cs. CHR ''/'' \<notin> set c \<Longrightarrow>
   ''..'' \<notin> set (split_at (CHR ''/'') (resolve_path \<sigma> cs))"
proof (induction \<sigma> cs rule: resolve_path.induct)
  case (1 \<sigma>)
  then show ?case by (auto simp: split_render safe_base_def)
next
  case (2 \<sigma> c)
  then have safe: "safe_base (resolve \<sigma> c)" by (simp add: safe_base_resolve)
  then have plain: "plain (resolve \<sigma> c)" by (simp add: safe_base_def)
  consider "c = ''..''" "snd \<sigma> = []" "fst \<sigma> \<noteq> []" | "resolve_tail \<sigma> c = ''/''" | "resolve_tail \<sigma> c = []"
    by (metis resolve_tail_def)
  then show ?case
  proof cases
    case 1
    then obtain x xs where "fst \<sigma> = x # xs" by (cases "fst \<sigma>") auto
    with 1 "2.prems" show ?thesis
      by (auto simp: resolve_tail_def resolve_def safe_base_def plain_def)
  next
    case 2
    with safe show ?thesis by (auto simp: split_render_slash [OF plain] safe_base_def)
  next
    case 3
    with safe show ?thesis by (auto simp: split_render [OF plain] safe_base_def)
  qed
next
  case (3 \<sigma> c d cs)
  then show ?case by (simp add: safe_base_resolve)
qed

lemma skip_leading_first:
  "split_at (CHR ''/'') (skip_leading src) = t # cs \<Longrightarrow> t \<noteq> ''..''"
proof
  assume split: "split_at (CHR ''/'') (skip_leading src) = t # cs" and "t = ''..''"
  then have s: "skip_leading src = ''..'' @ join_with (CHR ''/'') cs"
    using join_with_split_at [of "CHR ''/''" "skip_leading src"] by simp
  show False
    using s by (cases cs) (auto simp: skip_leading_def Let_def split: list.splits if_splits)
qed

lemma path_ref_safe: "''..'' \<notin> set (split_at (CHR ''/'') (path_ref src))"
proof -
  obtain t cs where split: "split_at (CHR ''/'') (skip_leading src) = t # cs"
    by (metis neq_Nil_conv split_at_ne)
  have no: "CHR ''/'' \<notin> set t" "\<forall>c \<in> set cs. CHR ''/'' \<notin> set c"
    using split_at_parts [of _ "CHR ''/''" "skip_leading src"] split by auto
  have "safe_base (if length t = 1 then [] else t, [])"
    using no(1) skip_leading_first [OF split] by (simp add: safe_base_def plain_def)
  with no split skip_leading_first [OF split] show ?thesis
    by (auto simp: path_ref_def resolve_path_safe split_at_no_sep)
qed

lemma buffer_path_simplify_total:
  assumes "length src < length dest"
  shows "\<exists>d. buffer_path_simplify dest src = Some d"
proof -
  have le: "length (skip_leading src) \<le> length src"
    using length_skip_leading .
  with assms have "length (skip_leading src) \<le> length dest" by simp
  from path_loop_all [OF this] le assms show ?thesis
    by (cases "src = []") (auto simp: buffer_path_simplify_def)
qed

text \<open>The stack of components of an absolute path, and the path that it stands for.\<close>

definition stack_step :: "string list \<Rightarrow> string \<Rightarrow> string list" where
  "stack_step st c = (if c = [] \<or> c = ''.'' then st else if c = ''..'' then butlast st else st @ [c])"

definition resolve_stack :: "string list \<Rightarrow> string list" where
  "resolve_stack cs = foldl stack_step [] cs"

definition absolute_path :: "string \<Rightarrow> string" where
  "absolute_path rest = join_with (CHR ''/'') (resolve_stack (split_at (CHR ''/'') rest))
     @ (if last (split_at (CHR ''/'') rest) \<in> {[], ''.'', ''..''} then ''/'' else [])"

lemma resolve_absolute: "resolve ([], st) c = ([], stack_step st c)"
  by (simp add: resolve_def stack_step_def)

lemma resolve_path_absolute:
  "cs \<noteq> [] \<Longrightarrow> resolve_path ([], st) cs =
     join_with (CHR ''/'') (foldl stack_step st cs) @ (if last cs \<in> {[], ''.'', ''..''} then ''/'' else [])"
proof (induction cs arbitrary: st)
  case (Cons c cs)
  then show ?case by (cases cs) (simp_all add: resolve_absolute resolve_tail_def)
qed simp

lemma skip_leading_absolute:
  assumes "lead \<in> {[], ''.'', ''..''}"
  shows "skip_leading (replicate n (CHR '' '') @ lead @ CHR ''/'' # rest) = CHR ''/'' # rest"
proof -
  have "dropWhile (\<lambda>c. c = CHR '' '') (replicate n (CHR '' '') @ lead @ CHR ''/'' # rest) = lead @ CHR ''/'' # rest"
    using assms by (subst dropWhile_append2) (auto simp: in_set_replicate)
  with assms show ?thesis by (auto simp: skip_leading_def)
qed

lemma path_ref_absolute:
  assumes "lead \<in> {[], ''.'', ''..''}"
  shows "path_ref (replicate n (CHR '' '') @ lead @ CHR ''/'' # rest) = absolute_path rest"
  by (simp add: path_ref_def skip_leading_absolute [OF assms] resolve_path_absolute split_at_ne absolute_path_def
      resolve_stack_def)

section \<open>Properties\<close>

text \<open>
  C16. On a C string shorter than the destination buffer that is an absolute path, possibly after leading spaces and
  a first component \<open>.\<close> or \<open>..\<close>, \<open>buffer_path_simplify\<close> performs no store outside the buffer, and the string it leaves
  there is the path resolved with a stack of components: empty and \<open>.\<close> components are dropped, \<open>..\<close> removes the last
  component and never climbs above the root, every component is written after a slash, and a path that ends in a
  slash, \<open>.\<close> or \<open>..\<close> keeps a slash at its end. (Relative paths are treated differently, see
  \<open>relative_path_mangled\<close>.)
\<close>

theorem path_simplify_resolves:
  assumes "NUL \<notin> set rest" and "lead \<in> {[], ''.'', ''..''}"
    and "src = replicate n (CHR '' '') @ lead @ CHR ''/'' # rest" and "length src < length dest"
  shows "\<exists>d. buffer_path_simplify dest src = Some d \<and> length d = length dest
           \<and> cstr d = join_with (CHR ''/'') (resolve_stack (split_at (CHR ''/'') rest))
                @ (if last (split_at (CHR ''/'') rest) \<in> {[], ''.'', ''..''} then ''/'' else [])"
proof -
  have "NUL \<notin> set src" using assms(1-3) by auto
  then show ?thesis
    using buffer_path_simplify_total [OF assms(4)] buffer_path_simplify_ref path_ref_absolute [OF assms(2), of n rest] assms(3)
    by (metis absolute_path_def)
qed

theorem path_simplify_resolves_witness:
  "\<exists>d. buffer_path_simplify (replicate 32 NUL) '' ../a/b/../c/./d//e/..'' = Some d
     \<and> length d = 32 \<and> cstr d = ''/a/c/d/''"
proof -
  have "join_with (CHR ''/'') (resolve_stack (split_at (CHR ''/'') ''a/b/../c/./d//e/..'')) = ''/a/c/d''"
    and "last (split_at (CHR ''/'') ''a/b/../c/./d//e/..'') = ''..''" by code_simp+
  then show ?thesis
    using path_simplify_resolves [of "''a/b/../c/./d//e/..''" "''..''" _ 1 "replicate 32 NUL"] by simp
qed

text \<open>
  A relative path is neither prepended with a slash nor resolved like an absolute one: the first component is
  dropped if it has one character, and a \<open>..\<close> at the end that removes the first component leaves its first character.
\<close>

theorem relative_path_mangled:
  "map_option cstr (buffer_path_simplify (replicate 16 NUL) ''ab/c'') = Some ''ab/c''
   \<and> map_option cstr (buffer_path_simplify (replicate 16 NUL) ''a/b'') = Some ''/b''
   \<and> map_option cstr (buffer_path_simplify (replicate 16 NUL) ''ab/..'') = Some ''a''"
  by code_simp

text \<open>
  C30. No directory traversal: whatever URL path is requested, with or without a leading slash, the
  simplified path has no \<open>..\<close> component, so the file name formed from the web root and the path
  stays below the web root.
\<close>

theorem path_simplify_no_traversal:
  assumes "NUL \<notin> set src" and "buffer_path_simplify dest src = Some d"
  shows "''..'' \<notin> set (split_at (CHR ''/'') (cstr d))"
  using buffer_path_simplify_ref [OF assms(2,1)] path_ref_safe [of src] by simp

theorem path_simplify_no_traversal_witness:
  "''..'' \<notin> set (split_at (CHR ''/'')
     (cstr (the (buffer_path_simplify (replicate 32 NUL) '' ../x/../../../etc/passwd''))))"
proof -
  have "buffer_path_simplify (replicate 32 NUL) '' ../x/../../../etc/passwd'' =
      Some (the (buffer_path_simplify (replicate 32 NUL) '' ../x/../../../etc/passwd''))"
    by code_simp
  from path_simplify_no_traversal [OF _ this] show ?thesis by simp
qed

text \<open>
  C31. The routine has no bound on its output: when the simplified path is not shorter than the
  destination buffer, it stores past the end of the buffer. \<open>libmicrohttpd_cb\<close> calls it with a stack
  buffer of \<open>PATH_MAX\<close> bytes and the URL of the request, whose length it does not check.
\<close>

theorem path_simplify_overflow:
  assumes "NUL \<notin> set src" and "length dest \<le> length (path_ref src)"
  shows "buffer_path_simplify dest src = None"
  using buffer_path_simplify_ref [OF _ assms(1), of dest] assms(2)
  by (cases "buffer_path_simplify dest src") fastforce+

theorem path_simplify_overflow_witness:
  "buffer_path_simplify (replicate 8 NUL) ''/index.html'' = None"
proof -
  have "path_ref ''/index.html'' = ''/index.html''" by code_simp
  then show ?thesis
    using path_simplify_overflow [of "''/index.html''" "replicate 8 NUL"] by simp
qed

end
