(* ===== verification/Http_Utils.thy ===== *)
theory Http_Utils
  imports Libc
begin

text \<open>
  \<open>src/http_microhttpd_utils.c\<close>: percent-encoding and -decoding of URL parts. \<open>blen\<close> is the size the
  caller passes for the output buffer. The encoder writes the returned bytes to \<open>buf[0]\<close>,
  \<open>buf[1]\<close>, \dots; the decoder also stores a NUL behind them, so its buffer is explicit.
\<close>

section \<open>Encoding\<close>

definition hex_char :: "nat \<Rightarrow> char" where
  "hex_char n = ''0123456789abcdef'' ! n"

definition unreserved :: "char \<Rightarrow> bool" where
  "unreserved c \<longleftrightarrow> isalnum c \<or> c = CHR ''-'' \<or> c = CHR ''_'' \<or> c = CHR ''.'' \<or> c = CHR ''~''"

text \<open>The loop; the accumulator is what has been written to \<open>buf\<close>, its length is \<open>len\<close>.\<close>

fun urlencode_loop :: "nat \<Rightarrow> string \<Rightarrow> string \<Rightarrow> int \<times> string" where
  "urlencode_loop blen buf [] = (int (length buf), buf)"
| "urlencode_loop blen buf (c # src) =
     (if length buf < blen then
        (if unreserved c then urlencode_loop blen (buf @ [c]) src
         else if length buf + 3 \<le> blen then
           urlencode_loop blen
             (buf @ [CHR ''%'', hex_char (code c div 16 mod 16), hex_char (code c mod 16)]) src
         else (-1, buf))
      else (-1, buf))"

definition uh_urlencode :: "nat \<Rightarrow> string \<Rightarrow> int \<times> string" where
  "uh_urlencode blen src = urlencode_loop blen [] src"

section \<open>Decoding\<close>

definition hex_val :: "char \<Rightarrow> nat" where
  "hex_val x =
     (if code x \<le> code (CHR ''9'') then code x - code (CHR ''0'')
      else if code x \<le> code (CHR ''F'') then code x - code (CHR ''A'') + 10
      else code x - code (CHR ''a'') + 10)"

text \<open>
  The loop: \<open>Inl\<close> is the early \<open>return -2\<close> on a malformed escape, \<open>Inr\<close> the written bytes and
  whether \<open>i == slen\<close> when the loop ends.
\<close>

fun urldecode_loop :: "nat \<Rightarrow> string \<Rightarrow> string \<Rightarrow> int + (string \<times> bool)" where
  "urldecode_loop blen buf [] = Inr (buf, True)"
| "urldecode_loop blen buf (c # src) =
     (if length buf < blen then
        (if c \<noteq> CHR ''%'' then urldecode_loop blen (buf @ [c]) src
         else case src of
             h # l # src' \<Rightarrow>
               if isxdigit h \<and> isxdigit l
               then urldecode_loop blen (buf @ [char_of (16 * hex_val h + hex_val l)]) src'
               else Inl (-2)
           | _ \<Rightarrow> Inl (-2))
      else Inr (buf, False))"

text \<open>
  \<open>uh_urldecode(buf, blen, src, slen)\<close>: \<^const>\<open>None\<close> is a store outside \<open>buf\<close>; otherwise the return
  value and the buffer.
\<close>

definition uh_urldecode :: "string \<Rightarrow> nat \<Rightarrow> string \<Rightarrow> (int \<times> string) option" where
  "uh_urldecode buf blen src =
     (case urldecode_loop blen [] src of
        Inl e \<Rightarrow> Some (e, buf)
      | Inr (out, done) \<Rightarrow>
          (if length out \<le> length buf then
             do {
               buf \<leftarrow> store (out @ drop (length out) buf) (length out) NUL;
               Some (if done then int (length out) else -1, buf)
             }
           else None))"

section \<open>Base64\<close>

text \<open>
  \<open>uh_b64decode\<close>: \<open>src\<close> is the readable memory at \<open>str\<close> (reading past it is \<^const>\<open>None\<close>), \<open>cout\<close> the
  32-bit accumulator. Characters outside the alphabet are skipped, but still counted by \<open>i\<close>.
\<close>

definition b64_val :: "char \<Rightarrow> nat option" where
  "b64_val c =
     (let cin = code c in
      if 48 \<le> cin \<and> cin \<le> 57 then Some (cin - 48 + 52)
      else if 65 \<le> cin \<and> cin \<le> 90 then Some (cin - 65)
      else if 97 \<le> cin \<and> cin \<le> 122 then Some (cin - 97 + 26)
      else if c = CHR ''+'' then Some 62
      else if c = CHR ''/'' then Some 63
      else if c = CHR ''='' then Some 0
      else None)"

definition byte_of :: "32 word \<Rightarrow> char" where
  "byte_of w = char_of (unat w mod 256)"

fun b64_loop :: "nat \<Rightarrow> nat \<Rightarrow> nat \<Rightarrow> 32 word \<Rightarrow> string \<Rightarrow> string \<Rightarrow> string option" where
  "b64_loop blen slen i cout buf [] = (if i \<le> slen then None else Some buf)"
| "b64_loop blen slen i cout buf (c # src) =
     (if i \<le> slen \<and> c \<noteq> NUL then
        case b64_val c of
          None \<Rightarrow> b64_loop blen slen (i + 1) cout buf src
        | Some cin \<Rightarrow>
            (let cout = push_bit 6 cout OR of_nat cin in
             if i mod 4 \<noteq> 3 then b64_loop blen slen (i + 1) cout buf src
             else if length buf + 3 \<ge> blen then Some buf
             else b64_loop blen slen (i + 1) cout
                    (buf @ [byte_of (drop_bit 16 cout), byte_of (drop_bit 8 cout), byte_of cout])
                    src)
      else Some buf)"

definition uh_b64decode :: "nat \<Rightarrow> string \<Rightarrow> nat \<Rightarrow> (int \<times> string) option" where
  "uh_b64decode blen src slen =
     do {
       buf \<leftarrow> b64_loop blen slen 0 0 [] src;
       if length buf < blen then Some (int (length buf) + 1, buf @ [NUL]) else None
     }"

section \<open>Reference encoding\<close>

definition pct_char :: "char \<Rightarrow> string" where
  "pct_char c =
     (if unreserved c then [c]
      else [CHR ''%'', hex_char (code c div 16), hex_char (code c mod 16)])"

definition pct_encode :: "string \<Rightarrow> string" where
  "pct_encode s = concat (map pct_char s)"

section \<open>Lemmas\<close>

lemma pct_encode_simps [simp]:
  "pct_encode [] = []" "pct_encode (c # s) = pct_char c @ pct_encode s"
  by (simp_all add: pct_encode_def)

lemma code_div_16_less [simp]: "code c div 16 < 16"
  by (rule less_mult_imp_div_less) simp

lemma code_div_16 [simp]: "code c div 16 mod 16 = code c div 16"
  by simp

lemma urlencode_loop_fits:
  "length buf + length (pct_encode src) \<le> blen \<Longrightarrow>
   urlencode_loop blen buf src = (int (length buf + length (pct_encode src)), buf @ pct_encode src)"
  by (induction src arbitrary: buf) (auto simp: pct_char_def split: if_splits)

lemma urlencode_loop_full:
  "length buf \<le> blen \<Longrightarrow> \<not> length buf + length (pct_encode src) \<le> blen \<Longrightarrow>
   fst (urlencode_loop blen buf src) = -1"
  by (induction src arbitrary: buf) (auto simp: pct_char_def)

lemma urlencode_loop_len: "length buf \<le> blen \<Longrightarrow> length (snd (urlencode_loop blen buf src)) \<le> blen"
  by (induction src arbitrary: buf) auto

text \<open>Hexadecimal digits.\<close>

lemma hex_char_props:
  assumes "n < 16"
  shows hex_val_hex_char: "hex_val (hex_char n) = n"
    and isxdigit_hex_char: "isxdigit (hex_char n)"
    and unreserved_hex_char: "unreserved (hex_char n)"
    and hex_char_ne_pct: "hex_char n \<noteq> CHR ''%''"
  using nat_less_16_cases [OF assms]
  by (auto simp: hex_char_def hex_val_def isxdigit_def isdigit_def unreserved_def isalnum_def
      isalpha_def)

lemma pct_char_decode:
  "char_of (16 * hex_val (hex_char (code c div 16)) + hex_val (hex_char (code c mod 16))) = c"
proof -
  have "code c div 16 < 16" by simp
  then show ?thesis by (simp add: hex_val_hex_char)
qed

lemma pct_not_unreserved: "\<not> unreserved (CHR ''%'')"
  by (simp add: unreserved_def isalnum_def isalpha_def isdigit_def)

lemma urldecode_loop_pct:
  "length buf + length s \<le> blen \<Longrightarrow> urldecode_loop blen buf (pct_encode s) = Inr (buf @ s, True)"
proof (induction s arbitrary: buf)
  case (Cons c s)
  have "code c div 16 < 16" by simp
  with Cons show ?case
    using pct_not_unreserved by (auto simp: pct_char_def pct_char_decode isxdigit_hex_char)
qed simp

lemma set_pct_encode: "c \<in> set (pct_encode s) \<Longrightarrow> unreserved c \<or> c = CHR ''%''"
proof -
  have "code d div 16 < 16" for d :: char by simp
  then show "c \<in> set (pct_encode s) \<Longrightarrow> ?thesis"
    by (induction s) (auto simp: pct_char_def unreserved_hex_char split: if_splits)
qed

lemma set_urlencode_loop:
  "c \<in> set (snd (urlencode_loop blen buf src)) \<Longrightarrow> c \<in> set buf \<or> unreserved c \<or> c = CHR ''%''"
proof (induction src arbitrary: buf)
  case (Cons d src)
  have "code d div 16 < 16" "code d mod 16 < 16" by simp_all
  then have "unreserved (hex_char (code d div 16))" "unreserved (hex_char (code d mod 16))"
    by (simp_all add: unreserved_hex_char)
  with Cons.prems show ?case by (auto split: if_splits dest!: Cons.IH)
qed simp

lemma uh_urlencode_fits:
  "length (pct_encode src) \<le> blen \<Longrightarrow>
   uh_urlencode blen src = (int (length (pct_encode src)), pct_encode src)"
  by (simp add: uh_urlencode_def urlencode_loop_fits)

lemma uh_urlencode_overflow:
  "\<not> length (pct_encode src) \<le> blen \<Longrightarrow> fst (uh_urlencode blen src) = -1"
  by (simp add: uh_urlencode_def urlencode_loop_full)

lemma uh_urlencode_bound: "length (snd (uh_urlencode blen src)) \<le> blen"
  by (simp add: uh_urlencode_def urlencode_loop_len)

section \<open>Properties\<close>

text \<open>\<open>uh_urlencode\<close> returns a length exactly when the percent-encoding fits, has then written
  exactly the encoding, and otherwise returns \<open>-1\<close>; it never writes more than \<open>blen\<close> bytes.\<close>

theorem urlencode_exact:
  "(if length (pct_encode src) \<le> blen
    then uh_urlencode blen src = (int (length (pct_encode src)), pct_encode src)
    else fst (uh_urlencode blen src) = -1)
   \<and> length (snd (uh_urlencode blen src)) \<le> blen"
  by (simp add: uh_urlencode_fits uh_urlencode_overflow uh_urlencode_bound)

text \<open>C36. Decoding a string that was encoded without an overflow of the encoder's buffer, into a buffer with room for it
  and its NUL, gives the string back, terminated with a NUL. (The comment above \<open>uh_urldecode\<close> says that the output is
  not terminated; the code stores a NUL.)\<close>

theorem urldecode_urlencode:
  assumes "fst (uh_urlencode elen s) \<noteq> -1" and "length s \<le> blen" and "length s < length buf"
  shows "\<exists>buf'. uh_urldecode buf blen (snd (uh_urlencode elen s)) = Some (int (length s), buf')
           \<and> take (length s + 1) buf' = s @ [NUL] \<and> length buf' = length buf"
proof -
  have "snd (uh_urlencode elen s) = pct_encode s"
    using assms(1) uh_urlencode_fits [of s elen] uh_urlencode_overflow [of s elen]
    by (cases "length (pct_encode s) \<le> elen") simp_all
  then show ?thesis
    using assms(2,3) urldecode_loop_pct [of "[]" s blen]
    by (simp add: uh_urldecode_def take_list_update_snoc)
qed

theorem urldecode_urlencode_witness:
  "\<exists>buf'. uh_urldecode (replicate 8 NUL) 7 (snd (uh_urlencode 30 ''a b/c''))
       = Some (int (length ''a b/c''), buf')
     \<and> take (length ''a b/c'' + 1) buf' = ''a b/c'' @ [NUL] \<and> length buf' = length (replicate 8 NUL)"
  by (rule urldecode_urlencode) code_simp+

text \<open>What the encoder writes contains only letters, digits, the four unreserved marks and \<open>%\<close>:
  no quote, blank, or shell metacharacter of the input survives, also when it stops early.\<close>

theorem urlencode_safe:
  "set (snd (uh_urlencode blen src)) \<subseteq> {c. isalnum c} \<union> set ''-_.~%''"
  using set_urlencode_loop [of _ blen "[]" src]
  by (auto simp: uh_urlencode_def unreserved_def)

end
