(* ===== verification/Template.thy ===== *)
theory Template
  imports Nds_Prelude
begin

text \<open>
  \<open>src/template.c\<close>: the splash and status page templates. \<open>dst\<close> is the output buffer, zeroed on
  entry; a \<open>memcpy\<close> outside it is \<^const>\<open>None\<close>. A variable is a name and a value, the value \<^const>\<open>None\<close>
  for a NULL pointer; the C array ends with a NULL name.
\<close>

section \<open>The routine\<close>

type_synonym template_vars = "(string \<times> string option) list"

fun get_variable_value :: "template_vars \<Rightarrow> string \<Rightarrow> string option" where
  "get_variable_value [] name = None"
| "get_variable_value ((n, v) # vars) name =
     (if n = name then v else get_variable_value vars name)"

definition isvarchar :: "char \<Rightarrow> bool" where
  "isvarchar c \<longleftrightarrow> isalnum c \<or> c = CHR ''_''"

text \<open>\<open>memcpy(dst + i, bs, (len > dst_len - i) ? dst_len - i : len)\<close>\<close>

definition copy_clipped :: "string \<Rightarrow> nat \<Rightarrow> string \<Rightarrow> string option" where
  "copy_clipped dst i bs =
     (let n = (if length bs > length dst - i then length dst - i else length bs) in
      if i + n \<le> length dst then Some (take i dst @ take n bs @ drop (i + n) dst) else None)"

text \<open>\<open>char varname[32]\<close>: names of more than 31 characters are not looked up.\<close>

definition tmpl_value :: "template_vars \<Rightarrow> string \<Rightarrow> string" where
  "tmpl_value vars varname =
     (if length varname > 31 then varname
      else case get_variable_value vars varname of None \<Rightarrow> varname | Some value \<Rightarrow> value)"

function tmpl_loop :: "template_vars \<Rightarrow> string \<Rightarrow> nat \<Rightarrow> string \<Rightarrow> string option" where
  "tmpl_loop vars dst dst_i [] = Some dst"
| "tmpl_loop vars dst dst_i (c # src) =
     (if dst_i < length dst then
        (if c \<noteq> CHR ''$'' then
           do { dst \<leftarrow> store dst dst_i c; tmpl_loop vars dst (dst_i + 1) src }
         else
           (let varname = takeWhile isvarchar src;
                text = tmpl_value vars varname
            in do {
                 dst \<leftarrow> copy_clipped dst dst_i text;
                 tmpl_loop vars dst (dst_i + length text) (dropWhile isvarchar src)
               }))
      else Some dst)"
  by pat_completeness auto
termination
  by (relation "measure (\<lambda>(vars, dst, dst_i, src). length src)")
    (auto simp: le_imp_less_Suc length_dropWhile_le)

definition tmpl_parse :: "template_vars \<Rightarrow> nat \<Rightarrow> string \<Rightarrow> string option" where
  "tmpl_parse vars dst_len src = tmpl_loop vars (replicate dst_len NUL) 0 src"

section \<open>Reference: the expanded text\<close>

function tmpl_expand :: "template_vars \<Rightarrow> string \<Rightarrow> string" where
  "tmpl_expand vars [] = []"
| "tmpl_expand vars (c # src) =
     (if c \<noteq> CHR ''$'' then c # tmpl_expand vars src
      else tmpl_value vars (takeWhile isvarchar src) @ tmpl_expand vars (dropWhile isvarchar src))"
  by pat_completeness auto
termination
  by (relation "measure (\<lambda>(vars, src). length src)")
    (auto simp: le_imp_less_Suc length_dropWhile_le)

text \<open>A zeroed buffer of \<open>n\<close> bytes to which \<open>out\<close> has been written, as far as it fits.\<close>

definition filled :: "nat \<Rightarrow> string \<Rightarrow> string" where
  "filled n out = take n (out @ replicate n NUL)"

section \<open>Lemmas\<close>

lemma filled_length [simp]: "length (filled n out) = n"
  by (simp add: filled_def)

lemma filled_full: "n \<le> length out \<Longrightarrow> filled n out = take n out"
  by (simp add: filled_def)

lemma filled_fits: "length out \<le> n \<Longrightarrow> filled n out = out @ replicate (n - length out) NUL"
  by (simp add: filled_def)

lemma filled_over: "n \<le> length out \<Longrightarrow> filled n (out @ more) = filled n out"
  by (simp add: filled_full)

lemma filled_update:
  assumes "length out < n"
  shows "(filled n out)[length out := c] = filled n (out @ [c])"
proof -
  have "replicate (n - length out) NUL = NUL # replicate (n - length (out @ [c])) NUL"
    using assms by (simp flip: replicate_Suc add: Suc_diff_Suc)
  with assms show ?thesis by (simp add: filled_fits)
qed

lemma copy_clipped_filled:
  "length out \<le> n \<Longrightarrow> copy_clipped (filled n out) (length out) bs = Some (filled n (out @ bs))"
  by (auto simp: copy_clipped_def Let_def filled_fits) (simp_all add: filled_def)

lemma tmpl_loop_expand:
  "tmpl_loop vars (filled n out) (length out) src = Some (filled n (out @ tmpl_expand vars src))"
proof (induction vars src arbitrary: out rule: tmpl_expand.induct)
  case (2 vars c src)
  show ?case
  proof (cases "length out < n")
    case True
    then show ?thesis
      using 2(1) [of "out @ [c]"] 2(2) [of "out @ tmpl_value vars (takeWhile isvarchar src)"]
      by (simp add: filled_update copy_clipped_filled Let_def)
  qed (simp add: filled_over)
qed simp

section \<open>Properties\<close>

text \<open>C37. \<open>tmpl_parse\<close> never writes outside the destination, whatever the template and the variable
  values are, and leaves there exactly the expanded text, cut at \<open>dst_len\<close> bytes and padded with
  NULs: a \<open>$name\<close> is replaced by its value, or by the bare name when the name is unknown, has a NULL
  value or is longer than 31 characters.\<close>

theorem tmpl_parse_expands:
  "tmpl_parse vars dst_len src = Some (take dst_len (tmpl_expand vars src @ replicate dst_len NUL))"
  using tmpl_loop_expand [of vars dst_len "[]" src] by (simp add: tmpl_parse_def filled_def)

text \<open>C38. When the expanded text is as long as the buffer or longer, the result holds no
  terminating NUL of its own: the string functions that the caller applies to it read on.\<close>

theorem tmpl_parse_unterminated:
  assumes "dst_len \<le> length (tmpl_expand vars src)" and "NUL \<notin> set (tmpl_expand vars src)"
  shows "\<exists>page. tmpl_parse vars dst_len src = Some page \<and> NUL \<notin> set page"
  using assms tmpl_loop_expand [of vars dst_len "[]" src]
  by (auto simp: tmpl_parse_def filled_def dest: in_set_takeD)

theorem tmpl_parse_unterminated_witness:
  "\<exists>page. tmpl_parse [(''gatewayname'', Some ''NoDogSplash'')] 8 ''<h1>$gatewayname</h1>'' = Some page
     \<and> NUL \<notin> set page"
  by (rule tmpl_parse_unterminated) code_simp+

end
