(* ===== verification/Http.thy ===== *)
theory Http
  imports Auth_Sessions Host Path Http_Utils Template
begin

text \<open>
  \<open>src/http_microhttpd.c\<close>: the web server of the portal. The HTTP library is a parameter: a \<open>request\<close>
  holds what its accessors return for a connection, a \<open>response\<close> is what is queued for it. The file
  system below the web root and the rendering of local time are the parameter \<open>files\<close>. Every handler is a
  function of the state that returns its response and the new state.
\<close>

section \<open>Requests and responses\<close>

text \<open>
  \<open>req_addr\<close>: the peer address of \<open>MHD_get_connection_info\<close>, \<^const>\<open>None\<close> when it fails; an IPv6 address is
  given by its text. \<open>req_arg\<close>: \<open>MHD_lookup_connection_value\<close> for GET arguments. \<open>req_headers\<close> and \<open>req_args\<close>:
  the keys and values that \<open>MHD_get_connection_values\<close> iterates over, \<open>args_listed\<close> whether it reports
  success; \<open>can_respond\<close>: whether a response object can be created.
\<close>

record request =
  req_method :: string
  req_url :: string
  req_addr :: "sockaddr option"
  req_headers :: "(string \<times> string option) list"
  req_args :: "(string option \<times> string option) list"
  req_arg :: "string \<Rightarrow> string option"
  args_listed :: bool
  can_respond :: bool

datatype body = Text string | Page string

datatype response = Response nat "(string \<times> string) list" body | NoResponse

datatype file_type = Regular | Symlink | Other_type

text \<open>
  \<open>file_kind\<close>: the type \<open>stat\<close> reports; \<open>file_text\<close>: the contents of a file that can be opened;
  \<open>read_error\<close>: whether a \<open>read\<close> fails; \<open>time_text\<close>: \<open>strftime\<close> of the local time.
\<close>

record files =
  file_kind :: "string \<Rightarrow> file_type option"
  file_text :: "string \<Rightarrow> string option"
  read_error :: "string \<Rightarrow> bool"
  time_text :: "int \<Rightarrow> string"

abbreviation (input) PATH_MAX :: nat where "PATH_MAX \<equiv> 4096"
abbreviation (input) TMPLVAR_SIZE :: nat where "TMPLVAR_SIZE \<equiv> 4096"

definition respond :: "request \<Rightarrow> nat \<Rightarrow> (string \<times> string) list \<Rightarrow> body \<Rightarrow> response" where
  "respond req status headers b = (if can_respond req then Response status headers b else NoResponse)"

section \<open>File types\<close>

definition uh_mime_types :: "(string \<times> string) list" where
  "uh_mime_types = [
     (''txt'', ''text/plain''),
     (''log'', ''text/plain''),
     (''js'', ''text/javascript''),
     (''css'', ''text/css''),
     (''htm'', ''text/html; charset=utf-8''),
     (''html'', ''text/html; charset=utf-8''),
     (''diff'', ''text/x-patch''),
     (''patch'', ''text/x-patch''),
     (''c'', ''text/x-csrc''),
     (''h'', ''text/x-chdr''),
     (''o'', ''text/x-object''),
     (''ko'', ''text/x-object''),
     (''bmp'', ''image/bmp''),
     (''gif'', ''image/gif''),
     (''png'', ''image/png''),
     (''jpg'', ''image/jpeg''),
     (''jpeg'', ''image/jpeg''),
     (''svg'', ''image/svg+xml''),
     (''json'', ''application/json''),
     (''jsonp'', ''application/javascript''),
     (''zip'', ''application/zip''),
     (''pdf'', ''application/pdf''),
     (''xml'', ''application/xml''),
     (''xsl'', ''application/xml''),
     (''doc'', ''application/msword''),
     (''ppt'', ''application/vnd.ms-powerpoint''),
     (''xls'', ''application/vnd.ms-excel''),
     (''odt'', ''application/vnd.oasis.opendocument.text''),
     (''odp'', ''application/vnd.oasis.opendocument.presentation''),
     (''pl'', ''application/x-perl''),
     (''sh'', ''application/x-shellscript''),
     (''php'', ''application/x-php''),
     (''deb'', ''application/x-deb''),
     (''iso'', ''application/x-cd-image''),
     (''tar.gz'', ''application/x-compressed-tar''),
     (''tgz'', ''application/x-compressed-tar''),
     (''gz'', ''application/x-gzip''),
     (''tar.bz2'', ''application/x-bzip-compressed-tar''),
     (''tbz'', ''application/x-bzip-compressed-tar''),
     (''bz2'', ''application/x-bzip''),
     (''tar'', ''application/x-tar''),
     (''rar'', ''application/x-rar-compressed''),
     (''mp3'', ''audio/mpeg''),
     (''ogg'', ''audio/x-vorbis+ogg''),
     (''wav'', ''audio/x-wav''),
     (''mpg'', ''video/mpeg''),
     (''mpeg'', ''video/mpeg''),
     (''avi'', ''video/x-msvideo''),
     (''README'', ''text/plain''),
     (''cfg'', ''text/plain''),
     (''conf'', ''text/plain''),
     (''pac'', ''application/x-ns-proxy-autoconfig''),
     (''wpad.dat'', ''application/x-ns-proxy-autoconfig''),
     (''woff'', ''application/x-font-woff''),
     (''woff2'', ''application/x-font-woff2''),
     (''ttf'', ''application/x-font-ttf''),
     (''eot'', ''application/vnd.ms-fontobject''),
     (''otf'', ''application/x-font-opentype'')]"

text \<open>The loop runs from the end of the name; \<^const>\<open>None\<close> for a NULL result.\<close>

fun extension_loop :: "string \<Rightarrow> string \<Rightarrow> string option" where
  "extension_loop acc [] = None"
| "extension_loop acc (c # cs) =
     (if c = CHR ''/'' then None else if c = CHR ''.'' then Some acc else extension_loop (c # acc) cs)"

definition get_extension :: "string \<Rightarrow> string option" where
  "get_extension filename = extension_loop [] (rev filename)"

definition lookup_mimetype :: "string \<Rightarrow> string" where
  "lookup_mimetype filename =
     (case get_extension filename of
        None \<Rightarrow> ''application/octet-stream''
      | Some e \<Rightarrow>
          (case find (\<lambda>(extn, mime). e = extn) uh_mime_types of
             None \<Rightarrow> ''application/octet-stream''
           | Some (_, mime) \<Rightarrow> mime))"

section \<open>Plain responses\<close>

definition error_page :: "string \<Rightarrow> string \<Rightarrow> string" where
  "error_page title h1 = ''<html><head><title>'' @ title @ ''</title></head><body><h1>'' @ h1 @ ''</h1></body></html>''"

text \<open>Error 503 is answered with status 500, as the source has it.\<close>

definition send_error :: "request \<Rightarrow> nat \<Rightarrow> response" where
  "send_error req error =
     (let html = [(''Content-Type'', lookup_mimetype ''foo.html'')] in
      if error = 200 then respond req 200 html
        (Text ''<html><header><title>Authenticated</title><body><h1>Authenticated</h1></body></html>'')
      else if error = 400 then respond req 400 html (Text (error_page ''Error 400'' ''Error 400 - Bad Request''))
      else if error = 403 then respond req 403 html (Text (error_page ''Error 403'' ''Error 403 - Forbidden''))
      else if error = 404 then respond req 404 html (Text (error_page ''Error 404'' ''Error 404 - Not Found''))
      else if error = 500 then respond req 500 html (Text
        ''<html><head><title>Error 500</title></head><body><h1>Error 500 - Internal Server Error. Oh no!</body></html>'')
      else if error = 501 then respond req 501 html (Text (error_page ''Error 501'' ''Error 501 - Not Implemented''))
      else if error = 503 then respond req 500 html (Text (error_page ''Error 503'' ''Error 503 - Internal Server Error''))
      else NoResponse)"

definition send_redirect_temp :: "request \<Rightarrow> string \<Rightarrow> response" where
  "send_redirect_temp req url =
     (if \<not> can_respond req then send_error req 503
      else respond req 307 [(''Location'', url), (''Connection'', ''close'')]
        (Text (''<html><head></head><body><a href='' @ [CHR 0x27] @ url @ [CHR 0x27] @ ''>Click here to continue to<br>''
           @ url @ ''</a></body></html>'')))"

definition send_refresh :: "request \<Rightarrow> response" where
  "send_refresh req =
     respond req 200 [(''Content-Type'', lookup_mimetype ''foo.html''), (''Connection'', ''close'')]
       (Text (''<html><meta http-equiv='' @ [CHR 0x22] @ ''refresh'' @ [CHR 0x22] @ '' content='' @ [CHR 0x22] @ ''1''
          @ [CHR 0x22] @ ''><head/></html>''))"

section \<open>Reading the request\<close>

definition get_redirect_url :: "request \<Rightarrow> string option" where
  "get_redirect_url req = req_arg req ''redir''"

text \<open>\<open>get_host_value_callback\<close>, called for the headers until it finds \<open>Host\<close>.\<close>

definition get_host :: "request \<Rightarrow> string option" where
  "get_host req = (case find (\<lambda>(key, value). key = ''Host'') (req_headers req) of
     None \<Rightarrow> None | Some (_, value) \<Rightarrow> value)"

text \<open>
  \<open>get_query_callback\<close>, called for the arguments: the query so far, or \<^const>\<open>None\<close> after an argument
  that does not fit, with which the iteration ends.
\<close>

fun get_query :: "string \<Rightarrow> (string option \<times> string option) list \<Rightarrow> string option" where
  "get_query query [] = Some query"
| "get_query query ((None, _) # args) = get_query query args"
| "get_query query ((Some key, value) # args) =
     (let separator = (if query \<noteq> [] then CHR ''&'' else CHR ''?'');
          arg = separator # key @ (case value of Some v \<Rightarrow> CHR ''='' # v | None \<Rightarrow> [])
      in if length arg \<ge> QUERYMAXLEN - length query then None else get_query (query @ arg) args)"

text \<open>\<open>gw_http_name\<close> and \<open>gw_http_name_port\<close> are set before the server starts.\<close>

definition is_foreign_hosts :: "string option \<Rightarrow> nds \<Rightarrow> bool" where
  "is_foreign_hosts host s =
     (case host of
        None \<Rightarrow> False
      | Some h \<Rightarrow> Some h \<noteq> gw_http_name (config s) \<and> Some h \<noteq> gw_http_name_port (config s))"

definition is_splashpage :: "string option \<Rightarrow> string \<Rightarrow> nds \<Rightarrow> bool" where
  "is_splashpage host url s =
     (case host of
        None \<Rightarrow> url = [] \<or> url = ''/''
      | Some h \<Rightarrow> \<not> is_foreign_hosts host s
          \<and> (url = [] \<or> url = ''/'' \<or> (url \<noteq> [] \<and> splashpage (config s) = drop 1 url)))"

definition check_authdir_match :: "string \<Rightarrow> string \<Rightarrow> bool" where
  "check_authdir_match url dir \<longleftrightarrow>
     length url = 2 + length dir \<and> strncmp_eq (drop 1 url) dir (length dir)"

definition get_client_ip :: "request \<Rightarrow> string option" where
  "get_client_ip req =
     (case req_addr req of
        None \<Rightarrow> None
      | Some (AF_INET a b c d) \<Rightarrow> Some (dotted [a, b, c, d])
      | Some (AF_INET6 ip) \<Rightarrow> Some ip
      | Some AF_other \<Rightarrow> None)"

definition neigh_format :: "directive list" where
  "neigh_format = [FSkipWord, FSpace, FSkipWord, FSpace, FSkipWord, FSpace, FSkipWord, FSpace, FSet 17 mac_char]"

text \<open>The first line of the neighbour table for the address from which a MAC can be read.\<close>

function find_mac :: "string \<Rightarrow> string \<Rightarrow> string option" where
  "find_mac ip stream =
     (case fgets 254 stream of
        None \<Rightarrow> None
      | Some (line, stream') \<Rightarrow>
          if strncmp_eq line ip (length ip) then
            (case scanf neigh_format line of
               (rc, vs, _) \<Rightarrow> if rc = 1 then Some (scan_str (vs ! 0)) else find_mac ip stream')
          else find_mac ip stream')"
  by pat_completeness auto
termination
  by (relation "measure (\<lambda>(ip, stream). length stream)") (auto dest: fgets_shorter)

declare find_mac.simps [simp del]

definition get_client_mac :: "env \<Rightarrow> string \<Rightarrow> nds \<Rightarrow> string option \<times> nds" where
  "get_client_mac env req_ip s =
     (if length req_ip + 2 > 64 then (None, s)
      else case popen_read env ''ip neigh show'' s of
          (None, s) \<Rightarrow> (None, s)
        | (Some out, s) \<Rightarrow> (find_mac (req_ip @ '' '') out, s))"

section \<open>Pages\<close>

text \<open>The contents of the node that a client pointer points to.\<close>

definition client_of :: "nds \<Rightarrow> addr \<Rightarrow> t_client" where
  "client_of s a = (case client_at s a of Some c \<Rightarrow> c | None \<Rightarrow> blank_client [] [])"

definition http_url :: "nds \<Rightarrow> string \<Rightarrow> string" where
  "http_url s path = ''http://'' @ show_str (gw_http_name (config s)) @ ''/'' @ path"

definition page_vars :: "files \<Rightarrow> request \<Rightarrow> t_client \<Rightarrow> string \<Rightarrow> nds \<Rightarrow> template_vars" where
  "page_vars fs req c uptime s =
     (let cfg = config s; redirect_url = get_redirect_url req in
      [(''authaction'', Some (http_url s (authdir cfg @ ''/''))),
       (''denyaction'', Some (http_url s (denydir cfg @ ''/''))),
       (''authtarget'', Some (http_url s (authdir cfg @ ''/?tok='' @ cl_token c @ ''&amp;redir='' @ show_str redirect_url))),
       (''clientip'', Some (cl_ip c)),
       (''clientmac'', Some (cl_mac c)),
       (''clientupload'', Some (show_word (outgoing (counters c)))),
       (''clientdownload'', Some (show_word (incoming (counters c)))),
       (''clientsessionstart'', Some (time_text fs (session_start c))),
       (''clientsessionend'', Some (time_text fs (session_end c))),
       (''gatewaymac'', gw_mac cfg),
       (''gatewayname'', Some (gw_name cfg)),
       (''maxclients'', Some (show_int (maxclients cfg))),
       (''sessionlimitblock'', Some (show_int (session_limit_block cfg))),
       (''sessiontimeoutblock'', Some (show_int (session_timeout_block cfg))),
       (''nclients'', Some (show_int (get_client_list_length s))),
       (''redir'', redirect_url),
       (''tok'', Some (cl_token c)),
       (''token'', Some (cl_token c)),
       (''uptime'', Some uptime),
       (''version'', Some ''5.0.2'')])"

text \<open>
  \<^const>\<open>None\<close>: a store outside the destination buffer, or outside the buffers \<open>clientupload\<close> and \<open>clientdownload\<close> of 20
  bytes, into which the counters are printed. (The other local buffers are large enough for what is printed into them.)
\<close>

definition replace_variables ::
  "env \<Rightarrow> files \<Rightarrow> request \<Rightarrow> addr \<Rightarrow> nat \<Rightarrow> string \<Rightarrow> nds \<Rightarrow> string option \<times> nds" where
  "replace_variables env fs req a dst_len src s =
     (case get_uptime_string env s of (uptime, s') \<Rightarrow>
       (let c = client_of s' a in
        if length (show_word (outgoing (counters c))) < 20 \<and> length (show_word (incoming (counters c))) < 20
        then tmpl_parse (page_vars fs req c uptime s') dst_len src
        else None, s'))"

text \<open>
  The body of the response is the text up to the first NUL of the buffer; what lies behind a buffer
  without one is not modelled. After a store outside a buffer the C standard determines nothing; the model
  then has an empty body.
\<close>

definition show_templated_page :: "env \<Rightarrow> files \<Rightarrow> request \<Rightarrow> addr \<Rightarrow> string \<Rightarrow> nds \<Rightarrow> response \<times> nds" where
  "show_templated_page env fs req a page s =
     (let filename = take (PATH_MAX - 1) (webroot (config s) @ ''/'' @ page) in
      case file_text fs filename of
        None \<Rightarrow> (send_error req 404, s)
      | Some page_tmpl \<Rightarrow>
          if read_error fs filename then (send_error req 503, s)
          else
            (case replace_variables env fs req a (length page_tmpl + TMPLVAR_SIZE) page_tmpl s of
               (page_result, s') \<Rightarrow>
                 if \<not> can_respond req then (send_error req 503, s')
                 else (respond req 200 [(''Content-Type'', lookup_mimetype filename)]
                    (Text (case page_result of None \<Rightarrow> [] | Some d \<Rightarrow> cstr d)), s')))"

definition show_splashpage :: "env \<Rightarrow> files \<Rightarrow> request \<Rightarrow> addr \<Rightarrow> nds \<Rightarrow> response \<times> nds" where
  "show_splashpage env fs req a s = show_templated_page env fs req a (splashpage (config s)) s"

definition show_statuspage :: "env \<Rightarrow> files \<Rightarrow> request \<Rightarrow> addr \<Rightarrow> nds \<Rightarrow> response \<times> nds" where
  "show_statuspage env fs req a s = show_templated_page env fs req a (statuspage (config s)) s"

definition serve_file :: "files \<Rightarrow> request \<Rightarrow> string \<Rightarrow> nds \<Rightarrow> response" where
  "serve_file fs req url s =
     (let filename = take (PATH_MAX - 1) (webroot (config s) @ ''/'' @ url) in
      case file_kind fs filename of
        None \<Rightarrow> send_error req 404
      | Some kind \<Rightarrow>
          if kind \<noteq> Regular \<and> kind \<noteq> Symlink then send_error req 404
          else case file_text fs filename of
              None \<Rightarrow> send_error req 404
            | Some _ \<Rightarrow>
                if \<not> can_respond req then send_error req 503
                else respond req 200 [(''Content-Type'', lookup_mimetype filename)] (Page filename))"

section \<open>Redirects to the splash page\<close>

text \<open>The parameter \<open>querystr\<close> of the source is not used there either.\<close>

definition encode_and_redirect_to_splashpage :: "request \<Rightarrow> string option \<Rightarrow> nds \<Rightarrow> response" where
  "encode_and_redirect_to_splashpage req originurl s =
     (case (case originurl of None \<Rightarrow> Some [] | Some u \<Rightarrow>
              (case uh_urlencode QUERYMAXLEN u of (rc, encoded) \<Rightarrow> if rc = -1 then None else Some encoded)) of
        None \<Rightarrow> send_error req 503
      | Some encoded \<Rightarrow> send_redirect_temp req (http_url s (splashpage (config s) @ ''?redir='' @ encoded)))"

definition redirect_to_splashpage :: "request \<Rightarrow> string option \<Rightarrow> string \<Rightarrow> nds \<Rightarrow> response" where
  "redirect_to_splashpage req host url s =
     (if \<not> args_listed req then send_error req 503
      else case get_query [] (req_args req) of
          None \<Rightarrow> send_error req 503
        | Some query \<Rightarrow>
            encode_and_redirect_to_splashpage req (Some (''http://'' @ show_str host @ url @ query)) s)"

section \<open>Authentication\<close>

text \<open>
  \<open>do_binauth\<close>: the seconds, upload and download limits that the external program assigns, on top of
  the given ones. The two buffers of 64 bytes hold the encoded text without a NUL when it has exactly
  64 characters; what would be read behind them then is not modelled.
\<close>

definition encode_arg :: "string option \<Rightarrow> string option" where
  "encode_arg v = (case v of None \<Rightarrow> Some []
     | Some x \<Rightarrow> (case uh_urlencode 64 x of (rc, enc) \<Rightarrow> if rc = -1 then None else Some enc))"

definition do_binauth ::
  "env \<Rightarrow> request \<Rightarrow> string \<Rightarrow> t_client \<Rightarrow> int \<times> int \<times> int \<Rightarrow> nds \<Rightarrow> (int \<times> int \<times> int) option \<times> nds" where
  "do_binauth env req prog c vals s =
     (case (encode_arg (req_arg req ''username''), encode_arg (req_arg req ''password'')) of
        (Some u, Some p) \<Rightarrow>
          (let q = [CHR 0x27] in
           case execute_ret env 254 (prog @ '' auth_client '' @ cl_mac c @ '' '' @ q @ u @ q @ '' '' @ q @ p @ q) s of
             ((rc, msg), s') \<Rightarrow>
               if rc \<noteq> 0 then (None, s')
               else (case scanf [FInt, FSpace, FInt, FSpace, FInt] msg of (n, vs, _) \<Rightarrow>
                 let v = (\<lambda>i. max (scan_int (vs ! i)) 0);
                     (seconds, upload, download) = vals
                 in (if n = 3 then Some (v 0, v 1, v 2)
                     else if n = 2 then Some (v 0, v 1, download)
                     else if n = 1 then Some (v 0, upload, download)
                     else if n = 0 then Some (seconds, upload, download)
                     else None, s')))
      | _ \<Rightarrow> (None, s))"

definition try_to_authenticate :: "request \<Rightarrow> addr \<Rightarrow> string \<Rightarrow> nds \<Rightarrow> bool" where
  "try_to_authenticate req a url s \<longleftrightarrow>
     check_authdir_match url (authdir (config s)) \<and> req_arg req ''tok'' = Some (cl_token (client_of s a))"

definition set_session :: "addr \<Rightarrow> int \<Rightarrow> int \<times> int \<times> int \<Rightarrow> nds \<Rightarrow> nds" where
  "set_session a now vals s =
     (case vals of (seconds, upload, download) \<Rightarrow>
       update_client a (\<lambda>c. c\<lparr>cl_download_limit := download, cl_upload_limit := upload, session_start := now,
         session_end := (if seconds \<noteq> 0 then now + seconds else 0)\<rparr>) s)"

definition authenticate_client :: "env \<Rightarrow> request \<Rightarrow> string option \<Rightarrow> addr \<Rightarrow> nds \<Rightarrow> response \<times> nds" where
  "authenticate_client env req redirect_url a s =
     (case c_time env s of (now, s) \<Rightarrow>
       let default = (to_int32 (60 * session_timeout (config s)), 0, 0);
           finish = (\<lambda>reason vals s.
             case auth_client_auth env (cl_id (client_of s a)) reason s of (rc, s) \<Rightarrow>
               if rc \<noteq> 0 then (send_error req 503, s)
               else (case redirect_url of
                       Some u \<Rightarrow> send_redirect_temp req u
                     | None \<Rightarrow> send_error req 200, set_session a now vals s))
       in case binauth (config s) of
            None \<Rightarrow> finish None default s
          | Some prog \<Rightarrow>
              (case do_binauth env req prog (client_of s a) default s of
                 (None, s) \<Rightarrow> (encode_and_redirect_to_splashpage req redirect_url s, s)
               | (Some vals, s) \<Rightarrow> finish (Some ''client_auth'') vals s))"

section \<open>Requests of known clients\<close>

definition authenticated :: "env \<Rightarrow> files \<Rightarrow> request \<Rightarrow> string \<Rightarrow> addr \<Rightarrow> nds \<Rightarrow> response \<times> nds" where
  "authenticated env fs req url a s =
     (let host = get_host req in
      if is_foreign_hosts host s then (send_refresh req, s)
      else if check_authdir_match url (denydir (config s)) then
        (let s' = snd (auth_client_deauth env (cl_id (client_of s a)) (Some ''client_deauth'') s)
         in (send_redirect_temp req (take 127 (http_url s' [])), s'))
      else if check_authdir_match url (authdir (config s)) then show_statuspage env fs req a s
      else (serve_file fs req url s, s))"

definition preauthenticated :: "env \<Rightarrow> files \<Rightarrow> request \<Rightarrow> string \<Rightarrow> addr \<Rightarrow> nds \<Rightarrow> response \<times> nds" where
  "preauthenticated env fs req url a s =
     (let host = get_host req in
      if is_foreign_hosts host s then (redirect_to_splashpage req host url s, s)
      else if check_authdir_match url (authdir (config s)) then
        (let redirect_url = (case redirectURL (config s) of Some u \<Rightarrow> Some u | None \<Rightarrow> get_redirect_url req) in
         if \<not> try_to_authenticate req a url s
         then (encode_and_redirect_to_splashpage req redirect_url s, s)
         else authenticate_client env req redirect_url a s)
      else if is_splashpage host url s then show_splashpage env fs req a s
      else (serve_file fs req url s, s))"

section \<open>The entry point\<close>

definition add_client :: "env \<Rightarrow> string \<Rightarrow> string \<Rightarrow> nds \<Rightarrow> addr option \<times> nds" where
  "add_client env mac ip s = client_list_add_client env mac ip s"

definition handle_request :: "env \<Rightarrow> files \<Rightarrow> request \<Rightarrow> string \<Rightarrow> nds \<Rightarrow> response \<times> nds" where
  "handle_request env fs req url s =
     (if req_method req \<noteq> ''GET'' then (send_error req 503, s)
      else case get_client_ip req of
          None \<Rightarrow> (send_error req 503, s)
        | Some ip \<Rightarrow>
            (case get_client_mac env ip s of
               (None, s) \<Rightarrow> (send_error req 503, s)
             | (Some mac, s) \<Rightarrow>
                 (case (case client_list_find mac ip s of
                          Some a \<Rightarrow> (Some a, s) | None \<Rightarrow> add_client env mac ip s) of
                    (None, s) \<Rightarrow> (send_error req 503, s)
                  | (Some a, s) \<Rightarrow>
                      (let st = fw_connection_state (client_of s a) in
                       if st = FW_MARK_AUTHENTICATED s \<or> st = FW_MARK_TRUSTED s
                       then authenticated env fs req url a s
                       else preauthenticated env fs req url a s))))"

text \<open>\<^const>\<open>None\<close>: the simplified path is stored past the end of the buffer of \<open>PATH_MAX\<close> bytes.\<close>

definition libmicrohttpd_cb :: "env \<Rightarrow> files \<Rightarrow> request \<Rightarrow> nds \<Rightarrow> (response \<times> nds) option" where
  "libmicrohttpd_cb env fs req s =
     map_option (\<lambda>buf. handle_request env fs req (cstr buf) s)
       (buffer_path_simplify (replicate PATH_MAX NUL) (req_url req))"

section \<open>Lemmas: what a request changes\<close>

lemma find_mac_short: "find_mac ip stream = Some mac \<Longrightarrow> length mac \<le> 17 \<and> (\<forall>c \<in> set mac. mac_char c)"
proof (induction "length stream" arbitrary: stream rule: less_induct)
  case less
  let ?P = "\<lambda>v. length (scan_str v) \<le> 17 \<and> (\<forall>c \<in> set (scan_str v). mac_char c)"
  have P: "\<forall>d \<in> set neigh_format. \<forall>s v r. scan_step d s = Matched (Some v) r \<longrightarrow> ?P v"
  proof (intro ballI allI impI)
    fix d s v r assume "d \<in> set neigh_format" "scan_step d s = Matched (Some v) r"
    then have "v = SStr (takeWhile mac_char (take 17 s))"
      by (auto simp: neigh_format_def scan_word_def Let_def split: if_splits)
    then show "?P v" using length_takeWhile_le [of mac_char "take 17 s"] set_takeWhileD [of _ mac_char "take 17 s"]
      by auto
  qed
  obtain line stream' where g: "fgets 254 stream = Some (line, stream')"
    using less.prems by (cases "fgets 254 stream") (auto simp: find_mac.simps [of ip stream])
  obtain rc vs r where sc: "scanf neigh_format line = (rc, vs, r)" by (cases "scanf neigh_format line")
  then have vs: "\<forall>v \<in> set vs. ?P v" "rc \<le> int (length vs)"
    using scanf_from_values [of neigh_format "[]" line rc vs r ?P] P by (auto simp: scanf_def)
  show ?case
  proof (cases "strncmp_eq line ip (length ip) \<and> rc = 1")
    case True
    then have "mac = scan_str (vs ! 0)" using less.prems g sc by (simp add: find_mac.simps [of ip stream])
    moreover have "vs ! 0 \<in> set vs" using vs(2) True by (intro nth_mem) auto
    ultimately show ?thesis using vs(1) by blast
  next
    case False
    then have "find_mac ip stream' = Some mac"
      using less.prems g sc by (simp add: find_mac.simps [of ip stream] split: if_split_asm)
    with less.hyps [OF fgets_shorter [OF g]] show ?thesis by simp
  qed
qed

lemma get_client_mac_frame:
  assumes "get_client_mac env ip s = (m, s')"
  shows "same_but_log s s'" "gateway_inv s \<Longrightarrow> gateway_inv s'"
    "m = Some mac \<Longrightarrow> length mac \<le> 17"
proof -
  have "neutral s ''ip neigh show''" by (auto simp: neutral_def rule_cmd_def iptables_cmdline_def)
  from popen_read_gateway_inv [OF _ this] have i: "gateway_inv s \<Longrightarrow> gateway_inv (snd (popen_read env ''ip neigh show'' s))" .
  obtain out s1 where p: "popen_read env ''ip neigh show'' s = (out, s1)" by (cases "popen_read env ''ip neigh show'' s")
  have l: "same_but_log s s1"
    using popen_same [of s env "''ip neigh show''"] p by (auto simp: popen_read_def case_prod_beta)
  have cases: "s' = s \<and> m = None \<or> s' = s1 \<and> (m = None \<or> (\<exists>t. m = find_mac (ip @ '' '') t))"
    using assms p by (auto simp: get_client_mac_def split: if_split_asm option.split_asm)
  then show "same_but_log s s'" "gateway_inv s \<Longrightarrow> gateway_inv s'" using l i p by auto
  show "m = Some mac \<Longrightarrow> length mac \<le> 17" using cases find_mac_short by auto
qed

lemma client_of_at: "client_at s a = Some c \<Longrightarrow> client_of s a = c"
  by (simp add: client_of_def)

lemma execute_ret_gateway_inv:
  assumes "gateway_inv s" and "neutral s cmd"
  shows "gateway_inv (snd (execute_ret env n cmd s))"
proof -
  obtain rc out s' where p: "popen env cmd s = ((rc, out), s')" by (metis prod.collapse)
  with popen_same [of s env cmd] popen_same_rules [OF assms(2), of env] have "gateway_inv s'"
    using same_but_lists_gateway_inv [OF assms(1) same_but_log_lists] by simp
  with assms(1) p show ?thesis by (simp add: execute_ret_def)
qed

lemma do_binauth_gateway_inv:
  assumes "gateway_inv s" and "binauth (config s) = Some prog"
  shows "gateway_inv (snd (do_binauth env req prog c vals s))"
proof -
  have "hd (prog @ '' '') \<noteq> CHR ''i''" using assms by (simp add: gateway_inv_def binauth_ok_def)
  then have n: "neutral s (prog @ '' auth_client '' @ x)" for x
    by (cases prog) (auto intro: neutral_other)
  show ?thesis
    using execute_ret_gateway_inv [OF assms(1) n, of env 254] assms(1)
    by (simp add: do_binauth_def Let_def case_prod_beta split: option.split)
qed

lemma set_session_gateway_inv: "gateway_inv s \<Longrightarrow> gateway_inv (set_session a now vals s)"
  by (cases vals) (simp add: set_session_def update_client_gateway_inv)

lemma templated_page_gateway_inv:
  assumes "gateway_inv s"
  shows "gateway_inv (snd (show_templated_page env fs req a page s))"
  using assms time_gateway_inv [OF assms, of "Suc (time_calls s)"]
  by (simp add: show_templated_page_def replace_variables_def get_uptime_string_def c_time_def Let_def
      split: option.split)

lemma authenticate_client_gateway_inv:
  assumes sh: "shell_ok env" and inv: "gateway_inv s"
  shows "gateway_inv (snd (authenticate_client env req redirect_url a s))"
proof -
  let ?s = "s\<lparr>time_calls := Suc (time_calls s)\<rparr>"
  have i: "gateway_inv ?s" by (rule time_gateway_inv [OF inv])
  have fin: "gateway_inv (set_session a now vals (snd (auth_client_auth env j reason s')))"
    "gateway_inv (snd (auth_client_auth env j reason s'))" if "gateway_inv s'" for now vals j reason s'
    using auth_client_ops_gateway_inv(1) [OF sh that] set_session_gateway_inv by simp_all
  show ?thesis
  proof (cases "binauth (config s)")
    case None
    then show ?thesis using fin [OF i] by (simp add: authenticate_client_def c_time_def Let_def case_prod_beta)
  next
    case (Some prog)
    let ?v = "(to_int32 (60 * session_timeout (config s)), 0, 0)"
    obtain r s1 where b: "do_binauth env req prog (client_of ?s a) ?v ?s = (r, s1)"
      by (cases "do_binauth env req prog (client_of ?s a) ?v ?s")
    then have "gateway_inv s1" using do_binauth_gateway_inv [OF i, of prog env req "client_of ?s a" ?v] Some by simp
    then show ?thesis using b Some fin
      by (simp add: authenticate_client_def c_time_def Let_def case_prod_beta split: option.split)
  qed
qed

lemma authenticated_gateway_inv:
  assumes "shell_ok env" and "gateway_inv s"
  shows "gateway_inv (snd (authenticated env fs req url a s))"
  using assms(2) auth_client_ops_gateway_inv(2) [OF assms] templated_page_gateway_inv [OF assms(2)]
  by (simp add: authenticated_def show_statuspage_def Let_def)

lemma preauthenticated_gateway_inv:
  assumes "shell_ok env" and "gateway_inv s"
  shows "gateway_inv (snd (preauthenticated env fs req url a s))"
  using assms(2) authenticate_client_gateway_inv [OF assms] templated_page_gateway_inv [OF assms(2)]
  by (simp add: preauthenticated_def show_splashpage_def Let_def)

text \<open>
  The cases of a request: refused before the client is known, refused because it cannot be added to
  the list, or passed on to one of the two handlers.
\<close>

lemma libmicrohttpd_cb_cases:
  assumes "libmicrohttpd_cb env fs req s = Some (resp, s')"
  obtains (rejected) "resp = send_error req 503" "s' = s"
  | (unknown) ip where "get_client_ip req = Some ip" "get_client_mac env ip s = (None, s')" "resp = send_error req 503"
  | (full) ip mac s1 where "get_client_ip req = Some ip" "get_client_mac env ip s = (Some mac, s1)"
      "client_list_find mac ip s1 = None" "add_client env mac ip s1 = (None, s')" "resp = send_error req 503"
  | (handled) buf ip mac s1 a s2 where "buffer_path_simplify (replicate PATH_MAX NUL) (req_url req) = Some buf"
      "req_method req = ''GET''" "get_client_ip req = Some ip" "get_client_mac env ip s = (Some mac, s1)"
      "client_list_find mac ip s1 = Some a \<and> s2 = s1
       \<or> client_list_find mac ip s1 = None \<and> add_client env mac ip s1 = (Some a, s2)"
      "(resp, s') = (if fw_connection_state (client_of s2 a) = FW_MARK_AUTHENTICATED s2
           \<or> fw_connection_state (client_of s2 a) = FW_MARK_TRUSTED s2
         then authenticated env fs req (cstr buf) a s2 else preauthenticated env fs req (cstr buf) a s2)"
proof -
  obtain buf where buf: "buffer_path_simplify (replicate PATH_MAX NUL) (req_url req) = Some buf"
    using assms by (auto simp: libmicrohttpd_cb_def)
  then have assms: "handle_request env fs req (cstr buf) s = (resp, s')"
    using assms by (simp add: libmicrohttpd_cb_def)
  show thesis
  proof (cases "req_method req = ''GET''")
    case False
    then show thesis using assms buf by (intro rejected) (simp_all add: handle_request_def Let_def)
  next
    case get: True
    show thesis
    proof (cases "get_client_ip req")
      case None
      then show thesis using assms buf get by (intro rejected) (simp_all add: handle_request_def Let_def)
    next
      case ip: (Some ip)
      obtain m s1 where m: "get_client_mac env ip s = (m, s1)" by (cases "get_client_mac env ip s")
      note e = assms [unfolded handle_request_def option.case Let_def ip m prod.case]
      show thesis
      proof (cases m)
        case None
        then show thesis using e get ip m by (intro unknown) simp_all
      next
        case (Some mac)
        obtain p s2 where r: "(case client_list_find mac ip s1 of Some a \<Rightarrow> (Some a, s1)
            | None \<Rightarrow> add_client env mac ip s1) = (p, s2)" by (cases "case client_list_find mac ip s1 of
              Some a \<Rightarrow> (Some a, s1) | None \<Rightarrow> add_client env mac ip s1")
        show thesis
        proof (cases p)
          case None
          then show thesis using e get ip m Some r by (intro full) (auto split: option.split_asm)
        next
          case a: (Some a)
          then show thesis using e get ip m Some r buf
            by (intro handled [of buf ip mac s1 a s2]) (auto split: option.split_asm)
        qed
      qed
    qed
  qed
qed

lemma libmicrohttpd_cb_gateway_inv:
  assumes sh: "shell_ok env" and inv: "gateway_inv s" and cb: "libmicrohttpd_cb env fs req s = Some (resp, s')"
  shows "gateway_inv s'"
  using cb
proof (cases rule: libmicrohttpd_cb_cases)
  case rejected
  with inv show ?thesis by simp
next
  case (unknown ip)
  with get_client_mac_frame(2) [OF _ inv] show ?thesis by blast
next
  case (full ip mac s1)
  note i = get_client_mac_frame(2) [OF full(2) inv] and l = get_client_mac_frame(3) [OF full(2) refl]
  from add_client_gateway_inv [OF i l, of env ip] full(4) show ?thesis by (simp add: add_client_def)
next
  case (handled buf ip mac s1 a s2)
  note i = get_client_mac_frame(2) [OF handled(4) inv] and l = get_client_mac_frame(3) [OF handled(4) refl]
  have "gateway_inv s2" using handled(5) i add_client_gateway_inv [OF i l, of env ip] by (auto simp: add_client_def)
  from authenticated_gateway_inv [OF sh this] preauthenticated_gateway_inv [OF sh this]
  show ?thesis using handled(6) by (metis snd_conv)
qed

section \<open>Lemmas: who is authenticated\<close>

lemma find_by_own_id:
  assumes "distinct (addrs s)" and "distinct (ids s)" and "client_at s a = Some c"
  shows "client_list_find_by_id (cl_id c) s = Some a"
proof (rule by_id.finder_unique)
  show "distinct (map fst (clients s))" using assms(1) by (simp add: addrs_def)
  show c: "(a, c) \<in> set (clients s)" by (rule client_at_Some [OF assms(3)])
  show "b = a" if "(b, d) \<in> set (clients s)" "cl_id d = cl_id c" for b d
  proof -
    have "inj_on (\<lambda>(a, c). cl_id c) (set (clients s))" using assms(2) by (simp add: ids_def distinct_map)
    from inj_onD [OF this _ that(1) c] that(2) show "b = a" by simp
  qed
qed simp

lemma auth_client_auth_at:
  assumes "distinct (addrs s)" and "distinct (ids s)" and "client_at s a = Some c"
  shows "b \<noteq> a \<Longrightarrow> client_at (snd (auth_client_auth env (cl_id c) reason s)) b = client_at s b"
    and "\<exists>st. client_at (snd (auth_client_auth env (cl_id c) reason s)) a = Some (c\<lparr>fw_connection_state := st\<rparr>)"
proof -
  let ?r = "auth_change_state env a (FW_MARK_AUTHENTICATED s) reason s"
  have e: "client_at (snd (auth_client_auth env (cl_id c) reason s)) b = client_at (snd ?r) b" for b
    by (simp add: auth_client_auth_def auth_client_auth_nolock_def find_by_own_id [OF assms] case_prod_beta client_at_def)
  show "client_at (snd (auth_client_auth env (cl_id c) reason s)) b = client_at s b" if "b \<noteq> a"
    by (simp add: e auth_change_state_local [OF that])
  have "\<exists>st. client_at (snd ?r) a = Some (c\<lparr>fw_connection_state := st\<rparr>)"
  proof (rule auth_change_state_cases [of env a "FW_MARK_AUTHENTICATED s" reason s])
    assume "?r = (-1, s)"
    then show ?thesis using assms(3) by (intro exI [of _ "fw_connection_state c"]) simp
  qed (use assms(3) in \<open>simp_all add: client_at_update same_but_log_client_at [OF auth_cmds_same(1)], blast\<close>)
  then show "\<exists>st. client_at (snd (auth_client_auth env (cl_id c) reason s)) a = Some (c\<lparr>fw_connection_state := st\<rparr>)"
    by (simp add: e)
qed

lemma set_session_at: "client_at (set_session a now vals s) b
    = (if b = a then map_option (\<lambda>c. c\<lparr>cl_download_limit := snd (snd vals), cl_upload_limit := fst (snd vals),
        session_start := now, session_end := (if fst vals \<noteq> 0 then now + fst vals else 0)\<rparr>) (client_at s b)
       else client_at s b)"
  by (cases vals) (simp add: set_session_def client_at_update)

text \<open>A request handled before authentication leaves every other client alone and keeps the token and addresses.\<close>

definition same_identity :: "t_client \<Rightarrow> t_client \<Rightarrow> bool" where
  "same_identity c d \<longleftrightarrow> cl_token d = cl_token c \<and> cl_ip d = cl_ip c \<and> cl_mac d = cl_mac c"

lemma do_binauth_same: "same_but_log s (snd (do_binauth env req prog c vals s))"
proof -
  have "same_but_log s (snd (execute_ret env n cmd s))" for n cmd
    using popen_same [of s env cmd] by (simp add: execute_ret_def case_prod_beta)
  then show ?thesis by (simp add: do_binauth_def Let_def case_prod_beta split: option.split)
qed

lemma authenticate_client_at:
  assumes d: "distinct (addrs s)" "distinct (ids s)" and at: "client_at s a = Some c"
  shows "(\<forall>b. b \<noteq> a \<longrightarrow> client_at (snd (authenticate_client env req u a s)) b = client_at s b)
    \<and> (\<exists>c'. client_at (snd (authenticate_client env req u a s)) a = Some c' \<and> same_identity c c')"
proof -
  let ?s = "s\<lparr>time_calls := Suc (time_calls s)\<rparr>"
  let ?Q = "\<lambda>s'. (\<forall>b. b \<noteq> a \<longrightarrow> client_at s' b = client_at s b) \<and> (\<exists>c'. client_at s' a = Some c' \<and> same_identity c c')"
  have fin: "?Q (snd (auth_client_auth env (cl_id (client_of s1 a)) reason s1))"
    "?Q (set_session a now vals (snd (auth_client_auth env (cl_id (client_of s1 a)) reason s1)))"
    if "clients s1 = clients s" for s1 now vals reason
  proof -
    have s1: "distinct (addrs s1)" "distinct (ids s1)" "client_at s1 a = Some c" "\<And>b. client_at s1 b = client_at s b"
      using d at that by (simp_all add: addrs_def ids_def client_at_def)
    note e = auth_client_auth_at [OF s1(1-3), where env = env and reason = reason]
    show 1: "?Q (snd (auth_client_auth env (cl_id (client_of s1 a)) reason s1))"
      using e s1(3,4) by (auto simp: client_of_at same_identity_def)
    then show "?Q (set_session a now vals (snd (auth_client_auth env (cl_id (client_of s1 a)) reason s1)))"
      by (auto simp: set_session_at same_identity_def)
  qed
  have id: "?Q s1" if "clients s1 = clients s" for s1
    using at that by (simp add: client_at_def same_identity_def)
  show ?thesis
  proof (cases "binauth (config s)")
    case None
    then show ?thesis using fin [of ?s]
      by (simp add: authenticate_client_def c_time_def Let_def case_prod_beta)
  next
    case (Some prog)
    let ?v = "(to_int32 (60 * session_timeout (config s)), 0, 0)"
    obtain r s1 where b: "do_binauth env req prog (client_of ?s a) ?v ?s = (r, s1)"
      by (cases "do_binauth env req prog (client_of ?s a) ?v ?s")
    then have "clients s1 = clients s"
      using same_but_log_addrs [OF do_binauth_same, of env req prog "client_of ?s a" ?v ?s] by simp
    with b Some fin [of s1] id [of s1] show ?thesis
      by (simp add: authenticate_client_def c_time_def Let_def case_prod_beta split: option.split)
  qed
qed

lemma clients_client_at: "clients s' = clients s \<Longrightarrow> client_at s' = client_at s"
  by (rule ext) (simp add: client_at_def)

lemma templated_page_clients: "clients (snd (show_templated_page env fs req a page s)) = clients s"
  by (simp add: show_templated_page_def replace_variables_def get_uptime_string_def c_time_def Let_def
      split: option.split)

text \<open>No request of an authenticated client authenticates a client.\<close>

lemma authenticated_at:
  assumes "client_at (snd (authenticated env fs req url a s)) b = Some c'"
    and "fw_connection_state c' = FW_MARK_AUTHENTICATED s" and m: "marks_distinct s"
  shows "client_at s b = Some c'"
proof (cases "clients (snd (authenticated env fs req url a s)) = clients s")
  case True
  then show ?thesis using assms(1) clients_client_at by metis
next
  case False
  then have "snd (authenticated env fs req url a s)
      = snd (auth_client_deauth env (cl_id (client_of s a)) (Some ''client_deauth'') s)"
    using templated_page_clients [of env fs req a "statuspage (config s)" s]
    by (auto simp: authenticated_def show_statuspage_def Let_def split: if_split_asm)
  then obtain d where d: "snd (authenticated env fs req url a s)
      = snd (auth_change_state env d (FW_MARK_PREAUTHENTICATED s) (Some ''client_deauth'') s)"
    using False by (auto simp: auth_client_deauth_def split: option.split_asm)
  show ?thesis
  proof (cases "b = d")
    case True
    note at = assms(1) [unfolded d]
    show ?thesis
    proof (rule auth_change_state_cases [of env d "FW_MARK_PREAUTHENTICATED s" "Some ''client_deauth''" s])
      fix c assume "client_at s d = Some c" "fw_connection_state c = FW_MARK_AUTHENTICATED s"
        "FW_MARK_PREAUTHENTICATED s \<noteq> FW_MARK_AUTHENTICATED s"
      from deauth_client_at [OF this, of env "Some ''client_deauth''"] at True assms(2) m show ?thesis
        by (metis marks_distinct_def option.inject)
    qed (use at True m in \<open>simp_all add: marks_distinct_def delete_client_at\<close>)
  next
    case False
    then show ?thesis using assms(1) by (simp add: d auth_change_state_local)
  qed
qed

text \<open>
  A request before authentication: a client that is authenticated afterwards was before, or it is the
  one that sent the request, and the request carried its token.
\<close>

lemma preauthenticated_at:
  assumes d: "distinct (addrs s)" "distinct (ids s)" and at: "client_at s a = Some c"
    and b: "client_at (snd (preauthenticated env fs req url a s)) b = Some c'"
  shows "client_at s b = Some c' \<or> (b = a \<and> req_arg req ''tok'' = Some (cl_token c') \<and> same_identity c c')"
proof (cases "clients (snd (preauthenticated env fs req url a s)) = clients s")
  case True
  then show ?thesis using b clients_client_at by metis
next
  case False
  let ?u = "case redirectURL (config s) of Some u \<Rightarrow> Some u | None \<Rightarrow> get_redirect_url req"
  have "try_to_authenticate req a url s \<and>
      snd (preauthenticated env fs req url a s) = snd (authenticate_client env req ?u a s)"
    using False templated_page_clients [of env fs req a "splashpage (config s)" s]
    by (auto simp: preauthenticated_def show_splashpage_def Let_def split: if_split_asm)
  moreover from this obtain c2 where "client_at (snd (preauthenticated env fs req url a s)) a = Some c2" "same_identity c c2"
    "\<forall>b. b \<noteq> a \<longrightarrow> client_at (snd (preauthenticated env fs req url a s)) b = client_at s b"
    using authenticate_client_at [OF d at, of env req ?u] by auto
  ultimately show ?thesis using b at
    by (cases "b = a") (auto simp: try_to_authenticate_def client_of_at same_identity_def)
qed

text \<open>The client of a request: found on the list, or added to it in its initial state.\<close>

lemma found_or_added:
  assumes inv: "cl_inv s1" "ids_inv s1" "client_id s1 + 1 < 2 ^ 31" "is_int32 (maxclients (config s1))"
    and r: "client_list_find mac ip s1 = Some a \<and> s2 = s1
       \<or> client_list_find mac ip s1 = None \<and> add_client env mac ip s1 = (Some a, s2)"
  obtains c where "client_at s2 a = Some c" "cl_ip c = ip" "cl_mac c = mac" "\<And>b. b \<noteq> a \<Longrightarrow> client_at s2 b = client_at s1 b"
    "globals s2 = globals s1" "cl_inv s2" "ids_inv s2"
    "client_at s1 a = Some c \<or> client_at s1 a = None \<and> fw_connection_state c = initial_state mac s1"
  using r
proof (elim disjE conjE)
  assume f: "client_list_find mac ip s1 = Some a" and s2: "s2 = s1"
  have "distinct (map fst (clients s1))" using inv(1) by (simp add: cl_inv_def addrs_def)
  from by_mac_ip.finder_at [OF this f] obtain c where "client_at s1 a = Some c" "cl_mac c = mac" "cl_ip c = ip" by auto
  then show thesis using inv s2 by (intro that [of c]) simp_all
next
  assume f: "client_list_find mac ip s1 = None" and add: "add_client env mac ip s1 = (Some a, s2)"
  then have "client_list_append env mac ip s1 = (Some a, s2)"
    by (simp add: add_client_def client_list_add_client_def split: if_split_asm)
  note app = client_list_append_new [OF this]
  have a: "a \<notin> set (addrs s1)" using app(1) inv(1) by (auto simp: cl_inv_def list_all_iff)
  have "clients s2 = clients s1 @ [(a, new_client env mac ip s1)]" by (simp add: app(3))
  note at = client_at_append [OF a this]
  have "cl_inv s2" "ids_inv s2"
    using add_client_inv [OF inv(1,4), of env mac ip] add_client_ids_inv [OF inv(2,3), of env mac ip] add
    by (simp_all add: add_client_def)
  moreover have "client_at s1 a = None" using a by (simp add: client_at_None)
  moreover have "globals s2 = globals s1" by (simp add: app(3))
  ultimately show thesis by (intro that [of "new_client env mac ip s1"]) (simp_all add: at)
qed

section \<open>Properties\<close>

lemma request_authenticates:
  assumes inv: "cl_inv s" "ids_inv s" "client_id s + 1 < 2 ^ 31" "marks_distinct s" "is_int32 (maxclients (config s))"
    and cb: "libmicrohttpd_cb env fs req s = Some (resp, s')"
    and b: "client_at s' b = Some c'" "fw_connection_state c' = FW_MARK_AUTHENTICATED s"
    and new: "client_at s b \<noteq> Some c'"
  shows "req_method req = ''GET'' \<and> get_client_ip req = Some (cl_ip c') \<and> req_arg req ''tok'' = Some (cl_token c')"
  using cb
proof (cases rule: libmicrohttpd_cb_cases)
  case rejected
  with b new show ?thesis by blast
next
  case (unknown ip)
  with b new same_but_log_client_at [OF get_client_mac_frame(1) [OF unknown(2)]] show ?thesis by simp
next
  case (full ip mac s1)
  have "s' = s1" using full(3,4)
    by (auto simp: add_client_def client_list_add_client_def client_list_append_eq split: if_split_asm)
  with b new same_but_log_client_at [OF get_client_mac_frame(1) [OF full(2)]] show ?thesis by simp
next
  case (handled buf ip mac s1 a s2)
  note l = get_client_mac_frame(1) [OF handled(4)]
  have s1: "cl_inv s1" "ids_inv s1" "client_id s1 = client_id s" "is_int32 (maxclients (config s1))"
    using inv same_clients_inv [OF same_but_log_clients [OF l]] same_but_log_clients [OF l]
      same_but_lists_frame(5) [OF same_but_log_lists [OF l]] by (simp_all add: same_clients_def)
  have "client_id s1 + 1 < 2 ^ 31" using inv(3) s1(3) by simp
  from found_or_added [OF s1(1,2) this s1(4) handled(5)] obtain c where
    c: "client_at s2 a = Some c" "cl_ip c = ip" and other: "\<And>b. b \<noteq> a \<Longrightarrow> client_at s2 b = client_at s1 b"
    and g: "globals s2 = globals s1" and i2: "cl_inv s2" "ids_inv s2"
    and a: "client_at s1 a = Some c \<or> client_at s1 a = None \<and> fw_connection_state c = initial_state mac s1"
    by metis
  have g1: "globals s1 = globals s" by (rule same_but_log_globals [OF l])
  note g2 = trans [OF g g1]
  have at1: "client_at s1 b = client_at s b" for b by (rule same_but_log_client_at [OF l])
  have old: "client_at s2 b \<noteq> Some c'"
  proof
    assume "client_at s2 b = Some c'"
    moreover have "fw_connection_state c' \<noteq> initial_state mac s1"
      using inv(4) b(2) by (auto simp: initial_state_def marks_distinct_def globals_fields [OF g1])
    ultimately show False using new b(2) a at1 other c(1) by (cases "b = a") auto
  qed
  have "s' = snd (preauthenticated env fs req (cstr buf) a s2)"
    using handled(6) old b authenticated_at [of env fs req "cstr buf" a s2 b c'] inv(4)
    by (auto simp: globals_fields [OF g2] globals_inv [OF g2] split: if_split_asm)
      (metis snd_conv)+
  with preauthenticated_at [OF _ _ c(1), of env fs req "cstr buf" b c'] b(1) i2 old
  show ?thesis using handled(2,3) c(2) by (simp add: cl_inv_def ids_inv_def same_identity_def)
qed

text \<open>C4. In a state in which no two clients have the same id, the list is well formed, the firewall marks are distinct
  and the limit of clients is a C integer:
  whatever request arrives, a client that it authenticates is the one at the address that sent it, and the request is
  a GET that carries the token of this client. The ids are distinct as long as no client came from a state file and the
  counter of ids (below \<open>2 ^ 31\<close>) has not run out; with a duplicate id a request can authenticate the client at
  another address (\<open>duplicate_id_authenticates_other\<close>).\<close>

theorem http_auth_needs_token:
  assumes inv: "cl_inv s" "ids_inv s" "client_id s + 1 < 2 ^ 31" "marks_distinct s" "is_int32 (maxclients (config s))"
    and cb: "libmicrohttpd_cb env fs req s = Some (resp, s')"
    and b: "client_at s' b = Some c'" "fw_connection_state c' = FW_MARK_AUTHENTICATED s"
    and new: "\<nexists>c. client_at s b = Some c \<and> fw_connection_state c = FW_MARK_AUTHENTICATED s"
  shows "req_method req = ''GET'' \<and> get_client_ip req = Some (cl_ip c') \<and> req_arg req ''tok'' = Some (cl_token c')"
  using new b(2) by (intro request_authenticates [OF inv cb b]) blast

lemma not_page [simp]:
  "send_error req e \<noteq> Response st hs (Page f)" "send_redirect_temp req u \<noteq> Response st hs (Page f)"
  "send_refresh req \<noteq> Response st hs (Page f)"
  "encode_and_redirect_to_splashpage req u' s \<noteq> Response st hs (Page f)"
  by (auto simp: send_error_def send_redirect_temp_def send_refresh_def respond_def Let_def
      encode_and_redirect_to_splashpage_def split: option.split prod.split)

lemma not_page_pairs [simp]:
  "fst (show_templated_page env fs req a page s) \<noteq> Response st hs (Page f)"
  "fst (authenticate_client env req u a s) \<noteq> Response st hs (Page f)"
  "redirect_to_splashpage req host url s \<noteq> Response st hs (Page f)"
  by (auto simp: show_templated_page_def authenticate_client_def redirect_to_splashpage_def respond_def Let_def
      split: option.split prod.split)

lemma serve_file_page:
  "serve_file fs req url s = Response st hs (Page f) \<Longrightarrow> f = take (PATH_MAX - 1) (webroot (config s) @ ''/'' @ url)"
  by (auto simp: serve_file_def respond_def Let_def split: option.split_asm if_split_asm)

lemma handler_page:
  "fst (authenticated env fs req url a s) = Response st hs (Page f) \<Longrightarrow> f = take (PATH_MAX - 1) (webroot (config s) @ ''/'' @ url)"
  "fst (preauthenticated env fs req url a s) = Response st hs (Page f) \<Longrightarrow> f = take (PATH_MAX - 1) (webroot (config s) @ ''/'' @ url)"
  by (auto simp: authenticated_def preauthenticated_def show_statuspage_def show_splashpage_def Let_def
      dest!: serve_file_page split: if_split_asm)

text \<open>C19. A file that the server sends lies below the web root: its name is the web root followed by a path
  without \<open>..\<close> components, cut to the length of the buffer. This is about the files that are sent as they are (the pages
  with variables have names from the configuration), in a state with a well-formed list and distinct ids.\<close>

theorem http_files_below_webroot:
  assumes "libmicrohttpd_cb env fs req s = Some (Response st hs (Page f), s')" and "NUL \<notin> set (req_url req)"
    and inv: "cl_inv s" "ids_inv s" "client_id s + 1 < 2 ^ 31" "is_int32 (maxclients (config s))"
  shows "\<exists>u. f = take (PATH_MAX - 1) (webroot (config s) @ ''/'' @ u) \<and> ''..'' \<notin> set (split_at (CHR ''/'') u)"
  using assms(1)
proof (cases rule: libmicrohttpd_cb_cases)
  case (handled buf ip mac s1 a s2)
  note l = get_client_mac_frame(1) [OF handled(4)]
  have s1: "cl_inv s1" "ids_inv s1" "client_id s1 + 1 < 2 ^ 31" "is_int32 (maxclients (config s1))"
    using inv same_clients_inv [OF same_but_log_clients [OF l]] same_but_log_clients [OF l]
      same_but_lists_frame(5) [OF same_but_log_lists [OF l]] by (simp_all add: same_clients_def)
  from found_or_added [OF s1 handled(5)] have "globals s2 = globals s"
    using same_but_log_globals [OF l] by metis
  then have "webroot (config s2) = webroot (config s)"
    using arg_cong [OF globals_fields(7), of s2 s webroot] by (simp add: core_def)
  moreover have "f = take (PATH_MAX - 1) (webroot (config s2) @ ''/'' @ cstr buf)"
    using handled(6) handler_page [of env fs req "cstr buf" a s2 st hs f] by (metis fst_conv)
  moreover have "''..'' \<notin> set (split_at (CHR ''/'') (cstr buf))"
    using buffer_path_simplify_ref [OF handled(1) assms(2)] path_ref_safe by simp
  ultimately show ?thesis by auto
qed (metis not_page(1))+

text \<open>The query string: the arguments in order, the first after \<open>?\<close> and the others after \<open>&\<close>.\<close>

definition arg_text :: "string \<times> string option \<Rightarrow> string" where
  "arg_text kv = fst kv @ (case snd kv of Some v \<Rightarrow> CHR ''='' # v | None \<Rightarrow> [])"

definition query_args :: "(string option \<times> string option) list \<Rightarrow> (string \<times> string option) list" where
  "query_args args = map (\<lambda>(k, v). (the k, v)) (filter (\<lambda>(k, v). k \<noteq> None) args)"

definition query_text :: "(string option \<times> string option) list \<Rightarrow> string" where
  "query_text args = (case query_args args of
     [] \<Rightarrow> [] | kv # kvs \<Rightarrow> CHR ''?'' # arg_text kv @ concat (map (\<lambda>kv. CHR ''&'' # arg_text kv) kvs))"

lemma get_query_more:
  "q \<noteq> [] \<Longrightarrow> length q < QUERYMAXLEN \<Longrightarrow> get_query q args =
     (let t = q @ concat (map (\<lambda>kv. CHR ''&'' # arg_text kv) (query_args args)) in
      if length t < QUERYMAXLEN then Some t else None)"
proof (induction q args rule: get_query.induct)
  case (3 q key val args)
  let ?arg = "CHR ''&'' # key @ (case val of Some v \<Rightarrow> CHR ''='' # v | None \<Rightarrow> [])"
  show ?case
  proof (cases "length ?arg \<ge> QUERYMAXLEN - length q")
    case True
    with 3(2,3) show ?thesis by (simp add: Let_def query_args_def arg_text_def split: option.split_asm)
  next
    case False
    with 3 have "get_query (q @ ?arg) args = (let t = (q @ ?arg) @ concat (map (\<lambda>kv. CHR ''&'' # arg_text kv) (query_args args)) in
      if length t < QUERYMAXLEN then Some t else None)" by simp
    with False 3(2) show ?thesis by (simp add: Let_def query_args_def arg_text_def)
  qed
qed (simp_all add: query_args_def Let_def)

text \<open>The query string that is sent back to the client is exactly its arguments in order, if that
  text is shorter than \<open>QUERYMAXLEN\<close>, and an error otherwise: nothing is cut off or written past the buffer.\<close>

theorem query_string_exact:
  "get_query [] args = (if length (query_text args) < QUERYMAXLEN then Some (query_text args) else None)"
proof (induction args)
  case (Cons kv args)
  show ?case
  proof (cases "fst kv")
    case None
    then show ?thesis using Cons by (cases kv) (simp add: query_text_def query_args_def)
  next
    case (Some key)
    obtain val where kv: "kv = (Some key, val)" using Some by (cases kv) simp
    let ?arg = "CHR ''?'' # key @ (case val of Some v \<Rightarrow> CHR ''='' # v | None \<Rightarrow> [])"
    show ?thesis
      using get_query_more [of ?arg args]
      by (cases "length ?arg \<ge> QUERYMAXLEN")
        (simp_all add: kv Let_def query_text_def query_args_def arg_text_def split: option.split_asm)
  qed
qed (simp add: query_text_def query_args_def)

text \<open>The test for the authentication directory ignores the first and the last character of the path,
  which are documented to be slashes.\<close>

theorem authdir_match_ignores_ends: "check_authdir_match (x # dir @ [y]) dir"
  by (simp add: check_authdir_match_def strncmp_eq_def)

lemma authenticate_client_session:
  assumes "cl_inv s" and "ids_inv s" and "marks_distinct s" and at: "client_at s a = Some c"
    and st: "fw_connection_state c = FW_MARK_PREAUTHENTICATED s" and bin: "binauth (config s) = None"
    and "is_int32 (60 * session_timeout (config s))"
  shows "\<exists>c'. client_at (snd (authenticate_client env req u a s)) a = Some c'
    \<and> fw_connection_state c' = FW_MARK_AUTHENTICATED s \<and> same_identity c c'
    \<and> session_start c' = time_of env (time_calls s)
    \<and> session_end c' = (if session_timeout (config s) = 0 then 0
         else time_of env (time_calls s) + 60 * session_timeout (config s))
    \<and> fst (authenticate_client env req u a s)
        = (case u of Some url \<Rightarrow> send_redirect_temp req url | None \<Rightarrow> send_error req 200)"
proof -
  let ?s = "s\<lparr>time_calls := Suc (time_calls s)\<rparr>"
  let ?now = "time_of env (time_calls s)"
  have at': "client_at ?s a = Some c" "distinct (addrs ?s)" "distinct (ids ?s)"
    using assms(1,2) at by (simp_all add: client_at_def addrs_def ids_def cl_inv_def ids_inv_def)
  note i = find_by_own_id [OF at'(2,3,1)]
  have m: "FW_MARK_PREAUTHENTICATED s \<noteq> FW_MARK_AUTHENTICATED s" using assms(3) by (simp add: marks_distinct_def)
  define s1 where "s1 = update_client a (\<lambda>c. c\<lparr>fw_connection_state := FW_MARK_AUTHENTICATED s\<rparr>) (auth_cmds env c None ?s)"
  have "auth_change_state env a (FW_MARK_AUTHENTICATED s) None ?s = (0, s1)"
    using at' st m by (simp add: auth_change_state_def Let_def auth_cmds_def s1_def)
  then have "auth_client_auth env (cl_id c) None ?s = (0, s1\<lparr>authenticated_since_start := authenticated_since_start s1 + 1\<rparr>)"
    by (simp add: auth_client_auth_def auth_client_auth_nolock_def i)
  then have e: "authenticate_client env req u a s = (case u of Some url \<Rightarrow> send_redirect_temp req url | None \<Rightarrow> send_error req 200,
      set_session a ?now (60 * session_timeout (config s), 0, 0) (s1\<lparr>authenticated_since_start := authenticated_since_start s1 + 1\<rparr>))"
    using bin assms(7) at' by (simp add: authenticate_client_def c_time_def client_of_at Let_def)
  have "client_at (s1\<lparr>authenticated_since_start := n\<rparr>) a = Some (c\<lparr>fw_connection_state := FW_MARK_AUTHENTICATED s\<rparr>)" for n
    using at'(1) same_but_log_client_at [OF auth_cmds_same(1), of env c None ?s a]
    by (simp add: s1_def client_at_def client_at_update [unfolded client_at_def])
  then show ?thesis by (simp add: e set_session_at same_identity_def)
qed


lemma length_show_nat: "length (show_nat n) \<le> Suc k \<longleftrightarrow> n < 10 ^ Suc k"
proof (induction k arbitrary: n)
  case 0
  show ?case by (subst show_nat_digit) (simp add: Suc_le_eq)
next
  case (Suc k)
  from Suc.IH [of "n div 10"] show ?case by (subst show_nat_digit) (auto simp: div_less_iff_less_mult intro: less_le_trans)
qed

text \<open>
  Making a page for a client stores outside a buffer exactly when one of its counters has 20 digits, since they are
  printed into buffers of 20 bytes; the import of a state file accepts such counters.
\<close>

theorem counter_buffer_overflow:
  assumes "client_at s a = Some c"
  shows "fst (replace_variables env fs req a dst_len src s) = None
    \<longleftrightarrow> 10 ^ 19 \<le> unat (outgoing (counters c)) \<or> 10 ^ 19 \<le> unat (incoming (counters c))"
proof -
  have "client_of (s\<lparr>time_calls := n\<rparr>) a = c" for n using assms by (simp add: client_of_def client_at_def)
  moreover have "length (show_word w) < 20 \<longleftrightarrow> unat w < 10 ^ 19" for w :: "64 word"
    using length_show_nat [of "unat w" 18] by (simp add: show_word_def less_Suc_eq_le [symmetric])
  moreover have "tmpl_parse vars n t \<noteq> None" for vars n t 
    using tmpl_loop_expand [of vars n "[]" t] by (simp add: tmpl_parse_def filled_def)
  ultimately show ?thesis
    by (simp add: replace_variables_def get_uptime_string_def c_time_def Let_def not_less)
qed

section \<open>Witnesses\<close>

text \<open>A client in the neighbour table, preauthenticated, asks to be authenticated with its token.\<close>

definition http_env :: env where
  "http_env = sample_env\<lparr>sh := (\<lambda>_ cmd. Some (0, if cmd = ''ip neigh show''
     then ''10.0.0.2 dev br0 lladdr 00:11:22:33:44:55 REACHABLE'' else []))\<rparr>"

definition http_files :: files where
  "http_files = \<lparr>file_kind = (\<lambda>f. Some Regular), file_text = (\<lambda>f. Some ''x''), read_error = (\<lambda>f. False), time_text = (\<lambda>t. [])\<rparr>"

definition http_req :: "string \<Rightarrow> request" where
  "http_req url = \<lparr>req_method = ''GET'', req_url = url, req_addr = Some (AF_INET 10 0 0 2), req_headers = [],
     req_args = [], req_arg = (\<lambda>k. if k = ''tok'' then Some ''abc'' else None), args_listed = True, can_respond = True\<rparr>"

definition http_state :: nds where
  "http_state = sample_marks\<lparr>clients := [(1, (blank_client ''00:11:22:33:44:55'' ''10.0.0.2'')
     \<lparr>cl_id := 1, cl_token := ''abc''\<rparr>)], client_count := 1, client_id := 2, next_addr := 2\<rparr>"

lemma cb_short_url:
  assumes "NUL \<notin> set (req_url req)" and "length (req_url req) < PATH_MAX"
  shows "libmicrohttpd_cb env fs req s = Some (handle_request env fs req (path_ref (req_url req)) s)"
proof -
  obtain d where d: "buffer_path_simplify (replicate PATH_MAX NUL) (req_url req) = Some d"
    using buffer_path_simplify_total [of "req_url req" "replicate PATH_MAX NUL"] assms(2) by auto
  with buffer_path_simplify_ref [OF d assms(1)] show ?thesis by (simp add: libmicrohttpd_cb_def)
qed

abbreviation (input) auth_req :: request where
  "auth_req \<equiv> http_req ''/nodogsplash_auth/''"

abbreviation (input) auth_done :: "response \<times> nds" where
  "auth_done \<equiv> handle_request http_env http_files auth_req ''/nodogsplash_auth/'' http_state"

theorem http_auth_needs_token_witness:
  "\<exists>c'. client_at (snd auth_done) 1 = Some c' \<and> fw_connection_state c' = 0x30000
     \<and> get_client_ip auth_req = Some (cl_ip c') \<and> req_arg auth_req ''tok'' = Some (cl_token c')"
proof -
  have "map_option fw_connection_state (client_at (snd auth_done) 1) = Some 0x30000" by code_simp
  then obtain c' where c': "client_at (snd auth_done) 1 = Some c'" "fw_connection_state c' = 0x30000" by auto
  have "path_ref (req_url auth_req) = ''/nodogsplash_auth/''" by code_simp
  moreover have "NUL \<notin> set (req_url auth_req)" "length (req_url auth_req) < PATH_MAX" by code_simp+
  ultimately have cb: "libmicrohttpd_cb http_env http_files auth_req http_state = Some (fst auth_done, snd auth_done)"
    using cb_short_url [of auth_req http_env http_files http_state] by simp
  have i: "cl_inv http_state" by code_simp
  have j: "ids_inv http_state" by code_simp
  have k: "client_id http_state = 2" "FW_MARK_AUTHENTICATED http_state = 0x30000" by code_simp+
  have l: "marks_distinct http_state" "is_int32 (maxclients (config http_state))" by code_simp+
  have m: "map_option fw_connection_state (client_at http_state 1) = Some 0" by code_simp
  show ?thesis
    using http_auth_needs_token [OF i j _ l cb c'(1)] c' k m by auto
qed

theorem http_files_below_webroot_witness:
  "\<exists>u. ''/etc/nodogsplash/htdocs//a.css'' = take (PATH_MAX - 1) (''/etc/nodogsplash/htdocs'' @ ''/'' @ u)
     \<and> ''..'' \<notin> set (split_at (CHR ''/'') u)"
proof -
  let ?req = "http_req ''/b/../a.css''"
  let ?r = "handle_request http_env http_files ?req ''/a.css'' http_state"
  have r: "fst ?r = Response 200 [(''Content-Type'', ''text/css'')] (Page ''/etc/nodogsplash/htdocs//a.css'')" by code_simp
  have "path_ref (req_url ?req) = ''/a.css''" by code_simp
  moreover have n: "NUL \<notin> set (req_url ?req)" "length (req_url ?req) < PATH_MAX" by code_simp+
  ultimately have cb: "libmicrohttpd_cb http_env http_files ?req http_state = Some (fst ?r, snd ?r)"
    using cb_short_url [of ?req http_env http_files http_state] by simp
  have i: "cl_inv http_state" by code_simp
  have j: "ids_inv http_state" by code_simp
  have k: "client_id http_state = 2" "webroot (config http_state) = ''/etc/nodogsplash/htdocs''" by code_simp+
  have l: "is_int32 (maxclients (config http_state))" by code_simp
  show ?thesis using http_files_below_webroot [OF cb [unfolded r] n(1) i j _ l] k by simp
qed


text \<open>
  The client is looked up by its address but authenticated by its id: a request from 10.0.0.3 with the token of the client
  there authenticates the client at 10.0.0.2 that has the same id.
\<close>

theorem duplicate_id_authenticates_other:
  "cl_inv (same_id 0) \<and> marks_distinct (same_id 0)
   \<and> map (\<lambda>(a, c). (cl_ip c, fw_connection_state c))
       (clients (snd (handle_request (http_env\<lparr>sh := (\<lambda>_ cmd. Some (0, if cmd = ''ip neigh show''
            then ''10.0.0.3 dev br0 lladdr 00:11:22:33:44:66 REACHABLE'' else []))\<rparr>) http_files
          (auth_req\<lparr>req_addr := Some (AF_INET 10 0 0 3), req_arg := (\<lambda>k. if k = ''tok'' then Some ''xyz'' else None)\<rparr>)
          ''/nodogsplash_auth/'' (same_id 0))))
     = [(''10.0.0.2'', 0x30000), (''10.0.0.3'', 0)]"
  by code_simp

end
