(* ===== verification/Ndsctl_Thread.thy ===== *)
theory Ndsctl_Thread
  imports Status Http
begin

text \<open>
  \<open>src/ndsctl_thread.c\<close>: the thread that serves the control socket. The operating system is a parameter:
  what the successive \<open>read\<close> calls of a connection return and which events \<open>epoll_wait\<close> reports are lists;
  the value \<^const>\<open>None\<close> says that the handler still waits for more when the list is used up. A handler
  returns what it writes to the connection, and the new state.
\<close>

section \<open>Commands\<close>

definition yes_no :: "int \<Rightarrow> string" where
  "yes_no rc = (if rc = 0 then ''Yes'' else ''No'')"

text \<open>The id of the client with the given token, IP address or MAC, 0 if there is none.\<close>

definition find_id :: "string \<Rightarrow> nds \<Rightarrow> 32 word" where
  "find_id arg s = (case client_list_find_by_any arg arg arg s of None \<Rightarrow> 0 | Some a \<Rightarrow> cl_id (client_of s a))"

definition ndsctl_auth :: "env \<Rightarrow> string \<Rightarrow> nds \<Rightarrow> string \<times> nds" where
  "ndsctl_auth env arg s =
     (let i = find_id arg s in
      case (if i \<noteq> 0 then auth_client_auth_nolock env i (Some ''ndsctl_auth'') s else (-1, s)) of
        (rc, s') \<Rightarrow> (yes_no rc, s'))"

definition ndsctl_deauth :: "env \<Rightarrow> string \<Rightarrow> nds \<Rightarrow> string \<times> nds" where
  "ndsctl_deauth env arg s =
     (let i = find_id arg s in
      case (if i \<noteq> 0 then auth_client_deauth env i (Some ''ndsctl_deauth'') s else (-1, s)) of
        (rc, s') \<Rightarrow> (yes_no rc, s'))"

definition ndsctl_block :: "env \<Rightarrow> string \<Rightarrow> nds \<Rightarrow> string \<times> nds" where
  "ndsctl_block env arg s = (case auth_client_block env arg s of (rc, s') \<Rightarrow> (yes_no rc, s'))"

definition ndsctl_unblock :: "env \<Rightarrow> string \<Rightarrow> nds \<Rightarrow> string \<times> nds" where
  "ndsctl_unblock env arg s = (case auth_client_unblock env arg s of (rc, s') \<Rightarrow> (yes_no rc, s'))"

definition ndsctl_allow :: "env \<Rightarrow> string \<Rightarrow> nds \<Rightarrow> string \<times> nds" where
  "ndsctl_allow env arg s = (case auth_client_allow env arg s of (rc, s') \<Rightarrow> (yes_no rc, s'))"

definition ndsctl_unallow :: "env \<Rightarrow> string \<Rightarrow> nds \<Rightarrow> string \<times> nds" where
  "ndsctl_unallow env arg s = (case auth_client_unallow env arg s of (rc, s') \<Rightarrow> (yes_no rc, s'))"

definition ndsctl_trust :: "env \<Rightarrow> string \<Rightarrow> nds \<Rightarrow> string \<times> nds" where
  "ndsctl_trust env arg s = (case auth_client_trust env arg s of (rc, s') \<Rightarrow> (yes_no rc, s'))"

definition ndsctl_untrust :: "env \<Rightarrow> string \<Rightarrow> nds \<Rightarrow> string \<times> nds" where
  "ndsctl_untrust env arg s = (case auth_client_untrust env arg s of (rc, s') \<Rightarrow> (yes_no rc, s'))"

definition ndsctl_debuglevel :: "string \<Rightarrow> nds \<Rightarrow> string \<times> nds" where
  "ndsctl_debuglevel arg s =
     (case set_debuglevel (Some arg) (config s) of (rc, cfg) \<Rightarrow> (yes_no rc, s\<lparr>config := cfg\<rparr>))"

section \<open>Reading a request\<close>

text \<open>
  A read fails (also because a non-blocking connection has no data yet), or stores some bytes, none at
  the end of the stream. \<open>read_bytes\<close> is signed but compared as unsigned: the loop goes on while it is at
  least 0 and less than 4095. A failed read moves it back by one.
\<close>

datatype read_result = ReadError | ReadData string

definition end_line :: "char \<Rightarrow> char" where
  "end_line c = (if c = CR \<or> c = NL then NUL else c)"

fun read_request :: "read_result list \<Rightarrow> int \<Rightarrow> bool \<Rightarrow> string \<Rightarrow> (bool \<times> string) option" where
  "read_request reads read_bytes finished request =
     (if finished \<or> \<not> (0 \<le> read_bytes \<and> read_bytes < int MAX_BUF - 1) then Some (finished, request)
      else case reads of
          [] \<Rightarrow> None
        | ReadError # reads' \<Rightarrow> read_request reads' (read_bytes - 1) finished request
        | ReadData bytes # reads' \<Rightarrow>
            (let n = nat read_bytes; bs = take (MAX_BUF - n) bytes
             in read_request reads' (read_bytes + int (length bs)) (CR \<in> set bs \<or> NL \<in> set bs)
                  (take n request @ map end_line bs @ drop (n + length bs) request)))"

declare read_request.simps [simp del]

section \<open>Dispatch\<close>

text \<open>
  \<open>arg k\<close> is \<open>request + k\<close>. The buffer has no NUL when 4096 bytes without one were read; what lies
  behind it is not modelled. The second component is the return value of \<open>ndsctl_handler\<close>.
\<close>

definition run_request :: "env \<Rightarrow> (int \<Rightarrow> string) \<Rightarrow> string \<Rightarrow> nds \<Rightarrow> (string \<times> int) \<times> nds" where
  "run_request env ft request s =
     (let is = (\<lambda>cmd. strncmp_eq (cstr request) cmd (length cmd));
          arg = (\<lambda>k. cstr (drop k request));
          reply = (\<lambda>(out, s'). ((out, 0), s'))
      in if is ''status'' then reply (ndsctl_status env ft s)
         else if is ''clients'' then reply (ndsctl_clients env s)
         else if is ''json'' then reply (ndsctl_json env (arg 5) s)
         else if is ''stop'' then (([], 1), s)
         else if is ''block'' then reply (ndsctl_block env (arg 6) s)
         else if is ''unblock'' then reply (ndsctl_unblock env (arg 8) s)
         else if is ''allow'' then reply (ndsctl_allow env (arg 6) s)
         else if is ''unallow'' then reply (ndsctl_unallow env (arg 8) s)
         else if is ''trust'' then reply (ndsctl_trust env (arg 6) s)
         else if is ''untrust'' then reply (ndsctl_untrust env (arg 8) s)
         else if is ''auth'' then reply (ndsctl_auth env (arg 5) s)
         else if is ''deauth'' then reply (ndsctl_deauth env (arg 7) s)
         else if is ''debuglevel'' then reply (ndsctl_debuglevel (arg 11) s)
         else (([], 0), s))"

definition ndsctl_handler ::
  "env \<Rightarrow> (int \<Rightarrow> string) \<Rightarrow> read_result list \<Rightarrow> nds \<Rightarrow> ((string \<times> int) \<times> nds) option" where
  "ndsctl_handler env ft reads s =
     (case read_request reads 0 False (replicate MAX_BUF NUL) of
        None \<Rightarrow> None
      | Some (finished, request) \<Rightarrow> Some (run_request env ft request s))"

section \<open>The thread\<close>

text \<open>
  The events in the order in which they are handled: an interrupted or failed \<open>epoll_wait\<close>, a descriptor
  that is not ready, a connection to accept (with the results of \<open>accept\<close> and \<open>epoll_ctl\<close>), and data on a
  connection, with what its reads return. The thread state is \<open>current_fd_count\<close>.
\<close>

datatype socket_event =
    WaitInterrupted | WaitFailed
  | NotReady
  | Incoming bool bool
  | Readable "read_result list"

datatype thread_result = Serving int nds | Exited nds | Stuck nds

fun thread_ndsctl :: "env \<Rightarrow> (int \<Rightarrow> string) \<Rightarrow> socket_event list \<Rightarrow> int \<Rightarrow> nds \<Rightarrow> thread_result" where
  "thread_ndsctl env ft [] n s = Serving n s"
| "thread_ndsctl env ft (ev # evs) n s =
     (case ev of
        WaitInterrupted \<Rightarrow> thread_ndsctl env ft evs n s
      | WaitFailed \<Rightarrow> Exited s
      | NotReady \<Rightarrow> thread_ndsctl env ft evs n s
      | Incoming accepted added \<Rightarrow> if accepted \<and> added then thread_ndsctl env ft evs (n + 1) s else Exited s
      | Readable reads \<Rightarrow>
          (case ndsctl_handler env ft reads s of
             None \<Rightarrow> Stuck s
           | Some ((out, ret), s') \<Rightarrow> if ret \<noteq> 0 then Exited s' else thread_ndsctl env ft evs (n - 1) s'))"

section \<open>Lemmas: reading\<close>

definition no_eol :: "string \<Rightarrow> bool" where
  "no_eol bs \<longleftrightarrow> CR \<notin> set bs \<and> NL \<notin> set bs"

definition buffer_of :: "string \<Rightarrow> string" where
  "buffer_of bs = bs @ replicate (MAX_BUF - length bs) NUL"

lemma map_end_line: "no_eol bs \<Longrightarrow> map end_line bs = bs"
  by (induction bs) (auto simp: no_eol_def end_line_def)

lemma no_eol_append [simp]: "no_eol (xs @ ys) \<longleftrightarrow> no_eol xs \<and> no_eol ys"
  by (auto simp: no_eol_def)

lemma buffer_of_nil: "replicate MAX_BUF NUL = buffer_of []"
  by (simp add: buffer_of_def)

lemma buffer_of_store:
  "length pre + length bs \<le> MAX_BUF \<Longrightarrow>
   take (length pre) (buffer_of pre) @ bs @ drop (length pre + length bs) (buffer_of pre) = buffer_of (pre @ bs)"
  by (simp add: buffer_of_def add.commute)

lemma read_request_data:
  assumes "length pre + length bs < MAX_BUF" and "length pre < MAX_BUF - 1"
  shows "read_request (ReadData bs # reads) (int (length pre)) False (buffer_of pre)
    = read_request reads (int (length pre + length bs)) (\<not> no_eol bs) (buffer_of (pre @ map end_line bs))"
proof -
  have t: "take (MAX_BUF - length pre) bs = bs" using assms(1) by simp
  have f: "(CR \<in> set bs \<or> NL \<in> set bs) = (\<not> no_eol bs)" by (simp add: no_eol_def)
  show ?thesis
    using buffer_of_store [of pre "map end_line bs"] assms
    by (subst read_request.simps) (simp add: t f Let_def)
qed

lemma read_request_finished: "read_request reads n True request = Some (True, request)"
  by (subst read_request.simps) simp

text \<open>Data that arrives in any pieces, and ends with the characters of an end of line.\<close>

definition eol_char :: "char \<Rightarrow> bool" where
  "eol_char c \<longleftrightarrow> c = CR \<or> c = NL"

lemma eol_simps [simp]: "eol_char c \<Longrightarrow> end_line c = NUL" "eol_char c \<Longrightarrow> \<not> no_eol (c # ys)"
  by (auto simp: eol_char_def end_line_def no_eol_def)

lemma buffer_of_nuls: "length xs + n \<le> MAX_BUF \<Longrightarrow> buffer_of (xs @ replicate n NUL) = buffer_of xs"
  by (simp add: buffer_of_def flip: replicate_add)

lemma eols_nul: "list_all eol_char es \<Longrightarrow> map end_line es = replicate (length es) NUL"
  by (induction es) simp_all

lemma read_request_chunks:
  assumes "concat chunks = line @ e # es" and "no_eol line" and "list_all eol_char (e # es)"
    and "length pre + length (concat chunks) < MAX_BUF"
  shows "read_request (map ReadData chunks) (int (length pre)) False (buffer_of pre) = Some (True, buffer_of (pre @ line))"
  using assms
proof (induction chunks arbitrary: pre line)
  case (Cons b chunks)
  have l: "length pre + length b < MAX_BUF" using Cons.prems(4) by simp
  have "length (b @ concat chunks) = length (line @ e # es)" using Cons.prems(1) by (metis concat.simps(2))
  then have l': "length pre < MAX_BUF - 1" using Cons.prems(4) by simp
  from Cons.prems(1) consider (more) l2 where "line = b @ l2" "concat chunks = l2 @ e # es"
    | (last) e2 where "b = line @ e # e2" "es = e2 @ concat chunks"
    by (auto simp: append_eq_append_conv2 append_eq_Cons_conv)
  then show ?case
  proof cases
    case more
    then have "no_eol b" "no_eol l2" using Cons.prems(2) by simp_all
    with read_request_data [OF l l'] Cons.IH [OF more(2) _ Cons.prems(3), of "pre @ b"] Cons.prems(4) more(1)
    show ?thesis by (simp add: map_end_line)
  next
    case last
    then have e: "list_all eol_char (e # e2)" using Cons.prems(3) by simp
    then have f: "\<not> no_eol b" using last(1) by simp
    have "map end_line b = line @ replicate (Suc (length e2)) NUL"
      using eols_nul [OF e] by (simp add: last(1) map_end_line [OF Cons.prems(2)])
    then have "buffer_of (pre @ map end_line b) = buffer_of (pre @ line)"
      using l buffer_of_nuls [of "pre @ line" "Suc (length e2)"] by (simp only: last(1)) simp
    then show ?thesis using read_request_data [OF l l'] f by (simp add: read_request_finished)
  qed
qed simp

lemma cstr_buffer_drop: "NUL \<notin> set line \<Longrightarrow> cstr (drop k (buffer_of line)) = drop k line"
proof -
  assume "NUL \<notin> set line"
  then have n: "x \<noteq> NUL" if "x \<in> set (drop k line)" for x using that by (auto dest: in_set_dropD)
  have "takeWhile (\<lambda>c. c \<noteq> NUL) (drop k line @ replicate m NUL) = drop k line" for m
    by (subst takeWhile_append2) (auto dest: n)
  then show ?thesis by (simp add: cstr_def buffer_of_def)
qed

section \<open>Properties of the connection\<close>

text \<open>
  C40. A connection that is closed before the end of the line blocks the control thread for ever: at the
  end of the stream \<open>read\<close> returns 0, the position does not move, and the loop never ends. (This is about the handler,
  once it was called with a line of fewer than 4095 characters and no end of line; \<open>thread_ndsctl\<close> closes a connection
  that reports EPOLLHUP before it calls the handler.)
\<close>

theorem handler_eof_spins:
  assumes "no_eol line" and "length line < MAX_BUF - 1"
  shows "ndsctl_handler env ft (ReadData line # replicate n (ReadData [])) s = None"
proof -
  have "read_request (replicate n (ReadData [])) (int (length line)) False (buffer_of line) = None"
  proof (induction n)
    case 0
    show ?case using assms(2) by (subst read_request.simps) simp
  next
    case (Suc n)
    then show ?case using read_request_data [of line "[]" "replicate n (ReadData [])"] assms(2)
      by (simp add: no_eol_def)
  qed
  with read_request_data [of "[]" line "replicate n (ReadData [])"] assms
  show ?thesis by (simp add: ndsctl_handler_def buffer_of_nil map_end_line)
qed

text \<open>
  A read that fails between two pieces of a line, as it does on a non-blocking connection while no
  data is there, loses the last byte read before: the next piece overwrites it.
\<close>

theorem failed_read_loses_byte:
  assumes "no_eol (line @ [c])" and "\<not> no_eol bs" and "length line + length bs < MAX_BUF" and "length line + 2 < MAX_BUF"
  shows "\<exists>old. ndsctl_handler env ft (ReadData (line @ [c]) # ReadError # ReadData bs # reads) s
     = Some (run_request env ft (line @ map end_line bs @ old) s)"
proof -
  have l: "length (line @ [c]) < MAX_BUF" "length line < MAX_BUF - 1" using assms(4) by simp_all
  have f: "(CR \<in> set bs \<or> NL \<in> set bs) = True" using assms(2) by (simp add: no_eol_def)
  have t: "take (MAX_BUF - length line) bs = bs" "take (length line) (buffer_of (line @ [c])) = line"
    using assms(3) by (simp_all add: buffer_of_def)
  have "read_request (ReadData (line @ [c]) # ReadError # ReadData bs # reads) 0 False (buffer_of [])
      = read_request (ReadError # ReadData bs # reads) (int (length line) + 1) False (buffer_of (line @ [c]))"
    using read_request_data [of "[]" "line @ [c]" "ReadError # ReadData bs # reads"] l map_end_line [OF assms(1)] assms(1)
    by (simp add: add.commute)
  also have "\<dots> = read_request (ReadData bs # reads) (int (length line)) False (buffer_of (line @ [c]))"
    using assms(4) by (subst read_request.simps) simp
  also have "\<dots> = Some (True, line @ map end_line bs @ drop (length line + length bs) (buffer_of (line @ [c])))"
    using l assms(3) by (subst read_request.simps) (simp add: t f Let_def read_request_finished)
  finally show ?thesis by (auto simp: ndsctl_handler_def buffer_of_nil)
qed

theorem handler_eof_spins_witness:
  "ndsctl_handler sample_env (\<lambda>t. []) (ReadData ''status'' # replicate 1000 (ReadData [])) sample_marks = None"
proof -
  have "no_eol ''status''" by code_simp
  from handler_eof_spins [OF this] show ?thesis by simp
qed

theorem failed_read_loses_byte_witness:
  "\<exists>old. ndsctl_handler sample_env (\<lambda>t. []) [ReadData ''deauth'', ReadError, ReadData ('' x'' @ [NL])] sample_marks
     = Some (run_request sample_env (\<lambda>t. []) (''deaut x'' @ NUL # old) sample_marks)"
proof -
  have "no_eol (''deaut'' @ [CHR ''h''])" "\<not> no_eol ('' x'' @ [NL])" "map end_line ('' x'' @ [NL]) = '' x'' @ [NUL]" by code_simp+
  from failed_read_loses_byte [OF this(1,2), of sample_env "\<lambda>t. []" "[]" sample_marks] this(3) show ?thesis by simp
qed

section \<open>What a command changes\<close>

lemma debuglevel_gateway_inv:
  assumes "gateway_inv s"
  shows "gateway_inv (snd (ndsctl_debuglevel arg s))"
proof -
  obtain rc cfg where d: "set_debuglevel (Some arg) (config s) = (rc, cfg)"
    by (cases "set_debuglevel (Some arg) (config s)")
  obtain l where c: "cfg = config s\<lparr>debuglevel := l\<rparr>"
  proof
    show "cfg = config s\<lparr>debuglevel := debuglevel cfg\<rparr>"
      using d by (auto simp: set_debuglevel_def Let_def split: if_split_asm prod.split_asm)
  qed
  let ?s = "s\<lparr>config := config s\<lparr>debuglevel := l\<rparr>\<rparr>"
  have r: "rule_cmd op r ?s = rule_cmd op r s" "client_specs k ?s = client_specs k s" for op r k
    by (simp_all add: rule_cmd_def iptables_cmdline_def client_specs_def)
  have "weight ?s x = weight s x" for x by (rule ext) (simp add: weight_def r)
  then have "fits ?s k = fits s k" "rule_net ?s x = rule_net s x" "auth_count ?s x = auth_count s x" for k x
    by (simp_all add: fits_def rule_net_def log_net_def auth_count_def r)
  then have "gateway_inv ?s"
    using assms by (simp add: gateway_inv_def cl_inv_def marks_distinct_def binauth_ok_def all_fit_def fw_inv_def
        addrs_def keys_def)
  then show ?thesis by (simp add: ndsctl_debuglevel_def d c)
qed

lemma mac_command_gateway_inv:
  assumes "gateway_inv s"
  shows "gateway_inv (snd (ndsctl_block env arg s))" "gateway_inv (snd (ndsctl_unblock env arg s))"
    "gateway_inv (snd (ndsctl_allow env arg s))" "gateway_inv (snd (ndsctl_unallow env arg s))"
    "gateway_inv (snd (ndsctl_trust env arg s))" "gateway_inv (snd (ndsctl_untrust env arg s))"
  using same_but_lists_gateway_inv [OF assms] auth_mac_ops_same auth_mac_ops_same_rules
  by (simp_all add: ndsctl_block_def ndsctl_unblock_def ndsctl_allow_def ndsctl_unallow_def ndsctl_trust_def
      ndsctl_untrust_def case_prod_beta)

lemma auth_command_gateway_inv:
  assumes "shell_ok env" and "gateway_inv s"
  shows "gateway_inv (snd (ndsctl_auth env arg s))" "gateway_inv (snd (ndsctl_deauth env arg s))"
  using auth_client_ops_gateway_inv [OF assms] assms(2)
  by (simp_all add: ndsctl_auth_def ndsctl_deauth_def Let_def case_prod_beta auth_client_auth_def)

lemma run_request_gateway_inv:
  assumes "shell_ok env" and "gateway_inv s"
  shows "gateway_inv (snd (run_request env ft request s))"
proof -
  note report = report_gateway_inv [OF assms(2) disjI1 [OF refl]] report_gateway_inv [OF assms(2) disjI2 [OF disjI1 [OF refl]]]
    report_gateway_inv [OF assms(2) disjI2 [OF disjI2 [OF refl]]]
  show ?thesis
    by (simp add: run_request_def Let_def case_prod_beta report mac_command_gateway_inv [OF assms(2)]
        auth_command_gateway_inv [OF assms] debuglevel_gateway_inv [OF assms(2)] assms(2))
qed

lemma find_id_client:
  assumes "cl_inv s" and "ids_inv s" and "client_list_find_by_any arg arg arg s = Some a" and "client_at s a = Some c"
  shows "find_id arg s = cl_id c" "cl_id c \<noteq> 0" "client_list_find_by_id (cl_id c) s = Some a"
proof -
  show "find_id arg s = cl_id c" using assms(3,4) by (simp add: find_id_def client_of_at)
  have "cl_id c \<in> set (ids s)" using client_at_Some [OF assms(4)] by (force simp: ids_def)
  then have "0 < uint (cl_id c)" using assms(2) by (auto simp: ids_inv_def list_all_iff)
  then show "cl_id c \<noteq> 0" by auto
  show "client_list_find_by_id (cl_id c) s = Some a"
    using find_by_own_id [OF _ _ assms(4)] assms(1,2) by (simp add: cl_inv_def ids_inv_def)
qed

text \<open>
  C28. When no two clients have the same id, the list is well formed and the marks are distinct, \<open>ndsctl auth\<close> for a
  preauthenticated client, found by token, IP address or MAC, answers Yes and puts this client, and no other, in state
  Authenticated; its session end stays as it is, so a client authenticated this way has no session timeout. The ids
  are distinct as long as no client came from a state file; with a duplicate id another client can be
  authenticated (\<open>ndsctl_auth_duplicate_id\<close>).
\<close>

theorem ndsctl_auth_exact:
  assumes "cl_inv s" and "ids_inv s" and "marks_distinct s"
    and "client_list_find_by_any arg arg arg s = Some a" and "client_at s a = Some c"
    and "fw_connection_state c = FW_MARK_PREAUTHENTICATED s"
  shows "fst (ndsctl_auth env arg s) = ''Yes''
    \<and> client_at (snd (ndsctl_auth env arg s)) = (client_at s)(a \<mapsto> c\<lparr>fw_connection_state := FW_MARK_AUTHENTICATED s\<rparr>)"
proof -
  let ?r = "auth_change_state env a (FW_MARK_AUTHENTICATED s) (Some ''ndsctl_auth'') s"
  have r: "?r = (0, update_client a (\<lambda>c. c\<lparr>fw_connection_state := FW_MARK_AUTHENTICATED s\<rparr>) (auth_cmds env c (Some ''ndsctl_auth'') s))"
    using assms(3,5,6) by (simp add: auth_change_state_def marks_distinct_def auth_cmds_def Let_def)
  have at: "client_at (s'\<lparr>authenticated_since_start := n\<rparr>) = client_at s'" for s' n
    by (rule clients_client_at) simp
  show ?thesis
    using find_id_client [OF assms(1,2,4,5)] assms(5)
    by (auto simp: ndsctl_auth_def Let_def yes_no_def auth_client_auth_nolock_def r at client_at_update fun_eq_iff
        same_but_log_client_at [OF auth_cmds_same(1)])
qed

theorem ndsctl_auth_exact_witness:
  "fst (ndsctl_auth sample_env ''abc'' http_state) = ''Yes''
   \<and> map_option fw_connection_state (client_at (snd (ndsctl_auth sample_env ''abc'' http_state)) 1) = Some 0x30000"
proof -
  have i: "cl_inv http_state" "ids_inv http_state" "marks_distinct http_state" by code_simp+
  have f: "client_list_find_by_any ''abc'' ''abc'' ''abc'' http_state = Some 1" by code_simp
  have "map_option fw_connection_state (client_at http_state 1) = Some 0" by code_simp
  then obtain c where c: "client_at http_state 1 = Some c" "fw_connection_state c = 0" by auto
  have k: "FW_MARK_PREAUTHENTICATED http_state = 0" "FW_MARK_AUTHENTICATED http_state = 0x30000" by code_simp+
  from ndsctl_auth_exact [OF i f c(1), of sample_env] c(2) k show ?thesis by simp
qed

text \<open>The client is searched by the argument and authenticated by its id: the first client with this id is authenticated.\<close>

theorem ndsctl_auth_duplicate_id:
  "cl_inv (same_id 0) \<and> marks_distinct (same_id 0)
   \<and> (case ndsctl_auth sample_env ''10.0.0.3'' (same_id 0) of (out, s') \<Rightarrow>
        (out, map (\<lambda>(a, c). (cl_ip c, fw_connection_state c)) (clients s')))
     = (''Yes'', [(''10.0.0.2'', 0x30000), (''10.0.0.3'', 0)])"
  by code_simp

text \<open>
  \<open>ndsctl auth\<close> and \<open>ndsctl deauth\<close> with an argument that is no client's token, IP address or MAC answer
  No and change nothing.
\<close>

theorem ndsctl_unknown_client:
  assumes "\<forall>(a, c) \<in> set (clients s). arg \<noteq> cl_token c \<and> arg \<noteq> cl_ip c \<and> arg \<noteq> cl_mac c"
  shows "ndsctl_auth env arg s = (''No'', s) \<and> ndsctl_deauth env arg s = (''No'', s)"
proof -
  have "client_list_find_by_token arg s = None" using by_token.finder_in [of arg s] assms by (cases "client_list_find_by_token arg s") auto
  moreover have "client_list_find_by_ip arg s = None" using by_ip.finder_in [of arg s] assms by (cases "client_list_find_by_ip arg s") auto
  moreover have "client_list_find_by_mac arg s = None" using by_mac.finder_in [of arg s] assms by (cases "client_list_find_by_mac arg s") auto
  ultimately have "find_id arg s = 0" by (simp add: find_id_def client_list_find_by_any_def)
  then show ?thesis by (simp add: ndsctl_auth_def ndsctl_deauth_def yes_no_def)
qed

theorem ndsctl_unknown_client_witness:
  "ndsctl_auth sample_env ''xyz'' http_state = (''No'', http_state)"
proof -
  have "\<forall>(a, c) \<in> set (clients http_state). ''xyz'' \<noteq> cl_token c \<and> ''xyz'' \<noteq> cl_ip c \<and> ''xyz'' \<noteq> cl_mac c" by code_simp
  from ndsctl_unknown_client [OF this, of sample_env] show ?thesis by simp
qed

end
