(* ===== verification/Ndsctl.thy ===== *)
theory Ndsctl
  imports Ndsctl_Thread
begin

text \<open>
  \<open>src/ndsctl.c\<close>: the command-line program that talks to the control thread. The operating system is a
  parameter as before: whether the connection succeeds, and what the successive \<open>write\<close> and \<open>read\<close> calls
  return. Messages on the error stream are left out. The last part connects the program with the
  thread of theory \<open>Ndsctl_Thread\<close>.
\<close>

section \<open>Commands\<close>

record argument =
  arg_cmd :: string
  ifyes :: "string option"
  ifno :: "string option"

definition arguments :: "argument list" where
  "arguments =
     (let answered = (\<lambda>cmd yes no. \<lparr>arg_cmd = cmd, ifyes = Some (yes @ [NL]), ifno = Some (no @ [NL])\<rparr>);
          report = (\<lambda>cmd. \<lparr>arg_cmd = cmd, ifyes = None, ifno = None\<rparr>)
      in [report ''clients'', report ''json'', report ''status'', report ''stop'',
          answered ''debuglevel'' ''Debug level set to %s.'' ''Failed to set debug level to %s.'',
          answered ''deauth'' ''Client %s deauthenticated.'' ''Client %s not found.'',
          answered ''auth'' ''Client %s authenticated.'' ''Failed to authenticate client %s.'',
          answered ''block'' ''MAC %s blocked.'' ''Failed to block MAC %s.'',
          answered ''unblock'' ''MAC %s unblocked.'' ''Failed to unblock MAC %s.'',
          answered ''allow'' ''MAC %s allowed.'' ''Failed to allow MAC %s.'',
          answered ''unallow'' ''MAC %s unallowed.'' ''Failed to unallow MAC %s.'',
          answered ''trust'' ''MAC %s trusted.'' ''Failed to trust MAC %s.'',
          answered ''untrust'' ''MAC %s untrusted.'' ''Failed to untrust MAC %s.''])"

definition find_argument :: "string \<Rightarrow> argument option" where
  "find_argument cmd = find (\<lambda>a. arg_cmd a = cmd) arguments"

text \<open>\<open>printf(format, param)\<close> for the formats above.\<close>

fun printf_param :: "string \<Rightarrow> string option \<Rightarrow> string" where
  "printf_param [] param = []"
| "printf_param [c] param = [c]"
| "printf_param (c # d # cs) param =
     (if c = CHR ''%'' \<and> d = CHR ''s'' then show_str param @ printf_param cs param
      else c # printf_param (d # cs) param)"

section \<open>One request\<close>

text \<open>The request is cut to the 128 bytes of its buffer.\<close>

definition request_text :: "string \<Rightarrow> string option \<Rightarrow> string" where
  "request_text cmd param =
     take 127 ((case param of Some p \<Rightarrow> cmd @ '' '' @ p | None \<Rightarrow> cmd) @ [CR, NL, CR, NL])"

text \<open>
  \<open>send_request\<close>: the results of \<open>write\<close> are numbers of bytes, \<^const>\<open>None\<close> for an error, with which the
  program exits. \<open>Inr\<close> is the number of bytes sent; \<^const>\<open>None\<close>: it still writes.
\<close>

fun send_request :: "nat option list \<Rightarrow> nat \<Rightarrow> string \<Rightarrow> (int + nat) option" where
  "send_request writes len request =
     (if len = length request then Some (Inr len)
      else case writes of
          [] \<Rightarrow> None
        | None # _ \<Rightarrow> Some (Inl 1)
        | Some written # writes' \<Rightarrow> send_request writes' (len + min written (length request - len)) request)"

declare send_request.simps [simp del]

text \<open>The loop that collects an answer: the bytes read, and whether the last read failed.\<close>

fun read_answer :: "read_result list \<Rightarrow> string \<Rightarrow> (string \<times> bool) option" where
  "read_answer reads answer =
     (if length answer \<ge> 4096 then Some (answer, False)
      else case reads of
          [] \<Rightarrow> None
        | ReadError # _ \<Rightarrow> Some (answer, True)
        | ReadData bytes # reads' \<Rightarrow>
            if bytes = [] then Some (answer, False)
            else read_answer reads' (answer @ take (4096 - length answer) bytes))"

declare read_answer.simps [simp del]

text \<open>The loop that prints a report: what it prints.\<close>

fun print_answer :: "read_result list \<Rightarrow> string option" where
  "print_answer [] = None"
| "print_answer (ReadError # _) = Some []"
| "print_answer (ReadData bytes # reads) =
     (if bytes = [] then Some [] else map_option ((@) (cstr (take 4095 bytes))) (print_answer reads))"

text \<open>\<open>connect\<close>: whether a server listens on the socket of this path, which is cut to the size of \<open>sun_path\<close>.\<close>

definition connect_to_server :: "(string \<Rightarrow> bool) \<Rightarrow> string \<Rightarrow> bool" where
  "connect_to_server connect sock_name = connect (take (SUN_PATH_SIZE - 1) sock_name)"

text \<open>The text on standard output and the exit status; \<^const>\<open>None\<close>: it still waits.\<close>

definition ndsctl_do ::
  "(string \<Rightarrow> bool) \<Rightarrow> nat option list \<Rightarrow> read_result list \<Rightarrow> string \<Rightarrow> argument \<Rightarrow> string option \<Rightarrow> (string \<times> int) option" where
  "ndsctl_do connect writes reads socket arg param =
     (if \<not> connect_to_server connect socket then Some ([], 3)
      else case send_request writes 0 (request_text (arg_cmd arg) param) of
          None \<Rightarrow> None
        | Some (Inl status) \<Rightarrow> Some ([], status)
        | Some (Inr _) \<Rightarrow>
            (case (ifyes arg, ifno arg) of
               (Some yes, Some no) \<Rightarrow>
                 (case read_answer reads [] of
                    None \<Rightarrow> None
                  | Some (answer, failed) \<Rightarrow>
                      if failed then Some ([], 3)
                      else if cstr answer = ''Yes'' then Some (printf_param yes param, 0)
                      else if cstr answer = ''No'' then Some (printf_param no param, 1)
                      else Some ([], 2))
             | _ \<Rightarrow> map_option (\<lambda>out. (out, 0)) (print_answer reads)))"

section \<open>The command line\<close>

text \<open>
  \<open>argv\<close> without its terminating NULL. \<open>Segfault\<close>: a NULL pointer is passed to \<open>strdup\<close> or \<open>strcmp\<close>, because
  the test \<open>argc >= 2\<close> of the source holds whenever it is reached.
\<close>

datatype main_result = Usage int | Unknown_command string | Segfault | Perform string argument "string option"

definition select_command :: "string list \<Rightarrow> nat \<Rightarrow> string \<Rightarrow> main_result" where
  "select_command argv i socket =
     (if length argv > i + 2 then Usage 1
      else if length argv \<le> i then Segfault
      else case find_argument (argv ! i) of
          None \<Rightarrow> Unknown_command (argv ! i)
        | Some arg \<Rightarrow> Perform socket arg (if i + 1 < length argv then Some (argv ! (i + 1)) else None))"

definition ndsctl_main :: "string list \<Rightarrow> main_result" where
  "ndsctl_main argv =
     (let socket = ''/tmp/ndsctl.sock'' in
      if length argv \<le> 1 then Usage 0
      else if argv ! 1 = ''-h'' then Usage 1
      else if argv ! 1 = ''-s'' then
        (if length argv \<ge> 2 then
           (if length argv \<le> 2 then Segfault else select_command argv 3 (argv ! 2))
         else Usage 1)
      else select_command argv 1 socket)"

section \<open>The protocol\<close>

text \<open>What the control thread does for each command of the table.\<close>

type_synonym operation = "env \<Rightarrow> (int \<Rightarrow> string) \<Rightarrow> string \<Rightarrow> nds \<Rightarrow> (string \<times> int) \<times> nds"

definition operations :: "(string \<times> operation) list" where
  "operations =
     (let reply = (\<lambda>(out, s). ((out, 0), s)) in
      [(''clients'', \<lambda>env ft p s. reply (ndsctl_clients env s)),
       (''json'', \<lambda>env ft p s. reply (ndsctl_json env p s)),
       (''status'', \<lambda>env ft p s. reply (ndsctl_status env ft s)),
       (''stop'', \<lambda>env ft p s. (([], 1), s)),
       (''debuglevel'', \<lambda>env ft p s. reply (ndsctl_debuglevel p s)),
       (''deauth'', \<lambda>env ft p s. reply (ndsctl_deauth env p s)),
       (''auth'', \<lambda>env ft p s. reply (ndsctl_auth env p s)),
       (''block'', \<lambda>env ft p s. reply (ndsctl_block env p s)),
       (''unblock'', \<lambda>env ft p s. reply (ndsctl_unblock env p s)),
       (''allow'', \<lambda>env ft p s. reply (ndsctl_allow env p s)),
       (''unallow'', \<lambda>env ft p s. reply (ndsctl_unallow env p s)),
       (''trust'', \<lambda>env ft p s. reply (ndsctl_trust env p s)),
       (''untrust'', \<lambda>env ft p s. reply (ndsctl_untrust env p s))])"

lemma operations_cmds: "map fst operations = map arg_cmd arguments"
  by (simp add: operations_def arguments_def Let_def)

definition line_of :: "string \<Rightarrow> string option \<Rightarrow> string" where
  "line_of cmd param = (case param of Some p \<Rightarrow> cmd @ '' '' @ p | None \<Rightarrow> cmd)"

lemma request_text_line: "request_text cmd param = take 127 (line_of cmd param @ [CR, NL, CR, NL])"
  by (simp add: request_text_def line_of_def split: option.split)

text \<open>The dispatch on a line, with the comparisons written out.\<close>

lemma run_request_line:
  assumes "NUL \<notin> set line"
  shows "run_request env ft (buffer_of line) s =
     (let is = (\<lambda>cmd. take (length cmd) line = cmd); reply = (\<lambda>(out, s'). ((out, 0), s'))
      in if is ''status'' then reply (ndsctl_status env ft s)
         else if is ''clients'' then reply (ndsctl_clients env s)
         else if is ''json'' then reply (ndsctl_json env (drop 5 line) s)
         else if is ''stop'' then (([], 1), s)
         else if is ''block'' then reply (ndsctl_block env (drop 6 line) s)
         else if is ''unblock'' then reply (ndsctl_unblock env (drop 8 line) s)
         else if is ''allow'' then reply (ndsctl_allow env (drop 6 line) s)
         else if is ''unallow'' then reply (ndsctl_unallow env (drop 8 line) s)
         else if is ''trust'' then reply (ndsctl_trust env (drop 6 line) s)
         else if is ''untrust'' then reply (ndsctl_untrust env (drop 8 line) s)
         else if is ''auth'' then reply (ndsctl_auth env (drop 5 line) s)
         else if is ''deauth'' then reply (ndsctl_deauth env (drop 7 line) s)
         else if is ''debuglevel'' then reply (ndsctl_debuglevel (drop 11 line) s)
         else (([], 0), s))"
proof -
  have c: "cstr (buffer_of line) = line" using cstr_buffer_drop [OF assms, of 0] by simp
  have t: "take (length cmd) cmd = cmd" for cmd :: string by simp
  show ?thesis unfolding run_request_def strncmp_eq_def c t cstr_buffer_drop [OF assms] Let_def by (rule refl)
qed

lemma run_request_operation:
  assumes "(cmd, op) \<in> set operations" and n: "NUL \<notin> set (line_of cmd param)"
  shows "run_request env ft (buffer_of (line_of cmd param)) s
    = op env ft (case param of Some p \<Rightarrow> p | None \<Rightarrow> []) s"
proof -
  note op = assms(1) [unfolded operations_def Let_def list.set insert_iff prod.inject empty_iff simp_thms]
  show ?thesis
    using op unfolding run_request_line [OF n]
    by (elim disjE conjE; cases param; hypsubst; simp add: line_of_def Let_def)
qed

text \<open>
  C14. Client and control thread agree on the protocol: for every command of the client's table and a
  parameter without line breaks and NUL, of at most 122 characters together with the command, the thread receives the
  request of the client, in whatever pieces the reads deliver it as long as no read fails, and performs the operation of
  this name on this parameter. (The socket is non-blocking: a read that finds no data fails and loses a
  byte, \<open>failed_read_loses_byte\<close> in theory \<open>Ndsctl_Thread\<close>.)
\<close>

theorem request_round_trip:
  assumes "(cmd, op) \<in> set operations" and "param = None \<or> param = Some p" and "no_eol p" and "NUL \<notin> set p"
    and "length cmd + length p \<le> 122" and "concat chunks = request_text cmd param"
  shows "cmd \<in> set (map arg_cmd arguments)
    \<and> ndsctl_handler env ft (map ReadData chunks) s = Some (op env ft (case param of Some p \<Rightarrow> p | None \<Rightarrow> []) s)"
proof
  have "cmd \<in> set (map fst operations)" using assms(1) by force
  then show "cmd \<in> set (map arg_cmd arguments)" by (simp only: operations_cmds)
  have "no_eol cmd \<and> NUL \<notin> set cmd" using assms(1) by (auto simp: operations_def Let_def no_eol_def)
  moreover have "length (line_of cmd param) \<le> 123" using assms(2,5) by (auto simp: line_of_def)
  ultimately have l: "no_eol (line_of cmd param)" "NUL \<notin> set (line_of cmd param)" "length (line_of cmd param) \<le> 123"
    using assms(2-4) by (auto simp: line_of_def no_eol_def)
  have c: "concat chunks = line_of cmd param @ CR # [NL, CR, NL]" using assms(6) l(3) by (simp add: request_text_line)
  have e: "list_all eol_char (CR # [NL, CR, NL])" by (simp add: eol_char_def)
  have m: "length [] + length (concat chunks) < MAX_BUF" using c l(3) by simp
  from read_request_chunks [OF c l(1) e m] run_request_operation [OF assms(1) l(2), of env ft s]
  show "ndsctl_handler env ft (map ReadData chunks) s = Some (op env ft (case param of Some p \<Rightarrow> p | None \<Rightarrow> []) s)"
    by (simp add: ndsctl_handler_def buffer_of_nil)
qed

text \<open>
  A request that does not fit the buffer of the client is cut and sent without an end of line. While
  no more data is there every read of the thread fails and moves its position back by one; after 128
  failures the thread carries out the cut request.
\<close>

lemma read_request_backwards:
  "k \<le> MAX_BUF - 1 \<Longrightarrow> read_request (replicate k ReadError) (int k - 1) False request = Some (False, request)"
proof (induction k)
  case 0
  show ?case by (subst read_request.simps) simp
next
  case (Suc k)
  then show ?case by (subst read_request.simps) simp
qed

theorem long_request_cut:
  assumes "length cmd + length p \<ge> 126" and "no_eol (cmd @ p)"
  shows "request_text cmd (Some p) = take 127 (cmd @ '' '' @ p)
    \<and> ndsctl_handler env ft (ReadData (request_text cmd (Some p)) # replicate 128 ReadError) s
      = Some (run_request env ft (buffer_of (take 127 (cmd @ '' '' @ p))) s)"
proof -
  let ?r = "take 127 (cmd @ '' '' @ p)"
  have "take 127 (xs @ ys) = take 127 xs" if "127 \<le> length xs" for xs ys :: string using that by simp
  from this [of "cmd @ '' '' @ p"] have r: "request_text cmd (Some p) = ?r"
    using assms(1) by (simp add: request_text_def del: take_append)
  have l: "length ?r = 127" using assms(1) by simp
  have "no_eol (cmd @ '' '' @ p)" using assms(2) by (simp add: no_eol_def)
  then have n: "no_eol ?r" by (meson in_set_takeD no_eol_def)
  have "read_request (ReadData ?r # replicate 128 ReadError) 0 False (buffer_of [])
      = read_request (replicate 128 ReadError) (int 128 - 1) False (buffer_of ?r)"
    using read_request_data [of "[]" ?r "replicate 128 ReadError"] n map_end_line [OF n] l by (simp del: take_append)
  also have "\<dots> = Some (False, buffer_of ?r)" by (rule read_request_backwards) simp
  finally show ?thesis by (simp add: ndsctl_handler_def buffer_of_nil r del: take_append)
qed

theorem request_round_trip_witness:
  "ndsctl_handler sample_env (\<lambda>t. []) [ReadData ''deb'', ReadData (''uglevel 2'' @ [CR, NL, CR, NL])] http_state
   = Some ((fst (ndsctl_debuglevel ''2'' http_state), 0), snd (ndsctl_debuglevel ''2'' http_state))"
proof -
  let ?op = "\<lambda>env ft p s. case ndsctl_debuglevel p s of (out, s') \<Rightarrow> ((out, 0), s')"
  have "(''debuglevel'', ?op) \<in> set operations" by (simp add: operations_def Let_def case_prod_beta)
  moreover have "no_eol ''2''" by code_simp
  moreover have "concat [''deb'', ''uglevel 2'' @ [CR, NL, CR, NL]] = request_text ''debuglevel'' (Some ''2'')" by code_simp
  ultimately have "ndsctl_handler sample_env (\<lambda>t. []) (map ReadData [''deb'', ''uglevel 2'' @ [CR, NL, CR, NL]]) http_state
      = Some (?op sample_env (\<lambda>t. []) (case Some ''2'' of Some p \<Rightarrow> p | None \<Rightarrow> []) http_state)"
    by (intro conjunct2 [OF request_round_trip [of "''debuglevel''" ?op "Some ''2''" "''2''"]]) simp_all
  then show ?thesis by (simp only: list.map option.case case_prod_beta)
qed

theorem long_request_cut_witness:
  "ndsctl_handler sample_env (\<lambda>t. []) (ReadData (request_text ''auth'' (Some (replicate 200 (CHR ''a'')))) # replicate 128 ReadError) http_state
   = Some (run_request sample_env (\<lambda>t. []) (buffer_of (take 127 (''auth'' @ '' '' @ replicate 200 (CHR ''a'')))) http_state)"
proof -
  have "no_eol (''auth'' @ replicate 200 (CHR ''a''))" by (auto simp: no_eol_def)
  from conjunct2 [OF long_request_cut [OF _ this, of sample_env "\<lambda>t. []" http_state]] show ?thesis by (simp only: length_replicate)
qed

text \<open>
  The option \<open>-s\<close> without a command dereferences a NULL pointer: the test \<open>argc >= 2\<close>, meant to
  ensure that the path is there, always holds.
\<close>

theorem socket_option_segfault:
  "ndsctl_main [prog, ''-s''] = Segfault \<and> ndsctl_main [prog, ''-s'', path] = Segfault"
  by (simp add: ndsctl_main_def select_command_def)

lemma send_request_from:
  "list_all (\<lambda>w. \<exists>n > 0. w = Some n) writes \<Longrightarrow> len \<le> length request \<Longrightarrow> length request - len \<le> length writes \<Longrightarrow>
   send_request writes len request = Some (Inr (length request))"
proof (induction writes arbitrary: len)
  case Nil
  then show ?case by (subst send_request.simps) simp
next
  case (Cons w writes)
  then obtain n where w: "w = Some n" "n > 0" by auto
  show ?case
  proof (cases "len = length request")
    case False
    let ?len = "len + min n (length request - len)"
    have "?len \<le> length request" "length request - ?len \<le> length writes" using Cons.prems w False by auto
    with Cons.IH [of ?len] Cons.prems(1) have "send_request writes ?len request = Some (Inr (length request))" by simp
    with False w show ?thesis by (subst send_request.simps) simp
  qed (subst send_request.simps, simp)
qed

text \<open>
  The client ends and its exit status tells the answer: with a connection on which every write makes
  progress, an answer of at most 4095 bytes gives status 0 for \<open>Yes\<close>, 1 for \<open>No\<close>, and 2 for anything else.
\<close>

theorem ndsctl_do_status:
  assumes "connect (take 107 socket)" and "ifyes arg = Some yes" and "ifno arg = Some no"
    and "list_all (\<lambda>w. \<exists>n > 0. w = Some n) writes" and "127 \<le> length writes"
    and "length answer < 4096" and "NUL \<notin> set answer"
  shows "map_option snd (ndsctl_do connect writes [ReadData answer, ReadData []] socket arg param)
    = Some (if answer = ''Yes'' then 0 else if answer = ''No'' then 1 else 2)"
proof -
  let ?r = "request_text (arg_cmd arg) param"
  have "send_request writes 0 ?r = Some (Inr (length ?r))"
    using assms(4,5) by (intro send_request_from) (auto simp: request_text_def)
  moreover have "read_answer [ReadData answer, ReadData []] [] = Some (answer, False)"
    using assms(6) by (simp add: read_answer.simps)
  moreover have "cstr answer = answer" using assms(7) by (auto simp: cstr_def takeWhile_eq_all_conv)
  ultimately show ?thesis using assms(1-3) by (simp add: ndsctl_do_def connect_to_server_def)
qed

theorem ndsctl_do_status_witness:
  "map_option snd (ndsctl_do (\<lambda>p. True) (replicate 127 (Some 1)) [ReadData ''No'', ReadData []] ''/tmp/ndsctl.sock''
      \<lparr>arg_cmd = ''auth'', ifyes = Some ''y'', ifno = Some ''n''\<rparr> (Some ''x'')) = Some 1"
  using ndsctl_do_status [of "\<lambda>p. True" "''/tmp/ndsctl.sock''" "\<lparr>arg_cmd = ''auth'', ifyes = Some ''y'', ifno = Some ''n''\<rparr>"
      "''y''" "''n''" "replicate 127 (Some 1)" "''No''" "Some ''x''"]
  by (simp add: list_all_iff)

end
