(* ===== verification/State_File.thy ===== *)
theory State_File
  imports Auth_Sessions
begin

text \<open>
  \<open>src/state_file.c\<close>: the client list is written to a JSON file on shutdown and read back at the next
  start. The JSON library is a parameter, the record \<open>json_c\<close> of the functions that the source calls on
  values of an arbitrary type; what they are relied on for is the predicate \<open>json_laws\<close>. The theorems show
  what the import does with every document, and that it restores an exported client list.
\<close>

section \<open>The JSON library\<close>

datatype json_type =
  json_type_null | json_type_boolean | json_type_double | json_type_int | json_type_object | json_type_array | json_type_string

text \<open>
  \<open>None\<close> of \<open>jc_new_object\<close> and \<open>jc_new_array\<close>: the allocation fails; of \<open>jc_object_add\<close>: it returns an error; of
  \<open>jc_object_get\<close>: there is no such member, or it is null.
\<close>

record 'j json_c =
  jc_new_object :: "'j option"
  jc_new_array :: "'j option"
  jc_new_string :: "string \<Rightarrow> 'j"
  jc_new_int64 :: "int \<Rightarrow> 'j"
  jc_new_uint64 :: "64 word \<Rightarrow> 'j"
  jc_object_add :: "'j \<Rightarrow> string \<Rightarrow> 'j \<Rightarrow> 'j option"
  jc_array_add :: "'j \<Rightarrow> 'j \<Rightarrow> 'j"
  jc_object_get :: "'j \<Rightarrow> string \<Rightarrow> 'j option"
  jc_get_type :: "'j \<Rightarrow> json_type"
  jc_get_string :: "'j \<Rightarrow> string"
  jc_get_int :: "'j \<Rightarrow> int"
  jc_get_int64 :: "'j \<Rightarrow> int"
  jc_get_uint64 :: "'j \<Rightarrow> 64 word"
  jc_array_elements :: "'j \<Rightarrow> 'j list"

section \<open>Export\<close>

text \<open>\<open>GOTO_ERR(err, json_object_object_add(..))\<close> for each member in turn.\<close>

fun add_fields :: "'j json_c \<Rightarrow> 'j \<Rightarrow> (string \<times> 'j) list \<Rightarrow> 'j option" where
  "add_fields jc obj [] = Some obj"
| "add_fields jc obj ((name, v) # fs) =
     (case jc_object_add jc obj name v of None \<Rightarrow> None | Some obj' \<Rightarrow> add_fields jc obj' fs)"

definition counter_fields :: "'j json_c \<Rightarrow> t_counters \<Rightarrow> (string \<times> 'j) list" where
  "counter_fields jc k =
     [(''incoming'', jc_new_uint64 jc (incoming k)),
      (''outgoing'', jc_new_uint64 jc (outgoing k)),
      (''last_updated'', jc_new_uint64 jc (of_int (last_updated k)))]"

definition client_fields :: "'j json_c \<Rightarrow> t_client \<Rightarrow> (string \<times> 'j) list" where
  "client_fields jc c =
     [(''ip'', jc_new_string jc (cl_ip c)),
      (''mac'', jc_new_string jc (cl_mac c)),
      (''token'', jc_new_string jc (cl_token c)),
      (''fw_connection_state'', jc_new_int64 jc (uint (fw_connection_state c))),
      (''session_start'', jc_new_uint64 jc (of_int (session_start c))),
      (''session_end'', jc_new_uint64 jc (of_int (session_end c))),
      (''download_limit'', jc_new_int64 jc (cl_download_limit c)),
      (''upload_limit'', jc_new_int64 jc (cl_upload_limit c)),
      (''id'', jc_new_uint64 jc (ucast (cl_id c)))]"

definition state_file_export_client :: "'j json_c \<Rightarrow> t_client \<Rightarrow> 'j option" where
  "state_file_export_client jc c =
     do { cli \<leftarrow> jc_new_object jc;
          cli \<leftarrow> add_fields jc cli (client_fields jc c);
          cnt \<leftarrow> jc_new_object jc;
          cnt \<leftarrow> add_fields jc cnt (counter_fields jc (counters c));
          jc_object_add jc cli ''counters'' cnt }"

fun export_clients :: "'j json_c \<Rightarrow> 'j \<Rightarrow> (addr \<times> t_client) list \<Rightarrow> 'j option" where
  "export_clients jc clist [] = Some clist"
| "export_clients jc clist ((a, c) # cs) =
     (case state_file_export_client jc c of
        None \<Rightarrow> None
      | Some j \<Rightarrow> export_clients jc (jc_array_add jc clist j) cs)"

abbreviation (input) ENOMEM :: int where "ENOMEM \<equiv> 12"
abbreviation (input) EINVAL :: int where "EINVAL \<equiv> 22"
abbreviation (input) NDS_JSON_EXPORT_VERSION :: int where "NDS_JSON_EXPORT_VERSION \<equiv> 1"

definition export_document :: "'j json_c \<Rightarrow> 'j \<Rightarrow> nds \<Rightarrow> 'j option" where
  "export_document jc root s =
     do { root \<leftarrow> add_fields jc root [(''version'', jc_new_int64 jc NDS_JSON_EXPORT_VERSION),
                                    (''name'', jc_new_string jc ''nodogsplash'')];
          clist \<leftarrow> jc_new_array jc;
          clist \<leftarrow> export_clients jc clist (clients s);
          jc_object_add jc root ''clients'' clist }"

text \<open>\<open>to_file\<close> is the result of \<open>json_object_to_file\<close>; the second component is the document written.\<close>

definition state_file_export :: "'j json_c \<Rightarrow> ('j \<Rightarrow> int) \<Rightarrow> nds \<Rightarrow> int \<times> 'j option" where
  "state_file_export jc to_file s =
     (case jc_new_object jc of
        None \<Rightarrow> (- ENOMEM, None)
      | Some root \<Rightarrow>
          (case export_document jc root s of
             None \<Rightarrow> (- EINVAL, None)
           | Some doc \<Rightarrow> if to_file doc \<noteq> 0 then (- EINVAL, None) else (0, Some doc)))"

section \<open>Import\<close>

text \<open>\<open>JSON_GET_FIELD\<close> and \<open>JSON_GET_FIELD_OBJECT\<close>; \<^const>\<open>None\<close> is the jump to \<open>err\<close>.\<close>

definition json_get_field :: "'j json_c \<Rightarrow> 'j \<Rightarrow> string \<Rightarrow> json_type \<Rightarrow> ('j \<Rightarrow> 'a) \<Rightarrow> 'a option" where
  "json_get_field jc obj name ty f =
     (case jc_object_get jc obj name of
        None \<Rightarrow> None
      | Some v \<Rightarrow> if jc_get_type jc v = ty then Some (f v) else None)"

text \<open>Assignments to the fields of the client, one after the other, up to the first missing member.\<close>

fun assign_fields :: "(t_client \<Rightarrow> t_client) option list \<Rightarrow> addr \<Rightarrow> nds \<Rightarrow> bool \<times> nds" where
  "assign_fields [] a s = (True, s)"
| "assign_fields (None # fs) a s = (False, s)"
| "assign_fields (Some f # fs) a s = assign_fields fs a (update_client a f s)"

definition json_time :: "'j json_c \<Rightarrow> 'j \<Rightarrow> int" where
  "json_time jc j = sint (jc_get_uint64 jc j)"

definition counter_setters :: "'j json_c \<Rightarrow> 'j \<Rightarrow> (t_client \<Rightarrow> t_client) option list" where
  "counter_setters jc cnt =
     [map_option (\<lambda>w c. c\<lparr>counters := (counters c)\<lparr>incoming := w\<rparr>\<rparr>)
        (json_get_field jc cnt ''incoming'' json_type_int (jc_get_uint64 jc)),
      map_option (\<lambda>w c. c\<lparr>counters := (counters c)\<lparr>outgoing := w\<rparr>\<rparr>)
        (json_get_field jc cnt ''outgoing'' json_type_int (jc_get_uint64 jc)),
      map_option (\<lambda>t c. c\<lparr>counters := (counters c)\<lparr>last_updated := t\<rparr>\<rparr>)
        (json_get_field jc cnt ''last_updated'' json_type_int (json_time jc))]"

definition client_setters :: "'j json_c \<Rightarrow> 'j \<Rightarrow> (t_client \<Rightarrow> t_client) option list" where
  "client_setters jc j =
     [map_option (\<lambda>t c. c\<lparr>session_start := t\<rparr>) (json_get_field jc j ''session_start'' json_type_int (json_time jc)),
      map_option (\<lambda>t c. c\<lparr>session_end := t\<rparr>) (json_get_field jc j ''session_end'' json_type_int (json_time jc)),
      map_option (\<lambda>n c. c\<lparr>cl_download_limit := n\<rparr>) (json_get_field jc j ''download_limit'' json_type_int (jc_get_int jc)),
      map_option (\<lambda>n c. c\<lparr>cl_upload_limit := n\<rparr>) (json_get_field jc j ''upload_limit'' json_type_int (jc_get_int jc))]
     @ (case json_get_field jc j ''counters'' json_type_object (\<lambda>cnt. cnt) of
          None \<Rightarrow> [None]
        | Some cnt \<Rightarrow> counter_setters jc cnt)"

definition state_file_import_client :: "'j json_c \<Rightarrow> env \<Rightarrow> 'j \<Rightarrow> nds \<Rightarrow> int \<times> nds" where
  "state_file_import_client jc env j s =
     (case (json_get_field jc j ''mac'' json_type_string (jc_get_string jc),
            json_get_field jc j ''ip'' json_type_string (jc_get_string jc),
            json_get_field jc j ''id'' json_type_int (\<lambda>v. ucast (jc_get_uint64 jc v))) of
        (Some mac, Some ip, Some i) \<Rightarrow>
          if client_list_find mac ip s \<noteq> None then (-1, s)
          else if client_list_find_by_id i s \<noteq> None then (-1, s)
          else
            (case client_list_add_client env mac ip s of
               (None, s) \<Rightarrow> (-1, s)
             | (Some a, s) \<Rightarrow>
                 (case json_get_field jc j ''token'' json_type_string (jc_get_string jc) of
                    None \<Rightarrow> (-1, s)
                  | Some token \<Rightarrow>
                      (case assign_fields (client_setters jc j) a
                              (update_client a (\<lambda>c. c\<lparr>cl_token := token, cl_id := i\<rparr>) s) of
                         (ok, s) \<Rightarrow>
                           if \<not> ok then (-1, s)
                           else (case json_get_field jc j ''fw_connection_state'' json_type_int
                                        (\<lambda>v. of_int (jc_get_int64 jc v)) of
                                   None \<Rightarrow> (-1, s)
                                 | Some st \<Rightarrow>
                                     (0, snd (auth_change_state env a st (Some ''import_state_file'') s))))))
      | _ \<Rightarrow> (-1, s))"

text \<open>The loop over the array; \<open>rc\<close> keeps its value when an entry is not an object.\<close>

fun import_loop :: "'j json_c \<Rightarrow> env \<Rightarrow> 'j list \<Rightarrow> int \<Rightarrow> nds \<Rightarrow> int \<times> nds" where
  "import_loop jc env [] rc s = (0, s)"
| "import_loop jc env (j # js) rc s =
     (if jc_get_type jc j \<noteq> json_type_object then (rc, s)
      else case state_file_import_client jc env j s of (rc', s') \<Rightarrow>
        if rc' \<noteq> 0 then (-3, s') else import_loop jc env js rc' s')"

datatype stat_result = Exists | Missing | Inaccessible

text \<open>\<open>doc\<close>: the document that \<open>json_object_from_file\<close> returns, \<^const>\<open>None\<close> when it cannot be parsed.\<close>

definition state_file_import :: "'j json_c \<Rightarrow> env \<Rightarrow> stat_result \<Rightarrow> 'j option \<Rightarrow> nds \<Rightarrow> int \<times> nds" where
  "state_file_import jc env st doc s =
     (case st of
        Missing \<Rightarrow> (1, s)
      | Inaccessible \<Rightarrow> (2, s)
      | Exists \<Rightarrow>
          (case doc of
             None \<Rightarrow> (-1, s)
           | Some root \<Rightarrow>
               if json_get_field jc root ''version'' json_type_int (jc_get_int64 jc) \<noteq> Some NDS_JSON_EXPORT_VERSION then (- EINVAL, s)
               else if json_get_field jc root ''name'' json_type_string (jc_get_string jc) \<noteq> Some ''nodogsplash'' then (- EINVAL, s)
               else (case json_get_field jc root ''clients'' json_type_array (\<lambda>j. j) of
                       None \<Rightarrow> (- EINVAL, s)
                     | Some arr \<Rightarrow> import_loop jc env (jc_array_elements jc arr) (- EINVAL) s)))"

section \<open>What the library is relied on for\<close>

text \<open>
  Objects and arrays can be created and extended, a member that was added is found, and the accessors
  return the value a member was created with if it is in the range of their result.
\<close>

definition json_laws :: "'j json_c \<Rightarrow> bool" where
  "json_laws jc \<longleftrightarrow>
     (\<exists>obj. jc_new_object jc = Some obj \<and> jc_get_type jc obj = json_type_object \<and> (\<forall>k. jc_object_get jc obj k = None))
     \<and> (\<exists>arr. jc_new_array jc = Some arr \<and> jc_get_type jc arr = json_type_array \<and> jc_array_elements jc arr = [])
     \<and> (\<forall>x. jc_get_type jc (jc_new_string jc x) = json_type_string \<and> jc_get_string jc (jc_new_string jc x) = x)
     \<and> (\<forall>w. jc_get_type jc (jc_new_uint64 jc w) = json_type_int \<and> jc_get_uint64 jc (jc_new_uint64 jc w) = w)
     \<and> (\<forall>n. jc_get_type jc (jc_new_int64 jc n) = json_type_int
          \<and> (- (2 ^ 63) \<le> n \<and> n < 2 ^ 63 \<longrightarrow> jc_get_int64 jc (jc_new_int64 jc n) = n)
          \<and> (is_int32 n \<longrightarrow> jc_get_int jc (jc_new_int64 jc n) = n))
     \<and> (\<forall>obj name v. jc_get_type jc obj = json_type_object \<longrightarrow>
          (\<exists>obj'. jc_object_add jc obj name v = Some obj' \<and> jc_get_type jc obj' = json_type_object
             \<and> (\<forall>k. jc_object_get jc obj' k = (if k = name then Some v else jc_object_get jc obj k))))
     \<and> (\<forall>arr v. jc_get_type jc arr = json_type_array \<longrightarrow>
          jc_get_type jc (jc_array_add jc arr v) = json_type_array
          \<and> jc_array_elements jc (jc_array_add jc arr v) = jc_array_elements jc arr @ [v])"

lemma json_lawsD:
  assumes "json_laws jc"
  shows "\<exists>obj. jc_new_object jc = Some obj \<and> jc_get_type jc obj = json_type_object \<and> (\<forall>k. jc_object_get jc obj k = None)"
    and "\<exists>arr. jc_new_array jc = Some arr \<and> jc_get_type jc arr = json_type_array \<and> jc_array_elements jc arr = []"
    and "jc_get_type jc (jc_new_string jc x) = json_type_string" "jc_get_string jc (jc_new_string jc x) = x"
    and "jc_get_type jc (jc_new_uint64 jc w) = json_type_int" "jc_get_uint64 jc (jc_new_uint64 jc w) = w"
    and "jc_get_type jc (jc_new_int64 jc n) = json_type_int"
    and "- (2 ^ 63) \<le> n \<Longrightarrow> n < 2 ^ 63 \<Longrightarrow> jc_get_int64 jc (jc_new_int64 jc n) = n"
    and "is_int32 n \<Longrightarrow> jc_get_int jc (jc_new_int64 jc n) = n"
    and "jc_get_type jc obj = json_type_object \<Longrightarrow>
      \<exists>obj'. jc_object_add jc obj name v = Some obj' \<and> jc_get_type jc obj' = json_type_object
        \<and> (\<forall>k. jc_object_get jc obj' k = (if k = name then Some v else jc_object_get jc obj k))"
    and "jc_get_type jc arr = json_type_array \<Longrightarrow> jc_get_type jc (jc_array_add jc arr v) = json_type_array"
    and "jc_get_type jc arr = json_type_array \<Longrightarrow> jc_array_elements jc (jc_array_add jc arr v) = jc_array_elements jc arr @ [v]"
  using assms unfolding json_laws_def by (elim conjE; blast)+

lemma add_fields_get:
  assumes laws: "json_laws jc"
  shows "jc_get_type jc obj = json_type_object \<Longrightarrow>
    \<exists>obj'. add_fields jc obj fs = Some obj' \<and> jc_get_type jc obj' = json_type_object
      \<and> (\<forall>k. jc_object_get jc obj' k = (case map_of (rev fs) k of Some v \<Rightarrow> Some v | None \<Rightarrow> jc_object_get jc obj k))"
proof (induction fs arbitrary: obj)
  case (Cons f fs)
  obtain name v where f: "f = (name, v)" by (cases f)
  obtain o1 where 1: "jc_object_add jc obj name v = Some o1" "jc_get_type jc o1 = json_type_object"
      "\<forall>k. jc_object_get jc o1 k = (if k = name then Some v else jc_object_get jc obj k)"
    using json_lawsD(10) [OF laws Cons.prems] by blast
  from Cons.IH [OF 1(2)] obtain o2 where "add_fields jc o1 fs = Some o2" "jc_get_type jc o2 = json_type_object"
      "\<forall>k. jc_object_get jc o2 k = (case map_of (rev fs) k of Some v \<Rightarrow> Some v | None \<Rightarrow> jc_object_get jc o1 k)"
    by blast
  then show ?case using 1 f by (intro exI [of _ o2]) (auto simp: map_add_def split: option.split)
qed simp

section \<open>Exported clients\<close>

text \<open>The fields of a client are in the range of their C types.\<close>

definition is_int64 :: "int \<Rightarrow> bool" where
  "is_int64 i \<longleftrightarrow> - (2 ^ 63) \<le> i \<and> i < 2 ^ 63"

definition client_typed :: "t_client \<Rightarrow> bool" where
  "client_typed c \<longleftrightarrow> is_int64 (session_start c) \<and> is_int64 (session_end c) \<and> is_int64 (last_updated (counters c))
     \<and> is_int32 (cl_download_limit c) \<and> is_int32 (cl_upload_limit c)"

lemma sint_of_int64: "is_int64 t \<Longrightarrow> sint (of_int t :: 64 word) = t"
  by (simp add: is_int64_def sint_sbintrunc' signed_take_bit_int_eq_self)

definition setters_of :: "t_client \<Rightarrow> (t_client \<Rightarrow> t_client) list" where
  "setters_of c =
     [\<lambda>d. d\<lparr>session_start := session_start c\<rparr>, \<lambda>d. d\<lparr>session_end := session_end c\<rparr>,
      \<lambda>d. d\<lparr>cl_download_limit := cl_download_limit c\<rparr>, \<lambda>d. d\<lparr>cl_upload_limit := cl_upload_limit c\<rparr>,
      \<lambda>d. d\<lparr>counters := (counters d)\<lparr>incoming := incoming (counters c)\<rparr>\<rparr>,
      \<lambda>d. d\<lparr>counters := (counters d)\<lparr>outgoing := outgoing (counters c)\<rparr>\<rparr>,
      \<lambda>d. d\<lparr>counters := (counters d)\<lparr>last_updated := last_updated (counters c)\<rparr>\<rparr>]"

text \<open>The members that the import reads from a document of a client.\<close>

definition describes :: "'j json_c \<Rightarrow> 'j \<Rightarrow> t_client \<Rightarrow> bool" where
  "describes jc j c \<longleftrightarrow> jc_get_type jc j = json_type_object
     \<and> json_get_field jc j ''mac'' json_type_string (jc_get_string jc) = Some (cl_mac c)
     \<and> json_get_field jc j ''ip'' json_type_string (jc_get_string jc) = Some (cl_ip c)
     \<and> json_get_field jc j ''id'' json_type_int (\<lambda>v. ucast (jc_get_uint64 jc v)) = Some (cl_id c)
     \<and> json_get_field jc j ''token'' json_type_string (jc_get_string jc) = Some (cl_token c)
     \<and> client_setters jc j = map Some (setters_of c)
     \<and> json_get_field jc j ''fw_connection_state'' json_type_int (\<lambda>v. of_int (jc_get_int64 jc v))
         = Some (fw_connection_state c)"

lemma export_client_describes:
  assumes laws: "json_laws jc" and c: "client_typed c"
  shows "\<exists>j. state_file_export_client jc c = Some j \<and> describes jc j c"
proof -
  note D = json_lawsD [OF laws]
  obtain e where e: "jc_new_object jc = Some e" "jc_get_type jc e = json_type_object" "\<forall>k. jc_object_get jc e k = None"
    using D(1) by blast
  obtain cli where cli: "add_fields jc e (client_fields jc c) = Some cli" "jc_get_type jc cli = json_type_object"
      "\<forall>k. jc_object_get jc cli k = map_of (rev (client_fields jc c)) k"
    using add_fields_get [OF laws e(2), of "client_fields jc c"] e(3) by (auto split: option.split)
  obtain cnt where cnt: "add_fields jc e (counter_fields jc (counters c)) = Some cnt" "jc_get_type jc cnt = json_type_object"
      "\<forall>k. jc_object_get jc cnt k = map_of (rev (counter_fields jc (counters c))) k"
    using add_fields_get [OF laws e(2), of "counter_fields jc (counters c)"] e(3) by (auto split: option.split)
  obtain j where j: "jc_object_add jc cli ''counters'' cnt = Some j" "jc_get_type jc j = json_type_object"
      "\<forall>k. jc_object_get jc j k = (if k = ''counters'' then Some cnt else jc_object_get jc cli k)"
    using D(10) [OF cli(2)] by blast
  have "state_file_export_client jc c = Some j"
    by (simp add: state_file_export_client_def e(1) cli(1) cnt(1) j(1))
  moreover have g: "jc_object_get jc j k = (if k = ''counters'' then Some cnt else map_of (rev (client_fields jc c)) k)"
    "jc_object_get jc cnt k = map_of (rev (counter_fields jc (counters c))) k" for k
    using j(3) cli(3) cnt(3) by simp_all
  have w: "- 9223372036854775808 \<le> uint w" "uint w < 9223372036854775808" for w :: "32 word"
  proof -
    have "0 \<le> uint w" "uint w < 4294967296" using uint_lt2p [of w] by simp_all
    then show "- 9223372036854775808 \<le> uint w" "uint w < 9223372036854775808" by linarith+
  qed
  have u: "ucast (ucast i :: 64 word) = i" for i :: "32 word" by (simp add: unsigned_ucast_eq take_bit_word_eq_self)
  have "describes jc j c"
    using c w by (simp add: describes_def setters_of_def json_get_field_def client_setters_def counter_setters_def json_time_def g
        client_fields_def counter_fields_def D j(2) cnt(2) client_typed_def sint_of_int64 u)
  ultimately show ?thesis by blast
qed

section \<open>Importing an exported client\<close>

lemma update_update: "update_client a g (update_client a f s) = update_client a (\<lambda>c. g (f c)) s"
  by (simp add: update_client_def case_prod_beta comp_def if_distrib [of g] cong: if_cong)

lemma update_last:
  assumes "clients s = xs @ [(a, c)]" and "a \<notin> fst ` set xs"
  shows "update_client a f s = s\<lparr>clients := xs @ [(a, f c)]\<rparr>"
  using update_client_split [of s xs a c "[]" f] assms by (simp add: update_client_def)

lemma assign_all: "assign_fields (map Some fs) a (update_client a f s) = (True, update_client a (\<lambda>c. fold (\<lambda>g. g) fs (f c)) s)"
  by (induction fs arbitrary: f) (simp_all add: update_update)

text \<open>
  When an exported client can be imported: there is room, neither its addresses nor its id are in use,
  and its state is one that a new client can get to.
\<close>

definition importable :: "t_client \<Rightarrow> nds \<Rightarrow> bool" where
  "importable c s \<longleftrightarrow> check_mac_format (cl_mac c) \<and> check_ip_format (cl_ip c)
     \<and> (cl_mac c, cl_ip c) \<notin> set (keys s) \<and> cl_id c \<notin> set (ids s) \<and> client_count s < maxclients (config s)
     \<and> (fw_connection_state c = initial_state (cl_mac c) s
        \<or> initial_state (cl_mac c) s = FW_MARK_PREAUTHENTICATED s \<and> fw_connection_state c = FW_MARK_AUTHENTICATED s)"

lemma not_found:
  "(mac, ip) \<notin> set (keys s) \<Longrightarrow> client_list_find mac ip s = None"
  "i \<notin> set (ids s) \<Longrightarrow> client_list_find_by_id i s = None"
proof -
  show "client_list_find mac ip s = None" if "(mac, ip) \<notin> set (keys s)"
    using by_mac_ip.finder_in [of mac ip s] that by (cases "client_list_find mac ip s") (force simp: keys_def)+
  show "client_list_find_by_id i s = None" if "i \<notin> set (ids s)"
    using by_id.finder_in [of i s] that by (cases "client_list_find_by_id i s") (force simp: ids_def)+
qed

lemma auth_change_state_authenticates:
  assumes "client_at s a = Some c" and "fw_connection_state c = FW_MARK_PREAUTHENTICATED s" and "st = FW_MARK_AUTHENTICATED s"
    and "FW_MARK_PREAUTHENTICATED s \<noteq> FW_MARK_AUTHENTICATED s"
  shows "auth_change_state env a st reason s
    = (0, update_client a (\<lambda>d. d\<lparr>fw_connection_state := st\<rparr>) (auth_cmds env c reason s))"
  using assms by (simp add: auth_change_state_def auth_cmds_def Let_def)

lemma import_described:
  assumes desc: "describes jc j c" and inv: "cl_inv s" and imp: "importable c s" and m: "is_int32 (maxclients (config s))"
  shows "\<exists>s'. state_file_import_client jc env j s = (0, s')
    \<and> clients s' = clients s @ [(next_addr s, c)] \<and> next_addr s' = next_addr s + 1
    \<and> client_count s' = client_count s + 1 \<and> client_id s' = to_int32 (client_id s + 1)
    \<and> config s' = config s \<and> globals s' = globals s \<and> cl_inv s'"
proof -
  note i = imp [unfolded importable_def]
  let ?mac = "cl_mac c" and ?ip = "cl_ip c" and ?a = "next_addr s"
  have nf: "client_list_find ?mac ?ip s = None" "client_list_find_by_id (cl_id c) s = None" using not_found i by blast+
  obtain a s1 where add: "client_list_append env ?mac ?ip s = (Some a, s1)" using i by (simp add: client_list_append_eq)
  note new = client_list_append_new [OF add]
  have add': "client_list_add_client env ?mac ?ip s = (Some a, s1)" using add i nf by (simp add: client_list_add_client_def)
  have inv1: "cl_inv s1" using add_client_inv [OF inv m, of env ?mac ?ip] add' by simp
  have a: "a \<notin> fst ` set (clients s)" using inv new(1) by (auto simp: cl_inv_def list_all_iff addrs_def)
  have c1: "clients s1 = clients s @ [(a, new_client env ?mac ?ip s)]" unfolding new(3) by simp
  let ?c = "c\<lparr>fw_connection_state := initial_state ?mac s\<rparr>"
  let ?s2 = "s1\<lparr>clients := clients s @ [(a, ?c)]\<rparr>"
  have s2: "assign_fields (client_setters jc j) a (update_client a (\<lambda>d. d\<lparr>cl_token := cl_token c, cl_id := cl_id c\<rparr>) s1) = (True, ?s2)"
  proof -
    have "client_setters jc j = map Some (setters_of c)" using desc by (simp add: describes_def)
    moreover have "fold (\<lambda>g. g) (setters_of c) ((new_client env ?mac ?ip s)\<lparr>cl_token := cl_token c, cl_id := cl_id c\<rparr>) = ?c"
      by (simp add: setters_of_def new_client_def blank_client_def)
    ultimately show ?thesis by (simp only: assign_all) (simp only: update_last [OF c1 a])
  qed
  have at: "client_at ?s2 a = Some ?c" using client_at_append [of a s ?s2 ?c a] a by (simp add: addrs_def)
  have g: "FW_MARK_PREAUTHENTICATED ?s2 = FW_MARK_PREAUTHENTICATED s" "FW_MARK_AUTHENTICATED ?s2 = FW_MARK_AUTHENTICATED s"
    unfolding new(3) by simp_all
  let ?r = "auth_change_state env a (fw_connection_state c) (Some ''import_state_file'') ?s2"
  have imp_eq: "state_file_import_client jc env j s = (0, snd ?r)"
    using desc s2 by (simp add: state_file_import_client_def describes_def nf add')
  have inv2: "cl_inv ?s2" using inv1 by (simp add: cl_inv_def addrs_def keys_def c1)
  have n: "next_addr s1 = next_addr s + 1" "client_id s1 = to_int32 (client_id s + 1)" "config s1 = config s"
    "globals s1 = globals s"
    unfolding new(3) by (simp_all add: new(1))
  have k: "client_count s1 = client_count s + 1" using inv inv1 by (simp add: cl_inv_def c1)
  show ?thesis
  proof (cases "fw_connection_state c = initial_state ?mac s")
    case True
    then have "?r = (-1, ?s2)" "?c = c" by (simp_all add: auth_change_state_def at)
    with imp_eq show ?thesis using inv2 n k new(1) by (intro exI [of _ ?s2]) simp
  next
    case False
    then have p: "initial_state ?mac s = FW_MARK_PREAUTHENTICATED s" "fw_connection_state c = FW_MARK_AUTHENTICATED s"
      using i by auto
    let ?t = "auth_cmds env ?c (Some ''import_state_file'') ?s2"
    let ?s3 = "update_client a (\<lambda>d. d\<lparr>fw_connection_state := fw_connection_state c\<rparr>) ?t"
    have r: "?r = (0, ?s3)"
    proof (rule auth_change_state_authenticates [OF at])
      show "fw_connection_state ?c = FW_MARK_PREAUTHENTICATED ?s2" unfolding g(1) using p(1) by simp
      show "fw_connection_state c = FW_MARK_AUTHENTICATED ?s2" unfolding g(2) by (rule p(2))
      show "FW_MARK_PREAUTHENTICATED ?s2 \<noteq> FW_MARK_AUTHENTICATED ?s2" unfolding g using False p by simp
    qed
    have t: "same_but_log ?s2 ?t" by (rule auth_cmds_same)
    have "clients ?t = clients s @ [(a, ?c)]" using same_but_log_addrs [OF t] by simp
    from update_last [OF this a] have s3: "?s3 = ?t\<lparr>clients := clients s @ [(a, c)]\<rparr>" by simp
    note e = same_but_logD(1) [OF t]
    have t': "next_addr ?t = next_addr s1" "client_count ?t = client_count s1" "client_id ?t = client_id s1"
      "config ?t = config s1" "globals ?t = globals s1"
      by (subst e, simp)+
    have "cl_inv ?s3" using inv2 by (simp add: s3 cl_inv_def addrs_def keys_def t')
    moreover have "clients ?s3 = clients s @ [(a, c)]" "next_addr ?s3 = next_addr s + 1" "client_count ?s3 = client_count s + 1"
      "client_id ?s3 = to_int32 (client_id s + 1)" "config ?s3 = config s" "globals ?s3 = globals s"
      unfolding s3 using n k t' by simp_all
    moreover have "state_file_import_client jc env j s = (0, ?s3)" using imp_eq by (simp only: r snd_conv)
    ultimately show ?thesis unfolding new(1) by blast
  qed
qed

lemma export_clients_describe:
  assumes laws: "json_laws jc"
  shows "list_all (\<lambda>(a, c). client_typed c) cs \<Longrightarrow> jc_get_type jc arr = json_type_array \<Longrightarrow>
    \<exists>arr' js. export_clients jc arr cs = Some arr' \<and> jc_get_type jc arr' = json_type_array
      \<and> jc_array_elements jc arr' = jc_array_elements jc arr @ js \<and> list_all2 (describes jc) js (map snd cs)"
proof (induction cs arbitrary: arr)
  case (Cons x cs)
  obtain a c where x: "x = (a, c)" by (cases x)
  then obtain j where j: "state_file_export_client jc c = Some j" "describes jc j c"
    using export_client_describes [OF laws] Cons.prems(1) by auto
  let ?arr = "jc_array_add jc arr j"
  have "jc_get_type jc ?arr = json_type_array" "jc_array_elements jc ?arr = jc_array_elements jc arr @ [j]"
    using json_lawsD(11,12) [OF laws Cons.prems(2)] by simp_all
  with Cons.IH [of ?arr] Cons.prems(1) x obtain arr' js where "export_clients jc ?arr cs = Some arr'"
      "jc_get_type jc arr' = json_type_array" "jc_array_elements jc arr' = jc_array_elements jc arr @ [j] @ js"
      "list_all2 (describes jc) js (map snd cs)" by auto
  then show ?case using x j by (intro exI [of _ arr'] exI [of _ "j # js"]) simp
qed simp

text \<open>Importing a list of described clients one after the other.\<close>

lemma import_loop_described:
  assumes "list_all2 (describes jc) js cs" and "cl_inv s" and "is_int32 (maxclients (config s))"
    and "client_count s + int (length cs) \<le> maxclients (config s)"
    and "list_all (\<lambda>c. check_mac_format (cl_mac c) \<and> check_ip_format (cl_ip c)
       \<and> (fw_connection_state c = initial_state (cl_mac c) s
          \<or> initial_state (cl_mac c) s = FW_MARK_PREAUTHENTICATED s \<and> fw_connection_state c = FW_MARK_AUTHENTICATED s)) cs"
    and "distinct (keys s @ map (\<lambda>c. (cl_mac c, cl_ip c)) cs)" and "distinct (ids s @ map cl_id cs)"
  shows "\<exists>s'. import_loop jc env js rc s = (0, s') \<and> map snd (clients s') = map snd (clients s) @ cs \<and> cl_inv s'
    \<and> config s' = config s \<and> globals s' = globals s"
  using assms
proof (induction js cs arbitrary: s rc rule: list_all2_induct)
  case (Cons j js c cs)
  have "importable c s" using Cons.prems by (simp add: importable_def)
  with import_described [OF Cons.hyps(1) Cons.prems(1) this Cons.prems(2), of env] obtain s1 where
    s1: "state_file_import_client jc env j s = (0, s1)" "clients s1 = clients s @ [(next_addr s, c)]"
      "client_count s1 = client_count s + 1" "config s1 = config s" "globals s1 = globals s" "cl_inv s1" by blast
  have k: "keys s1 = keys s @ [(cl_mac c, cl_ip c)]" "ids s1 = ids s @ [cl_id c]" by (simp_all add: keys_def ids_def s1(2))
  have st: "initial_state m s1 = initial_state m s" "FW_MARK_PREAUTHENTICATED s1 = FW_MARK_PREAUTHENTICATED s"
    "FW_MARK_AUTHENTICATED s1 = FW_MARK_AUTHENTICATED s" for m
    by (simp_all add: initial_state_def s1(4) globals_fields [OF s1(5)])
  have "\<exists>s'. import_loop jc env js 0 s1 = (0, s') \<and> map snd (clients s') = map snd (clients s1) @ cs \<and> cl_inv s'
      \<and> config s' = config s1 \<and> globals s' = globals s1"
    using Cons.prems by (intro Cons.IH) (simp_all add: s1(3,4,6) k st)
  then show ?case using Cons.hyps(1) s1 by (auto simp: describes_def)
qed simp

text \<open>
  C15. A client list that is exported and imported again is restored: with the same configuration and firewall
  marks and an empty list, the import of the exported document succeeds and the new list has the same
  clients in the same order with all their fields, the authenticated ones authenticated again. It holds for a JSON library
  that obeys \<open>json_laws\<close> and a file that can be written, for a well-formed list in which no two clients have the same
  id and which is within the limit of clients, whose numbers fit the JSON accessors, and for clients in the state that
  the MAC lists give them or authenticated clients on no MAC list. (A list with a duplicate id, which a first
  import can lead to, is exported but refused by the import.)
\<close>

theorem state_file_round_trip:
  assumes laws: "json_laws jc" and written: "\<forall>doc. to_file doc = 0"
    and inv: "cl_inv s" "distinct (ids s)" and typed: "list_all (\<lambda>(a, c). client_typed c) (clients s)"
    and states: "list_all (\<lambda>(a, c). fw_connection_state c = initial_state (cl_mac c) s
       \<or> initial_state (cl_mac c) s = FW_MARK_PREAUTHENTICATED s \<and> fw_connection_state c = FW_MARK_AUTHENTICATED s) (clients s)"
    and s0: "clients s0 = []" "client_count s0 = 0" "config s0 = config s" "globals s0 = globals s"
    and max: "client_count s \<le> maxclients (config s)" "is_int32 (maxclients (config s))"
  shows "\<exists>doc s'. state_file_export jc to_file s = (0, Some doc)
    \<and> state_file_import jc env Exists (Some doc) s0 = (0, s') \<and> map snd (clients s') = map snd (clients s) \<and> cl_inv s'"
proof -
  note D = json_lawsD [OF laws]
  obtain e where e: "jc_new_object jc = Some e" "jc_get_type jc e = json_type_object" "\<forall>k. jc_object_get jc e k = None"
    using D(1) by blast
  let ?head = "[(''version'', jc_new_int64 jc 1), (''name'', jc_new_string jc ''nodogsplash'')]"
  obtain o1 where o1: "add_fields jc e ?head = Some o1" "jc_get_type jc o1 = json_type_object"
      "\<forall>k. jc_object_get jc o1 k = map_of (rev ?head) k"
    using add_fields_get [OF laws e(2), of ?head] e(3) by (auto split: option.split)
  obtain arr where arr: "jc_new_array jc = Some arr" "jc_get_type jc arr = json_type_array" "jc_array_elements jc arr = []"
    using D(2) by blast
  obtain arr' js where a: "export_clients jc arr (clients s) = Some arr'" "jc_get_type jc arr' = json_type_array"
      "jc_array_elements jc arr' = js" "list_all2 (describes jc) js (map snd (clients s))"
    using export_clients_describe [OF laws typed arr(2)] arr(3) by auto
  obtain doc where doc: "jc_object_add jc o1 ''clients'' arr' = Some doc"
      "\<forall>k. jc_object_get jc doc k = (if k = ''clients'' then Some arr' else jc_object_get jc o1 k)"
    using D(10) [OF o1(2)] by blast
  have ex: "state_file_export jc to_file s = (0, Some doc)"
    using written by (simp add: state_file_export_def export_document_def e(1) o1(1) arr(1) a(1) doc(1) del: add_fields.simps)
  have st: "initial_state m s0 = initial_state m s" "FW_MARK_PREAUTHENTICATED s0 = FW_MARK_PREAUTHENTICATED s"
    "FW_MARK_AUTHENTICATED s0 = FW_MARK_AUTHENTICATED s" for m
    by (simp_all add: initial_state_def s0(3) globals_fields [OF s0(4)])
  have keys: "keys s = map (\<lambda>c. (cl_mac c, cl_ip c)) (map snd (clients s))" "ids s = map cl_id (map snd (clients s))"
    by (simp_all add: keys_def ids_def case_prod_beta)
  have "\<exists>s'. import_loop jc env js (- EINVAL) s0 = (0, s') \<and> map snd (clients s') = map snd (clients s0) @ map snd (clients s)
      \<and> cl_inv s' \<and> config s' = config s0 \<and> globals s' = globals s0"
  proof (rule import_loop_described [OF a(4)])
    show "cl_inv s0" using s0(1,2) by (simp add: cl_inv_def addrs_def keys_def)
    show "is_int32 (maxclients (config s0))" using max(2) by (simp add: s0(3))
    show "client_count s0 + int (length (map snd (clients s))) \<le> maxclients (config s0)"
      using inv(1) max(1) by (simp add: s0 cl_inv_def)
    show "distinct (keys s0 @ map (\<lambda>c. (cl_mac c, cl_ip c)) (map snd (clients s)))"
      "distinct (ids s0 @ map cl_id (map snd (clients s)))"
      using inv unfolding keys [symmetric] by (simp_all add: keys_def [of s0] ids_def [of s0] s0(1) cl_inv_def)
    show "list_all (\<lambda>c. check_mac_format (cl_mac c) \<and> check_ip_format (cl_ip c)
       \<and> (fw_connection_state c = initial_state (cl_mac c) s0
          \<or> initial_state (cl_mac c) s0 = FW_MARK_PREAUTHENTICATED s0 \<and> fw_connection_state c = FW_MARK_AUTHENTICATED s0))
       (map snd (clients s))"
      using inv(1) states unfolding cl_inv_def keys_def st by (auto simp: list_all_iff)
  qed
  then obtain s' where s': "import_loop jc env js (- EINVAL) s0 = (0, s')" "map snd (clients s') = map snd (clients s)"
      "cl_inv s'" by (auto simp: s0(1))
  have "state_file_import jc env Exists (Some doc) s0 = (0, s')"
    using s'(1) a(3) by (simp add: state_file_import_def json_get_field_def doc(2) o1(3) D a(2))
  with ex s' show ?thesis by blast
qed

section \<open>Defects of the import\<close>

text \<open>
  An entry of the client array that is not an object ends the import, but after an entry that was
  imported the result is 0, which the caller takes for success.
\<close>

theorem import_error_as_success:
  assumes "json_get_field jc doc ''version'' json_type_int (jc_get_int64 jc) = Some NDS_JSON_EXPORT_VERSION"
    and "json_get_field jc doc ''name'' json_type_string (jc_get_string jc) = Some ''nodogsplash''"
    and "json_get_field jc doc ''clients'' json_type_array (\<lambda>j. j) = Some arr"
    and "jc_array_elements jc arr = j # x # js" and "jc_get_type jc j = json_type_object"
    and "state_file_import_client jc env j s = (0, s')" and "jc_get_type jc x = json_type_string"
  shows "state_file_import jc env Exists (Some doc) s = (0, s')"
  using assms by (simp add: state_file_import_def)

lemma import_described_id:
  assumes "describes jc j c" and "cl_inv s" and "importable c s" and "is_int32 (maxclients (config s))"
    and "state_file_import_client jc env j s = (0, s')"
  shows "ids s' = ids s @ [cl_id c]" "client_id s' = to_int32 (client_id s + 1)" "keys s' = keys s @ [(cl_mac c, cl_ip c)]"
    "cl_inv s'"
  using import_described [OF assms(1-4), of env] assms(5) by (auto simp: ids_def keys_def)

text \<open>
  C27. The import restores the ids of the clients but not the counter from which new ids are taken. If an entry of the
  state file that describes an importable client (well-formed and new addresses, a new id, room on the list) is imported
  into a well-formed list and carries the id that the counter reaches with it, then the next client that is added, with
  addresses that are not on the list, gets the same id: the ids are distinct no longer, and operations by id act on the wrong client
  (\<open>duplicate_id_not_visited\<close>, \<open>duplicate_id_authenticates_other\<close>, \<open>ndsctl_auth_duplicate_id\<close>).
\<close>

theorem import_duplicate_id:
  assumes "describes jc j c" and "cl_inv s" and "importable c s" and "is_int32 (maxclients (config s))"
    and "state_file_import_client jc env j s = (0, s')"
    and "cl_id c = of_int (to_int32 (client_id s + 1))"
    and "client_list_find mac ip s' = None" and "client_list_add_client env mac ip s' = (Some a, s'')"
  shows "\<not> distinct (ids s'')"
proof -
  have app: "client_list_append env mac ip s' = (Some a, s'')"
    using assms(7,8) by (auto simp: client_list_add_client_def split: if_split_asm)
  have "clients s'' = clients s' @ [(a, new_client env mac ip s')]"
    by (subst client_list_append_new(3) [OF app]) simp
  then have "ids s'' = ids s' @ [of_int (client_id s')]" by (simp add: ids_def)
  with import_described_id [OF assms(1-5)] assms(6) show ?thesis by simp
qed

section \<open>A library that satisfies the laws\<close>

datatype json = JInt int | JString string | JObject "(string \<times> json) list" | JArray "json list"

definition tree_json :: "json json_c" where
  "tree_json = \<lparr>jc_new_object = Some (JObject []), jc_new_array = Some (JArray []), jc_new_string = JString,
     jc_new_int64 = JInt, jc_new_uint64 = (\<lambda>w. JInt (uint w)),
     jc_object_add = (\<lambda>obj k v. case obj of JObject fs \<Rightarrow> Some (JObject ((k, v) # fs)) | _ \<Rightarrow> None),
     jc_array_add = (\<lambda>arr v. case arr of JArray vs \<Rightarrow> JArray (vs @ [v]) | _ \<Rightarrow> arr),
     jc_object_get = (\<lambda>obj k. case obj of JObject fs \<Rightarrow> map_of fs k | _ \<Rightarrow> None),
     jc_get_type = (\<lambda>j. case j of JInt _ \<Rightarrow> json_type_int | JString _ \<Rightarrow> json_type_string
       | JObject _ \<Rightarrow> json_type_object | JArray _ \<Rightarrow> json_type_array),
     jc_get_string = (\<lambda>j. case j of JString x \<Rightarrow> x | _ \<Rightarrow> []),
     jc_get_int = (\<lambda>j. case j of JInt n \<Rightarrow> max (- (2 ^ 31)) (min (2 ^ 31 - 1) n) | _ \<Rightarrow> 0),
     jc_get_int64 = (\<lambda>j. case j of JInt n \<Rightarrow> n | _ \<Rightarrow> 0),
     jc_get_uint64 = (\<lambda>j. case j of JInt n \<Rightarrow> of_int n | _ \<Rightarrow> 0),
     jc_array_elements = (\<lambda>j. case j of JArray vs \<Rightarrow> vs | _ \<Rightarrow> [])\<rparr>"

lemma tree_json_laws: "json_laws tree_json"
  unfolding json_laws_def
  by (intro conjI allI impI) (auto simp: tree_json_def is_int32_def split: json.splits)

text \<open>One preauthenticated client with id 2 while the counter is at 2.\<close>

definition file_client :: t_client where
  "file_client = (blank_client ''00:11:22:33:44:55'' ''10.0.0.2'')\<lparr>cl_id := 2, cl_token := ''abc''\<rparr>"

definition file_state :: nds where
  "file_state = sample_marks\<lparr>clients := [(1, file_client)], client_count := 1, client_id := 3, next_addr := 2\<rparr>"

definition file_start :: nds where
  "file_start = file_state\<lparr>clients := [], client_count := 0, client_id := 1\<rparr>"

lemma file_start_facts:
  "cl_inv file_start" "importable file_client file_start" "is_int32 (maxclients (config file_start))" "client_typed file_client"
  by code_simp+

theorem state_file_round_trip_witness:
  "\<exists>doc s'. state_file_export tree_json (\<lambda>d. 0) file_state = (0, Some doc)
    \<and> state_file_import tree_json sample_env Exists (Some doc) file_start = (0, s') \<and> map snd (clients s') = [file_client]"
proof -
  have w: "\<forall>doc. (\<lambda>d :: json. 0 :: int) doc = 0" by simp
  have i: "cl_inv file_state" "distinct (ids file_state)" "list_all (\<lambda>(a, c). client_typed c) (clients file_state)" by code_simp+
  have st: "list_all (\<lambda>(a, c). fw_connection_state c = initial_state (cl_mac c) file_state
     \<or> initial_state (cl_mac c) file_state = FW_MARK_PREAUTHENTICATED file_state
       \<and> fw_connection_state c = FW_MARK_AUTHENTICATED file_state) (clients file_state)" by code_simp
  have s0: "clients file_start = []" "client_count file_start = 0" "config file_start = config file_state"
    "globals file_start = globals file_state"
    by (simp_all add: file_start_def)
  have m: "client_count file_state \<le> maxclients (config file_state)" "is_int32 (maxclients (config file_state))" by code_simp+
  have "map snd (clients file_state) = [file_client]" by (simp add: file_state_def)
  with state_file_round_trip [OF tree_json_laws w i st s0 m, of sample_env] show ?thesis by auto
qed

theorem import_error_as_success_witness:
  "\<exists>s'. state_file_import tree_json sample_env Exists (Some (JObject [(''version'', JInt 1), (''name'', JString ''nodogsplash''),
      (''clients'', JArray [the (state_file_export_client tree_json file_client), JString ''x''])])) file_start = (0, s')"
proof -
  obtain j where j: "state_file_export_client tree_json file_client = Some j" "describes tree_json j file_client"
    using export_client_describes [OF tree_json_laws file_start_facts(4)] by blast
  obtain s' where s': "state_file_import_client tree_json sample_env j file_start = (0, s')"
    using import_described [OF j(2) file_start_facts(1-3), of sample_env] by blast
  have o: "jc_get_type tree_json j = json_type_object" using j(2) by (simp add: describes_def)
  let ?arr = "JArray [j, JString ''x'']"
  let ?doc = "JObject [(''version'', JInt 1), (''name'', JString ''nodogsplash''), (''clients'', ?arr)]"
  have d: "json_get_field tree_json ?doc ''version'' json_type_int (jc_get_int64 tree_json) = Some NDS_JSON_EXPORT_VERSION"
    "json_get_field tree_json ?doc ''name'' json_type_string (jc_get_string tree_json) = Some ''nodogsplash''"
    "json_get_field tree_json ?doc ''clients'' json_type_array (\<lambda>j. j) = Some ?arr"
    "jc_array_elements tree_json ?arr = [j, JString ''x'']" "jc_get_type tree_json (JString ''x'') = json_type_string"
    by (simp_all add: tree_json_def json_get_field_def)
  from import_error_as_success [OF d(1-4) o s' d(5)] show ?thesis unfolding j(1) option.sel by (rule exI)
qed

theorem import_duplicate_id_witness:
  "\<exists>j s' s'' a. state_file_import_client tree_json sample_env j file_start = (0, s')
    \<and> client_list_add_client sample_env ''00:11:22:33:44:66'' ''10.0.0.3'' s' = (Some a, s'') \<and> \<not> distinct (ids s'')"
proof -
  obtain j where j: "state_file_export_client tree_json file_client = Some j" "describes tree_json j file_client"
    using export_client_describes [OF tree_json_laws file_start_facts(4)] by blast
  obtain s' where s': "state_file_import_client tree_json sample_env j file_start = (0, s')" "config s' = config file_start"
      "client_count s' = client_count file_start + 1"
    using import_described [OF j(2) file_start_facts(1-3), of sample_env] by blast
  have "keys s' = keys file_start @ [(cl_mac file_client, cl_ip file_client)]"
    by (rule import_described_id [OF j(2) file_start_facts(1-3) s'(1)])
  moreover have "keys file_start @ [(cl_mac file_client, cl_ip file_client)] = [(''00:11:22:33:44:55'', ''10.0.0.2'')]" by code_simp
  ultimately have nf: "client_list_find ''00:11:22:33:44:66'' ''10.0.0.3'' s' = None" by (intro not_found(1)) simp
  have f: "check_mac_format ''00:11:22:33:44:66''" "check_ip_format ''10.0.0.3''" by code_simp+
  have "client_count file_start + 1 < maxclients (config file_start)" by code_simp
  then obtain a s'' where "client_list_append sample_env ''00:11:22:33:44:66'' ''10.0.0.3'' s' = (Some a, s'')"
    using s'(2,3) by (simp add: client_list_append_eq)
  with f nf have add: "client_list_add_client sample_env ''00:11:22:33:44:66'' ''10.0.0.3'' s' = (Some a, s'')"
    by (simp add: client_list_add_client_def)
  have "cl_id file_client = of_int (to_int32 (client_id file_start + 1))" by code_simp
  from import_duplicate_id [OF j(2) file_start_facts(1-3) s'(1) this nf add] s'(1) add show ?thesis by blast
qed

end
