(* ===== verification/Nds_Main.thy ===== *)
theory Nds_Main
  imports Conf_Parse Ndsctl State_File
begin

text \<open>
  \<open>src/commandline.c\<close> and \<open>src/main.c\<close>: the command line, the start of the gateway and its end. \<open>getopt\<close> is
  modelled as POSIX describes it: it stops at the first argument that is not an option. What the start asks the
  kernel and the libraries for is the parameter \<open>host\<close>: the addresses of the interfaces, whether signal handlers, the
  process, the web server and the threads can be created, and the state file.
\<close>

section \<open>The command line\<close>

definition takes_arg :: "char \<Rightarrow> bool option" where
  "takes_arg c =
     (if c \<in> set ''cdwir'' then Some True else if c \<in> set ''hfsv64'' then Some False else None)"

text \<open>The options in order, \<open>?\<close> for one that is not known or lacks its argument.\<close>

fun getopt_word :: "string \<Rightarrow> string list \<Rightarrow> (char \<times> string option) list \<times> string list" where
  "getopt_word [] rest = ([], rest)"
| "getopt_word (c # cs) rest =
     (case takes_arg c of
        Some True \<Rightarrow>
          if cs \<noteq> [] then ([(c, Some cs)], rest)
          else (case rest of [] \<Rightarrow> ([(CHR ''?'', None)], []) | a # rest' \<Rightarrow> ([(c, Some a)], rest'))
      | Some False \<Rightarrow> (case getopt_word cs rest of (os, rest') \<Rightarrow> ((c, None) # os, rest'))
      | None \<Rightarrow> (case getopt_word cs rest of (os, rest') \<Rightarrow> ((CHR ''?'', None) # os, rest')))"

lemma getopt_word_rest: "getopt_word w rest = (os, rest') \<Longrightarrow> length rest' \<le> length rest"
  by (induction w rest arbitrary: os rest' rule: getopt_word.induct)
    (auto split: option.splits if_splits list.splits prod.splits bool.splits)

function getopt :: "string list \<Rightarrow> (char \<times> string option) list" where
  "getopt [] = []"
| "getopt (w # ws) =
     (if length w < 2 \<or> hd w \<noteq> CHR ''-'' \<or> w = ''--'' then []
      else case getopt_word (tl w) ws of (os, rest) \<Rightarrow> os @ getopt rest)"
  by pat_completeness auto
termination
  by (relation "measure length") (auto dest: getopt_word_rest [OF sym])

text \<open>One option; \<open>Inl n\<close> is \<open>exit(n)\<close>.\<close>

definition apply_flag :: "char \<Rightarrow> string option \<Rightarrow> s_config \<Rightarrow> int + s_config" where
  "apply_flag c optarg cfg =
     (if c = CHR ''h'' then Inl 1
      else if c = CHR ''c'' then Inr (case optarg of Some a \<Rightarrow> cfg\<lparr>configfile := take 254 a\<rparr> | None \<Rightarrow> cfg)
      else if c = CHR ''w'' then Inr (case optarg of Some a \<Rightarrow> cfg\<lparr>ndsctl_sock := a\<rparr> | None \<Rightarrow> cfg)
      else if c = CHR ''f'' then Inr (cfg\<lparr>daemon := 0\<rparr>)
      else if c = CHR ''d'' then
        (case set_debuglevel optarg cfg of (rc, cfg') \<Rightarrow> if rc \<noteq> 0 then Inl 1 else Inr cfg')
      else if c = CHR ''s'' then Inr (cfg\<lparr>log_syslog := 1\<rparr>)
      else if c = CHR ''v'' then Inl 1
      else if c = CHR ''r'' then Inr (case optarg of Some a \<Rightarrow> cfg\<lparr>webroot := a\<rparr> | None \<Rightarrow> cfg)
      else if c = CHR ''4'' then Inr (cfg\<lparr>ip6 := 0\<rparr>)
      else if c = CHR ''6'' then Inl 1
      else Inl 1)"

fun apply_flags :: "(char \<times> string option) list \<Rightarrow> s_config \<Rightarrow> int + s_config" where
  "apply_flags [] cfg = Inr cfg"
| "apply_flags ((c, optarg) # os) cfg =
     (case apply_flag c optarg cfg of Inl n \<Rightarrow> Inl n | Inr cfg' \<Rightarrow> apply_flags os cfg')"

definition parse_commandline :: "string list \<Rightarrow> s_config \<Rightarrow> int + s_config" where
  "parse_commandline argv cfg = apply_flags (getopt (tl argv)) cfg"

section \<open>The end\<close>

text \<open>
  \<open>termination_handler\<close>: the exit status, the document written to the state file, and the final state.
  \<open>files\<close>: the JSON library and whether it can write, \<^const>\<open>None\<close> when built without \<open>WITH_STATE_FILE\<close>; \<open>write\<close> is
  \<open>write_state_file\<close>. \<open>locked\<close>: another thread holds \<open>sigterm_mutex\<close>, which is never released. \<^const>\<open>None\<close>: it does not end.
\<close>

datatype 'j ending = Pthread_exit | Terminated int "'j option" nds

definition exported_state :: "('j json_c \<times> ('j \<Rightarrow> int)) option \<Rightarrow> bool \<Rightarrow> nds \<Rightarrow> 'j option" where
  "exported_state files write s =
     (case (files, statefile (config s)) of
        (Some (jc, to_file), Some path) \<Rightarrow>
          if write \<and> path \<noteq> [] then snd (state_file_export jc to_file s) else None
      | _ \<Rightarrow> None)"

definition termination_handler ::
  "env \<Rightarrow> ('j json_c \<times> ('j \<Rightarrow> int)) option \<Rightarrow> bool \<Rightarrow> bool \<Rightarrow> int \<Rightarrow> nds \<Rightarrow> 'j ending option" where
  "termination_handler env files write locked sig s =
     (if locked then Some Pthread_exit
      else do { let doc = exported_state files write s;
                s \<leftarrow> auth_client_deauth_all env s;
                s \<leftarrow> iptables_fw_destroy env s;
                Some (Terminated (if sig = 0 then 1 else 0) doc s) })"

section \<open>The start\<close>

text \<open>
  \<open>h_ifaddrs\<close>: the list of \<open>getifaddrs\<close>; \<open>h_socket\<close> and \<open>h_hwaddr\<close>: the parameters of \<open>get_iface_mac\<close>; \<open>h_sigaction\<close>:
  which signal handlers can be installed; \<open>h_fork\<close>: the result of \<open>fork\<close>; \<open>h_state_file\<close>: the JSON library, whether the
  file can be written, its status and its contents, \<^const>\<open>None\<close> when built without \<open>WITH_STATE_FILE\<close>.
\<close>

record 'j host =
  h_ifaddrs :: "(string \<times> sockaddr option) list option"
  h_socket :: bool
  h_hwaddr :: "string \<Rightarrow> (8 word list) option"
  h_sigaction :: "signal \<Rightarrow> bool"
  h_fork :: int
  h_webserver :: bool
  h_check_thread :: bool
  h_ndsctl_thread :: bool
  h_state_file :: "('j json_c \<times> ('j \<Rightarrow> int) \<times> stat_result \<times> 'j option) option"

text \<open>\<open>Crash\<close>: a NULL pointer is dereferenced, or a store goes past the end of an object.\<close>

datatype start_result = Exit int nds | Running nds | Abort nds | Crash nds

abbreviation (input) MINIMUM_STARTED_TIME :: int where "MINIMUM_STARTED_TIME \<equiv> 1178487900"

definition set_started_time :: "env \<Rightarrow> nds \<Rightarrow> nds" where
  "set_started_time env s =
     (if started_time s = 0 \<or> started_time s < MINIMUM_STARTED_TIME
      then (case c_time env s of (now, s) \<Rightarrow> s\<lparr>started_time := now\<rparr>)
      else s)"

text \<open>The address and the names under which the web server is reached, for a known \<open>gw_ip\<close>.\<close>

definition gateway_names :: "s_config \<Rightarrow> s_config" where
  "gateway_names cfg =
     (let ip = show_str (gw_ip cfg); v6 = ip6 cfg \<noteq> 0; port = show_int (to_int32 (uint (gw_port cfg)));
          host = (if v6 then ''['' @ ip @ '']'' else ip);
          address = host @ '':'' @ port
      in case gw_domain cfg of
           None \<Rightarrow> cfg\<lparr>gw_address := Some address,
             gw_http_name := Some (if gw_port cfg = 80 then host else address), gw_http_name_port := Some address\<rparr>
         | Some d \<Rightarrow> cfg\<lparr>gw_address := Some address,
             gw_http_name := Some (if gw_port cfg = 80 then d else d @ '':'' @ port),
             gw_http_name_port := Some (d @ '':'' @ port)\<rparr>)"

text \<open>
  Clean the firewall and set it up; the first component is the status with which the program exits when the
  set-up fails.
\<close>

definition reset_firewall :: "env \<Rightarrow> nds \<Rightarrow> (int option \<times> nds) option" where
  "reset_firewall env s =
     (case iptables_fw_destroy env s of
        None \<Rightarrow> None
      | Some s \<Rightarrow>
          (case iptables_fw_init env s of
             None \<Rightarrow> Some (Some 1, s)
           | Some (rc, s) \<Rightarrow>
               if rc \<noteq> 0 then map_option (\<lambda>s. (Some 1, s)) (iptables_fw_destroy env s)
               else Some (None, s)))"

definition load_state :: "'j host \<Rightarrow> env \<Rightarrow> nds \<Rightarrow> (int option \<times> nds) option" where
  "load_state host env s =
     (case h_state_file host of
        None \<Rightarrow> Some (None, s)
      | Some (jc, to_file, st, doc) \<Rightarrow>
          (case state_file_import jc env st doc s of (rc, s) \<Rightarrow>
            if rc < 0 then
              (case reset_firewall env s of
                 None \<Rightarrow> None
               | Some (Some n, s) \<Rightarrow> Some (Some n, s)
               | Some (None, s) \<Rightarrow> Some (None, client_list_flush s))
            else Some (None, s)))"

definition state_writer :: "'j host \<Rightarrow> ('j json_c \<times> ('j \<Rightarrow> int)) option" where
  "state_writer host = map_option (\<lambda>(jc, to_file, _). (jc, to_file)) (h_state_file host)"

text \<open>A thread that cannot be created ends the program, before \<open>write_state_file\<close> is set.\<close>

definition start_threads :: "'j host \<Rightarrow> env \<Rightarrow> nds \<Rightarrow> start_result option" where
  "start_threads host env s =
     (let stop = (\<lambda>sig. map_option (\<lambda>t. case t of Terminated n doc s \<Rightarrow> Exit n s | Pthread_exit \<Rightarrow> Running s)
                    (termination_handler env (state_writer host) False False sig s))
      in if \<not> h_check_thread host then stop 0
         else if \<not> h_ndsctl_thread host then stop 1
         else Some (Running s))"

definition main_loop :: "'j host \<Rightarrow> env \<Rightarrow> nds \<Rightarrow> start_result option" where
  "main_loop host env s0 =
     (let s = set_started_time env s0; cfg = config s in
      case gw_interface cfg of
        None \<Rightarrow> Some (Crash s)
      | Some ifname \<Rightarrow>
      (case (case gw_ip cfg of Some ip \<Rightarrow> Some ip | None \<Rightarrow> get_iface_ip (h_ifaddrs host) ifname (ip6 cfg)) of
        None \<Rightarrow> Some (Exit 1 s)
      | Some ip \<Rightarrow>
          (let s = s\<lparr>config := gateway_names (cfg\<lparr>gw_ip := Some ip\<rparr>)\<rparr> in
           case get_iface_mac (h_socket host) (h_hwaddr host) ifname of
             None \<Rightarrow> Some (Crash s)
           | Some None \<Rightarrow> Some (Exit 1 s)
           | Some (Some mac) \<Rightarrow>
               (let s = s\<lparr>config := (config s)\<lparr>gw_mac := Some mac\<rparr>\<rparr> in
                if \<not> h_webserver host then Some (Exit 1 s)
                else case reset_firewall env s of
                    None \<Rightarrow> None
                  | Some (Some n, s) \<Rightarrow> Some (Exit n s)
                  | Some (None, s) \<Rightarrow>
                      (case load_state host env s of
                         None \<Rightarrow> None
                       | Some (Some n, s) \<Rightarrow> Some (Exit n s)
                       | Some (None, s) \<Rightarrow> start_threads host env s)))))"

text \<open>
  \<open>main\<close>. \<open>contents\<close> gives the configuration files that can be opened; \<open>is_exec\<close> and \<open>tail\<close> are the parameters of
  \<open>config_read\<close>.
\<close>

definition nds_main ::
  "(string \<Rightarrow> bool) \<Rightarrow> (string \<Rightarrow> string) \<Rightarrow> (string \<Rightarrow> string option) \<Rightarrow> 'j host \<Rightarrow> env \<Rightarrow> string list \<Rightarrow> start_result option" where
  "nds_main is_exec tail contents host env argv =
     (case parse_commandline argv config_init of
        Inl n \<Rightarrow> Some (Exit n (nds_start config_init))
      | Inr cfg \<Rightarrow>
          (case config_read is_exec tail (contents (configfile cfg)) cfg of
             Inl n \<Rightarrow> Some (Exit n (nds_start cfg))
           | Inr cfg \<Rightarrow>
               (case config_validate cfg of
                  Inl n \<Rightarrow> Some (Exit n (nds_start cfg))
                | Inr _ \<Rightarrow>
                    (let s = client_list_init (nds_start cfg) in
                     case init_signals (h_sigaction host) of
                       Inl n \<Rightarrow> Some (Exit n s)
                     | Inr _ \<Rightarrow>
                         if daemon cfg \<noteq> 0 then
                           (case safe_fork (h_fork host) of
                              Returns pid \<Rightarrow> if pid = 0 then main_loop host env s else Some (Exit 0 s)
                            | _ \<Rightarrow> Some (Abort s))
                         else main_loop host env s))))"

text \<open>After the control thread has ended: \<open>result\<close> is that of \<open>pthread_join\<close>.\<close>

definition main_stop :: "'j host \<Rightarrow> env \<Rightarrow> bool \<Rightarrow> int \<Rightarrow> nds \<Rightarrow> 'j ending option" where
  "main_stop host env locked result s = termination_handler env (state_writer host) True locked result s"

section \<open>Lemmas: the start\<close>

lemma termination_unlocked: "termination_handler env files write False sig s \<noteq> Some Pthread_exit"
  by (simp add: termination_handler_def Let_def bind_eq_Some_conv)

lemma start_threads_running: "start_threads host env s = Some (Running s') \<Longrightarrow> s' = s"
  using termination_unlocked [of env "state_writer host" False _ s]
  by (auto simp: start_threads_def Let_def split: if_split_asm ending.split_asm) (metis ending.exhaust)+

section \<open>A gateway without address\<close>

text \<open>
  The program is meant to exit when the interface has no address. \<open>get_iface_ip\<close> returns the unspecified address
  instead, so the start goes on as if \<open>0.0.0.0\<close> had been configured.
\<close>

lemma main_loop_without_address:
  assumes "gw_ip (config s) = None" and "gw_interface (config s) = Some ifname" and "ip6 (config s) = 0"
    and "h_ifaddrs host = Some ifs" and "\<forall>(name, addr) \<in> set ifs. name = ifname \<longrightarrow> (\<nexists>a b c d. addr = Some (AF_INET a b c d))"
  shows "main_loop host env s = main_loop host env (s\<lparr>config := (config s)\<lparr>gw_ip := Some ''0.0.0.0''\<rparr>\<rparr>)"
proof -
  have "filter (\<lambda>(name, addr). name = ifname \<and> (\<exists>a b c d. addr = Some (AF_INET a b c d))) ifs = []"
    using assms(5) by (auto simp: filter_empty_conv)
  then have g: "get_iface_ip (h_ifaddrs host) ifname 0 = Some ''0.0.0.0''"
    using assms(4) by (simp add: get_iface_ip_def find_iface_ip_exact)
  have t: "config (set_started_time env s) = config s"
    "set_started_time env (s\<lparr>config := cfg\<rparr>) = (set_started_time env s)\<lparr>config := cfg\<rparr>" for cfg
    by (simp_all add: set_started_time_def c_time_def)
  show ?thesis using assms(1-3) g by (simp add: main_loop_def t Let_def)
qed

end
