(* ===== verification/Handlers.thy ===== *)
theory Handlers
  imports Ndsctl_Thread
begin

text \<open>
  What the three parts of the running gateway have in common: the web server, the control thread and the thread
  that checks the clients each run one handler at a time on the shared state. The locale \<open>gateway_handler\<close> is
  their contract: a handler keeps the set-up and the well-formedness of the client list, takes at most one new
  client id, and keeps the firewall in agreement with the list. The relation \<open>kept\<close> says that a handler
  authenticates nobody; it holds of every handler but two.
\<close>

section \<open>The set-up\<close>

text \<open>The state without clients, logs and clocks; \<open>ndsctl debuglevel\<close> is the only request that changes the rest.\<close>

definition statics :: "nds \<Rightarrow> nds" where
  "statics s = globals (s\<lparr>config := (config s)\<lparr>debuglevel := 0\<rparr>\<rparr>)"

lemma statics_eq: "statics s = (globals s)\<lparr>config := (config (globals s))\<lparr>debuglevel := 0\<rparr>\<rparr>"
  by (simp add: statics_def globals_def core_def)

lemma statics_globals: "globals s' = globals s \<Longrightarrow> statics s' = statics s"
  by (simp add: statics_eq)

lemma statics_fields:
  assumes "statics s' = statics s"
  shows "FW_MARK_PREAUTHENTICATED s' = FW_MARK_PREAUTHENTICATED s"
    "FW_MARK_AUTHENTICATED s' = FW_MARK_AUTHENTICATED s" "FW_MARK_BLOCKED s' = FW_MARK_BLOCKED s"
    "FW_MARK_TRUSTED s' = FW_MARK_TRUSTED s" "fw_quiet s' = fw_quiet s"
    "maxclients (config s') = maxclients (config s)"
  using globals_fields [OF assms [unfolded statics_def]]
    core_fields(2) [OF globals_fields(7) [OF assms [unfolded statics_def]]] by simp_all

lemma marks_distinct_statics: "statics s' = statics s \<Longrightarrow> marks_distinct s' = marks_distinct s"
  using statics_fields(1-4) [of s' s] by (simp add: marks_distinct_def)

section \<open>Handlers that take no client\<close>

text \<open>The list stays well formed and no id is taken.\<close>

definition tame :: "nds \<Rightarrow> nds \<Rightarrow> bool" where
  "tame s s' \<longleftrightarrow> statics s' = statics s \<and> client_id s' = client_id s
     \<and> (cl_inv s \<longrightarrow> cl_inv s' \<and> (ids_inv s \<longrightarrow> ids_inv s'))"

lemma tame_refl [simp]: "tame s s"
  by (simp add: tame_def)

lemma tame_trans [trans]: "tame s s' \<Longrightarrow> tame s' s'' \<Longrightarrow> tame s s''"
  by (auto simp: tame_def)

lemma same_clients_tame: "same_clients s s' \<Longrightarrow> globals s' = globals s \<Longrightarrow> tame s s'"
  using same_clients_inv [of s s'] statics_globals [of s' s] by (simp add: tame_def same_clients_def)

lemma same_but_log_tame: "same_but_log s s' \<Longrightarrow> tame s s'"
  by (rule same_clients_tame [OF same_but_log_clients same_but_log_globals])

lemma same_but_lists_tame: "same_but_lists s s' \<Longrightarrow> tame s s'"
  by (rule same_clients_tame [OF same_but_lists_frame(3,1)])

lemma delete_tame: "tame s (client_list_delete a s)"
  using statics_globals [OF globals_delete]
  by (simp add: tame_def delete_inv delete_ids_inv) (simp add: client_list_delete_def)

lemma update_client_tame:
  assumes "\<And>c. cl_mac (f c) = cl_mac c \<and> cl_ip (f c) = cl_ip c \<and> cl_id (f c) = cl_id c"
  shows "tame s (update_client a f s)"
  by (rule same_clients_tame [OF update_client_same [OF assms] globals_update_client])

lemma ticks_tame: "tame s (s\<lparr>time_calls := t\<rparr>)" "tame s (s\<lparr>authenticated_since_start := n\<rparr>)"
  by (auto intro: same_clients_tame simp: same_clients_def addrs_def keys_def ids_def)

lemma auth_change_state_client_id: "client_id (snd (auth_change_state env a st reason s)) = client_id s"
proof (rule auth_change_state_cases [of env a st reason s])
  fix c assume e: "auth_change_state env a st reason s
    = (0, update_client a (\<lambda>c. c\<lparr>fw_connection_state := st\<rparr>) (client_reset env a (deauth_cmds env c reason s)))"
  have "client_id (client_reset env a s1) = client_id s1" for s1
    by (cases "client_at s1 a") (simp_all add: client_reset_def reset_client_eq)
  with e show ?thesis using same_but_log_clients [OF auth_cmds_same(2)] by (simp add: same_clients_def)
next
  fix c assume e: "auth_change_state env a st reason s
    = (0, client_list_delete a (snd (auth_client_block env (cl_mac c) (deauth_cmds env c reason s))))"
  have "client_id (client_list_delete a s1) = client_id s1" for s1 by (simp add: client_list_delete_def)
  with e show ?thesis using same_but_log_clients [OF auth_cmds_same(2)]
      same_but_lists_frame(3) [OF auth_mac_ops_same(5)] by (simp add: same_clients_def)
qed (use same_but_log_clients [OF auth_cmds_same(1)] in \<open>simp_all add: same_clients_def\<close>)

lemma auth_change_state_tame: "tame s (snd (auth_change_state env a st reason s))"
  using auth_change_state_inv auth_change_state_ids_inv
  by (simp add: tame_def statics_globals [OF auth_change_state_globals] auth_change_state_client_id cl_inv_def)

lemma auth_ops_tame:
  "tame s (snd (auth_client_auth env i reason s))" "tame s (snd (auth_client_auth_nolock env i reason s))"
  "tame s (snd (auth_client_deauth env i reason s))"
  using auth_change_state_tame tame_trans [OF auth_change_state_tame ticks_tame(2)]
  by (simp_all add: auth_client_auth_def auth_client_auth_nolock_def auth_client_deauth_def case_prod_beta
      split: option.split)

section \<open>Handlers that authenticate nobody\<close>

text \<open>Every client that is authenticated afterwards was before, as the same client.\<close>

definition kept :: "nds \<Rightarrow> nds \<Rightarrow> bool" where
  "kept s s' \<longleftrightarrow> (\<forall>b c'. client_at s' b = Some c' \<and> fw_connection_state c' = FW_MARK_AUTHENTICATED s'
     \<longrightarrow> (\<exists>c. client_at s b = Some c \<and> fw_connection_state c = FW_MARK_AUTHENTICATED s \<and> same_identity c c'))"

lemma kept_refl [simp]: "kept s s"
  by (simp add: kept_def same_identity_def)

lemma kept_trans [trans]: "kept s s' \<Longrightarrow> kept s' s'' \<Longrightarrow> kept s s''"
  unfolding kept_def same_identity_def by metis

lemma keptI:
  assumes "statics s' = statics s"
    and "\<And>b c'. client_at s' b = Some c' \<Longrightarrow> fw_connection_state c' = FW_MARK_AUTHENTICATED s \<Longrightarrow> client_at s b = Some c'"
  shows "kept s s'"
  using assms(2) by (auto simp: kept_def statics_fields [OF assms(1)] same_identity_def)

lemma clients_kept: "clients s' = clients s \<Longrightarrow> statics s' = statics s \<Longrightarrow> kept s s'"
  by (rule keptI) (simp_all add: client_at_def)

lemma auth_change_state_kept:
  assumes m: "marks_distinct s" and st: "st \<noteq> FW_MARK_AUTHENTICATED s"
  shows "kept s (snd (auth_change_state env a st reason s))"
proof (rule keptI)
  show "statics (snd (auth_change_state env a st reason s)) = statics s"
    using auth_change_state_tame by (simp add: tame_def)
  fix b c' assume b: "client_at (snd (auth_change_state env a st reason s)) b = Some c'"
    and c': "fw_connection_state c' = FW_MARK_AUTHENTICATED s"
  show "client_at s b = Some c'"
  proof (cases "b = a")
    case True
    show ?thesis
    proof (rule auth_change_state_cases [of env a st reason s])
      fix c assume "client_at s a = Some c" "fw_connection_state c = FW_MARK_AUTHENTICATED s"
        "st = FW_MARK_PREAUTHENTICATED s" "FW_MARK_PREAUTHENTICATED s \<noteq> FW_MARK_AUTHENTICATED s"
      then show ?thesis using deauth_client_at [of s a c env reason] b c' True by (metis option.inject)
    qed (use b True st in \<open>simp_all add: delete_client_at\<close>)
  qed (use b in \<open>simp add: auth_change_state_local\<close>)
qed

lemma delete_kept: "kept s (client_list_delete a s)"
  by (rule keptI [OF statics_globals [OF globals_delete]]) (auto simp: delete_client_at split: if_split_asm)

lemma update_counters_kept: "kept s (update_client a (\<lambda>c. c\<lparr>counters := f (counters c)\<rparr>) s)"
  by (auto simp: kept_def client_at_update same_identity_def split: if_split_asm)

lemma only_counters_frame:
  assumes "only_counters s s'"
  shows "tame s s'" "kept s s'"
proof -
  have e: "s'\<lparr>clients := [], cmd_log := [], time_calls := 0\<rparr> = s\<lparr>clients := [], cmd_log := [], time_calls := 0\<rparr>"
    and c: "sessions s' = sessions s" using assms by (simp_all add: only_counters_def)
  have g: "globals s' = globals s" using arg_cong [OF e, of globals] by simp
  let ?z = "\<lambda>c. c\<lparr>counters := \<lparr>incoming = 0, outgoing = 0, last_updated = 0\<rparr>\<rparr>"
  have "addrs t = map fst (sessions t)" "keys t = map (\<lambda>(a, c). (cl_mac c, cl_ip c)) (sessions t)"
    "ids t = map (\<lambda>(a, c). cl_id c) (sessions t)" for t
    by (simp_all add: sessions_def addrs_def keys_def ids_def case_prod_beta)
  then have "same_clients s s'"
    using c arg_cong [OF e, of client_count] arg_cong [OF e, of client_id] arg_cong [OF e, of next_addr]
    by (simp add: same_clients_def)
  then show "tame s s'" by (rule same_clients_tame [OF _ g])
  have "map_of (sessions t) b = map_option ?z (client_at t b)" for t b
    by (simp add: sessions_def client_at_def map_of_map)
  from this [of s] this [of s'] have m: "map_option ?z (client_at s' b) = map_option ?z (client_at s b)" for b by (simp add: c)
  have eq: "\<exists>c. client_at s b = Some c \<and> ?z c = ?z c'" if "client_at s' b = Some c'" for b c'
    using m [of b] unfolding that by (cases "client_at s b") simp_all
  show "kept s s'" unfolding kept_def
  proof (intro allI impI, elim conjE)
    fix b c' assume "client_at s' b = Some c'" "fw_connection_state c' = FW_MARK_AUTHENTICATED s'"
    moreover from eq [OF this(1)] obtain c where "client_at s b = Some c" and z: "?z c = ?z c'" by blast
    moreover have "fw_connection_state c = fw_connection_state c'" "same_identity c c'"
      using arg_cong [OF z, of fw_connection_state] arg_cong [OF z, of cl_token] arg_cong [OF z, of cl_ip]
        arg_cong [OF z, of cl_mac] by (simp_all add: same_identity_def)
    ultimately show "\<exists>c. client_at s b = Some c \<and> fw_connection_state c = FW_MARK_AUTHENTICATED s \<and> same_identity c c'"
      using globals_fields(2) [OF g] by auto
  qed
qed

section \<open>The periodic check\<close>

lemma refresh_client_frame:
  "tame s (refresh_client env now a s)" "marks_distinct s \<Longrightarrow> kept s (refresh_client env now a s)"
proof -
  show "tame s (refresh_client env now a s)"
    by (rule refresh_client_cases [of env now a s]) (simp_all add: auth_change_state_tame delete_tame)
  assume m: "marks_distinct s"
  have "kept s (snd (auth_change_state env a st reason s))" if "st = FW_MARK_BLOCKED s \<or> st = FW_MARK_PREAUTHENTICATED s"
    for st reason using that m by (intro auth_change_state_kept) (auto simp: marks_distinct_def)
  then show "kept s (refresh_client env now a s)"
    by (simp add: refresh_client_def Let_def delete_kept split: option.split)
qed

lemma check_frame:
  assumes "thread_client_timeout_check env s = Some (wake, s')"
  shows "tame s s'" "marks_distinct s \<Longrightarrow> kept s s'"
proof -
  obtain s2 where s2: "fw_refresh_client_list env s = Some s2" "s' = s2\<lparr>time_calls := Suc (time_calls s2)\<rparr>"
    using assms by (auto simp: thread_client_timeout_check_def c_time_def)
  let ?s1 = "snd (iptables_fw_counters_update env (s\<lparr>time_calls := Suc (time_calls s)\<rparr>))"
  note s1 = only_counters_frame [OF timed_update_only_counters, of s env "Suc (time_calls s)"]
  have walk: "s2 = ?s1 \<or> client_walk (refresh_client env (time_of env (time_calls s))) (Suc (length (clients ?s1)))
      (client_get_first_client ?s1) ?s1 = Some s2"
    using s2(1) by (auto simp: fw_refresh_client_list_def c_time_def case_prod_beta split: if_split_asm)
  have by_walk: "I s2" if "I ?s1" "\<And>now a t. I t \<Longrightarrow> I (refresh_client env now a t)" for I
    using walk client_walk_invariant [of "refresh_client env (time_of env (time_calls s))" _ _ ?s1 s2 I] that by blast
  have "tame s s2"
    using s1(1) by (rule by_walk) (rule tame_trans [OF _ refresh_client_frame(1)])
  then show "tame s s'" unfolding s2(2) by (rule tame_trans [OF _ ticks_tame(1)])
  assume m: "marks_distinct s"
  let ?I = "\<lambda>t. tame s t \<and> kept s t"
  have "?I (refresh_client env now a t)" if "?I t" for now a t
  proof -
    have "marks_distinct t" using that m marks_distinct_statics [of t s] by (simp add: tame_def)
    with that refresh_client_frame [of t env now a] show ?thesis using tame_trans kept_trans by blast
  qed
  with by_walk [of ?I] s1 have "kept s s2" by blast
  also have "kept s2 (s2\<lparr>time_calls := Suc (time_calls s2)\<rparr>)"
    by (rule clients_kept) (simp_all add: statics_eq)
  finally show "kept s s'" unfolding s2(2) .
qed

section \<open>Requests on the control socket\<close>

lemma mac_command_frame:
  assumes "same_but_lists s s'"
  shows "tame s s'" "kept s s'"
  using same_but_lists_tame [OF assms] clients_kept [OF same_but_lists_frame(2) [OF assms]] by (simp_all add: tame_def)

lemma debuglevel_frame: "tame s (snd (ndsctl_debuglevel arg s))" "kept s (snd (ndsctl_debuglevel arg s))"
proof -
  obtain l where l: "snd (ndsctl_debuglevel arg s) = s\<lparr>config := (config s)\<lparr>debuglevel := l\<rparr>\<rparr>"
  proof
    show "snd (ndsctl_debuglevel arg s)
        = s\<lparr>config := (config s)\<lparr>debuglevel := debuglevel (config (snd (ndsctl_debuglevel arg s)))\<rparr>\<rparr>"
      by (auto simp: ndsctl_debuglevel_def set_debuglevel_def Let_def split: prod.split)
  qed
  have "statics (s\<lparr>config := (config s)\<lparr>debuglevel := l\<rparr>\<rparr>) = statics s" by (simp add: statics_def)
  then show "tame s (snd (ndsctl_debuglevel arg s))" "kept s (snd (ndsctl_debuglevel arg s))"
    unfolding l by (simp_all add: tame_def cl_inv_def ids_inv_def addrs_def keys_def ids_def clients_kept)
qed

lemma control_command_frame:
  "tame s (snd (ndsctl_auth env arg s))" "tame s (snd (ndsctl_deauth env arg s))"
  "marks_distinct s \<Longrightarrow> kept s (snd (ndsctl_deauth env arg s))"
  using auth_ops_tame(2,3) auth_change_state_kept
  by (simp_all add: ndsctl_auth_def ndsctl_deauth_def Let_def case_prod_beta auth_client_deauth_def marks_distinct_def
      split: option.split)

lemmas control_simps = ndsctl_block_def ndsctl_unblock_def ndsctl_allow_def ndsctl_unallow_def ndsctl_trust_def
  ndsctl_untrust_def case_prod_beta

lemma run_request_cases:
  obtains (report) "only_counters s (snd (run_request env ft request s))"
  | (lists) "same_but_lists s (snd (run_request env ft request s))"
  | (auth) "strncmp_eq (cstr request) ''auth'' 4" "snd (run_request env ft request s) = snd (ndsctl_auth env (cstr (drop 5 request)) s)"
  | (deauth) "snd (run_request env ft request s) = snd (ndsctl_deauth env (cstr (drop 7 request)) s)"
  | (debuglevel) "snd (run_request env ft request s) = snd (ndsctl_debuglevel (cstr (drop 11 request)) s)"
proof -
  define P where "P t \<longleftrightarrow> only_counters s t \<or> same_but_lists s t
    \<or> strncmp_eq (cstr request) ''auth'' 4 \<and> t = snd (ndsctl_auth env (cstr (drop 5 request)) s)
    \<or> t = snd (ndsctl_deauth env (cstr (drop 7 request)) s)
    \<or> t = snd (ndsctl_debuglevel (cstr (drop 11 request)) s)" for t
  have P: "P t" if "only_counters s t \<or> same_but_lists s t" for t using that by (auto simp: P_def)
  have report: "P (snd (ndsctl_status env ft s))" "P (snd (ndsctl_clients env s))" "P (snd (ndsctl_json env (cstr (drop 5 request)) s))"
    using reports_only_counters [of s env ft "cstr (drop 5 request)"] by (simp_all add: P)
  have lists: "P (snd (ndsctl_block env x s))" "P (snd (ndsctl_unblock env x s))" "P (snd (ndsctl_allow env x s))"
    "P (snd (ndsctl_unallow env x s))" "P (snd (ndsctl_trust env x s))" "P (snd (ndsctl_untrust env x s))" for x
    using auth_mac_ops_same by (simp_all add: P control_simps)
  have rest: "P s" "P (snd (ndsctl_deauth env (cstr (drop 7 request)) s))" "P (snd (ndsctl_debuglevel (cstr (drop 11 request)) s))"
    using P [of s] by (simp_all add: P_def)
  have auth: "strncmp_eq (cstr request) ''auth'' (length ''auth'') \<Longrightarrow> P (snd (ndsctl_auth env (cstr (drop 5 request)) s))"
    by (simp add: P_def numeral_eq_Suc)
  have "P (snd (run_request env ft request s))"
    unfolding run_request_def Let_def case_prod_beta
    by (simp only: if_distrib [where f = snd] snd_conv) (simp only: report lists rest split: if_split, use auth in blast)
  with that show thesis unfolding P_def by blast
qed

lemma run_request_tame: "tame s (snd (run_request env ft request s))"
  by (rule run_request_cases [of s env ft request])
    (simp_all add: only_counters_frame mac_command_frame control_command_frame debuglevel_frame)

lemma find_by_any_matches:
  assumes "client_list_find_by_any arg arg arg s = Some a" and "distinct (addrs s)"
  obtains c where "client_at s a = Some c" "arg \<in> {cl_token c, cl_ip c, cl_mac c}"
proof -
  have d: "distinct (map fst (clients s))" using assms(2) by (simp add: addrs_def)
  from assms(1) consider "client_list_find_by_token arg s = Some a" | "client_list_find_by_ip arg s = Some a"
    | "client_list_find_by_mac arg s = Some a"
    by (auto simp: client_list_find_by_any_def split: option.split_asm if_split_asm)
  then show thesis
    using by_token.finder_at [OF d] by_ip.finder_at [OF d] by_mac.finder_at [OF d] that by cases blast+
qed

lemma run_request_authenticates:
  assumes inv: "cl_inv s" "ids_inv s" "marks_distinct s"
    and b: "client_at (snd (run_request env ft request s)) b = Some c'" "fw_connection_state c' = FW_MARK_AUTHENTICATED s"
    and new: "\<nexists>c. client_at s b = Some c \<and> fw_connection_state c = FW_MARK_AUTHENTICATED s \<and> same_identity c c'"
  shows "strncmp_eq (cstr request) ''auth'' 4 \<and> cstr (drop 5 request) \<in> {cl_token c', cl_ip c', cl_mac c'}"
proof -
  have k: "\<not> kept s (snd (run_request env ft request s))"
    using b new statics_fields(2) [of "snd (run_request env ft request s)" s] run_request_tame [of s env ft request]
    by (auto simp: kept_def tame_def)
  let ?arg = "cstr (drop 5 request)"
  show ?thesis
  proof (rule run_request_cases [of s env ft request])
    assume r: "strncmp_eq (cstr request) ''auth'' 4" "snd (run_request env ft request s) = snd (ndsctl_auth env ?arg s)"
    have d: "distinct (addrs s)" "distinct (ids s)" using inv by (simp_all add: cl_inv_def ids_inv_def)
    have "snd (ndsctl_auth env ?arg s) \<noteq> s" using k r(2) by auto
    then obtain a where a: "client_list_find_by_any ?arg ?arg ?arg s = Some a"
      by (cases "client_list_find_by_any ?arg ?arg ?arg s") (auto simp: ndsctl_auth_def find_id_def)
    obtain c where c: "client_at s a = Some c" "?arg \<in> {cl_token c, cl_ip c, cl_mac c}"
      by (rule find_by_any_matches [OF a d(1)])
    have "snd (ndsctl_auth env ?arg s) = snd (auth_client_auth env (cl_id c) (Some ''ndsctl_auth'') s)"
      using find_id_client [OF inv(1,2) a c(1)] by (simp add: ndsctl_auth_def auth_client_auth_def case_prod_beta Let_def)
    note at = auth_client_auth_at [OF d c(1), where env = env and reason = "Some ''ndsctl_auth''", folded this]
    show ?thesis
    proof (cases "b = a")
      case True
      then show ?thesis using at(2) b(1) c(2) r by auto
    next
      case False
      then show ?thesis using at(1) b new r(2) by (auto simp: same_identity_def)
    qed
  qed (use k inv(3) in \<open>simp_all add: only_counters_frame mac_command_frame control_command_frame debuglevel_frame\<close>)
qed

section \<open>Web requests\<close>

lemma set_session_tame: "tame s (set_session a now vals s)"
  by (cases vals) (simp add: set_session_def update_client_tame)

lemma templated_page_tame: "tame s (snd (show_templated_page env fs req a page s))"
  using ticks_tame(1)
  by (simp add: show_templated_page_def replace_variables_def get_uptime_string_def c_time_def Let_def
      split: option.split)

lemma authenticate_client_tame: "tame s (snd (authenticate_client env req redirect_url a s))"
proof -
  let ?s = "s\<lparr>time_calls := Suc (time_calls s)\<rparr>"
  have fin: "tame s t \<Longrightarrow> tame s (snd (auth_client_auth env j reason t))"
    "tame s t \<Longrightarrow> tame s (set_session a now vals (snd (auth_client_auth env j reason t)))" for t now vals j reason
    using tame_trans auth_ops_tame(1) set_session_tame by blast+
  have b: "tame s (snd (do_binauth env req prog c vals ?s))" for prog c vals
    using tame_trans [OF ticks_tame(1) same_but_log_tame [OF do_binauth_same]] .
  show ?thesis
  proof (cases "binauth (config s)")
    case None
    then show ?thesis using fin [OF ticks_tame(1)] by (simp add: authenticate_client_def c_time_def Let_def case_prod_beta)
  next
    case (Some prog)
    then show ?thesis using b [of prog "client_of ?s a"] fin [OF b [of prog "client_of ?s a"]]
      by (simp add: authenticate_client_def c_time_def Let_def case_prod_beta split: option.split)
  qed
qed

lemma authenticated_tame: "tame s (snd (authenticated env fs req url a s))"
  using auth_ops_tame(3) templated_page_tame by (simp add: authenticated_def show_statuspage_def Let_def)

lemma preauthenticated_tame: "tame s (snd (preauthenticated env fs req url a s))"
  using authenticate_client_tame templated_page_tame by (simp add: preauthenticated_def show_splashpage_def Let_def)

text \<open>A request adds at most one client, and is otherwise tame.\<close>

lemma libmicrohttpd_cb_split:
  assumes "libmicrohttpd_cb env fs req s = Some (resp, s')"
  obtains (known) "tame s s'"
  | (new) s1 mac ip where "tame s s1" "tame (snd (client_list_add_client env mac ip s1)) s'"
  using assms
proof (cases rule: libmicrohttpd_cb_cases)
  case rejected
  then show thesis by (intro known) simp
next
  case (unknown ip)
  from same_but_log_tame [OF get_client_mac_frame(1) [OF unknown(2)]] show thesis by (rule known)
next
  case (full ip mac s1)
  show thesis
    by (rule new [OF same_but_log_tame [OF get_client_mac_frame(1) [OF full(2)]], of mac ip]) (use full(4) in \<open>simp add: add_client_def\<close>)
next
  case (handled buf ip mac s1 a s2)
  note s1 = same_but_log_tame [OF get_client_mac_frame(1) [OF handled(4)]]
  have "tame s2 s'" using handled(6) authenticated_tame preauthenticated_tame by (metis snd_conv)
  with handled(5) s1 show thesis
    by (elim disjE conjE) (auto intro: known tame_trans new [of s1 mac ip] simp: add_client_def)
qed

lemma add_client_frame:
  "statics (snd (client_list_add_client env mac ip s)) = statics s"
  "ids_inv s \<Longrightarrow> client_id s + 1 < 2 ^ 31 \<Longrightarrow> client_id (snd (client_list_add_client env mac ip s)) \<le> client_id s + 1"
proof -
  have "globals (snd (client_list_append env mac ip s)) = globals s"
    by (simp add: client_list_append_eq)
  then have "globals (snd (client_list_add_client env mac ip s)) = globals s"
    by (simp add: client_list_add_client_def split: option.split)
  then show "statics (snd (client_list_add_client env mac ip s)) = statics s" by (rule statics_globals)
  assume "ids_inv s" "client_id s + 1 < 2 ^ 31"
  then have "to_int32 (client_id s + 1) = client_id s + 1" by (simp add: to_int32_id is_int32_def ids_inv_def)
  then show "client_id (snd (client_list_add_client env mac ip s)) \<le> client_id s + 1"
    by (simp add: client_list_add_client_def client_list_append_eq split: option.split)
qed

section \<open>The contract of a handler\<close>

locale gateway_handler =
  fixes run :: "env \<Rightarrow> nds \<Rightarrow> nds \<Rightarrow> bool"
  assumes run_statics: "run env s s' \<Longrightarrow> statics s' = statics s"
    and run_inv: "run env s s' \<Longrightarrow> cl_inv s \<Longrightarrow> is_int32 (maxclients (config s)) \<Longrightarrow> cl_inv s'"
    and run_ids: "run env s s' \<Longrightarrow> cl_inv s \<Longrightarrow> is_int32 (maxclients (config s)) \<Longrightarrow> ids_inv s \<Longrightarrow>
      client_id s + 1 < 2 ^ 31 \<Longrightarrow> ids_inv s' \<and> client_id s' \<le> client_id s + 1"
    and run_rules: "run env s s' \<Longrightarrow> shell_ok env \<Longrightarrow> gateway_inv s \<Longrightarrow> gateway_inv s'"
begin

text \<open>Any number of runs, one after the other.\<close>

lemma runs_statics: "(run env ^^ n) s s' \<Longrightarrow> statics s' = statics s"
  by (induction n arbitrary: s') (auto dest: run_statics)

lemma runs_inv:
  assumes "(run env ^^ n) s s'" and "cl_inv s" and "is_int32 (maxclients (config s))"
  shows "cl_inv s'"
  using assms(1)
proof (induction n arbitrary: s')
  case (Suc n)
  then obtain t where t: "(run env ^^ n) s t" "run env t s'" by auto
  have "is_int32 (maxclients (config t))" using assms(3) statics_fields(6) [OF runs_statics [OF t(1)]] by simp
  with run_inv [OF t(2) Suc.IH [OF t(1)]] show ?case .
qed (simp add: assms(2))

lemma runs_ids:
  assumes "(run env ^^ n) s s'" and "cl_inv s" and "is_int32 (maxclients (config s))" and "ids_inv s"
    and "client_id s + int n < 2 ^ 31"
  shows "ids_inv s' \<and> client_id s' \<le> client_id s + int n"
  using assms(1,5)
proof (induction n arbitrary: s')
  case (Suc n)
  then obtain t where t: "(run env ^^ n) s t" "run env t s'" by auto
  from Suc.IH [OF t(1)] Suc.prems(2) have i: "ids_inv t" "client_id t \<le> client_id s + int n" by simp_all
  have "is_int32 (maxclients (config t))" using assms(3) statics_fields(6) [OF runs_statics [OF t(1)]] by simp
  from run_ids [OF t(2) runs_inv [OF t(1) assms(2,3)] this i(1)] i(2) Suc.prems(2) show ?case by auto
qed (simp add: assms(4))

lemma runs_rules: "(run env ^^ n) s s' \<Longrightarrow> shell_ok env \<Longrightarrow> gateway_inv s \<Longrightarrow> gateway_inv s'"
  by (induction n arbitrary: s') (auto dest: run_rules)

end

text \<open>A handler that takes no client satisfies the contract.\<close>

locale tame_handler =
  fixes run :: "env \<Rightarrow> nds \<Rightarrow> nds \<Rightarrow> bool"
  assumes tame_run: "run env s s' \<Longrightarrow> tame s s'"
    and tame_rules: "run env s s' \<Longrightarrow> shell_ok env \<Longrightarrow> gateway_inv s \<Longrightarrow> gateway_inv s'"

sublocale tame_handler \<subseteq> gateway_handler run
  using tame_run tame_rules by unfold_locales (auto simp: tame_def)

definition web_run :: "env \<Rightarrow> nds \<Rightarrow> nds \<Rightarrow> bool" where
  "web_run env s s' \<longleftrightarrow> (\<exists>fs req resp. libmicrohttpd_cb env fs req s = Some (resp, s'))"

definition control_run :: "env \<Rightarrow> nds \<Rightarrow> nds \<Rightarrow> bool" where
  "control_run env s s' \<longleftrightarrow> (\<exists>ft reads out. ndsctl_handler env ft reads s = Some (out, s'))"

definition check_run :: "env \<Rightarrow> nds \<Rightarrow> nds \<Rightarrow> bool" where
  "check_run env s s' \<longleftrightarrow> (\<exists>wake. thread_client_timeout_check env s = Some (wake, s'))"

lemma control_run_request: "control_run env s s' \<Longrightarrow> \<exists>ft request. s' = snd (run_request env ft request s)"
  by (auto simp: control_run_def ndsctl_handler_def split: option.split_asm) (metis snd_conv)

interpretation control: tame_handler control_run
  by unfold_locales (auto dest!: control_run_request intro: run_request_tame run_request_gateway_inv)

interpretation check: tame_handler check_run
proof
  fix env s s' assume "check_run env s s'"
  then obtain wake where w: "thread_client_timeout_check env s = Some (wake, s')" by (auto simp: check_run_def)
  from check_frame(1) [OF this] show "tame s s'" .
  assume "shell_ok env" "gateway_inv s"
  obtain s1 where "fw_refresh_client_list env s = Some s1" "s' = s1\<lparr>time_calls := Suc (time_calls s1)\<rparr>"
    using w by (auto simp: thread_client_timeout_check_def c_time_def)
  with refresh_gateway_inv [OF \<open>shell_ok env\<close> \<open>gateway_inv s\<close>] time_gateway_inv show "gateway_inv s'" by blast
qed

interpretation web: gateway_handler web_run
proof
  fix env s s' assume "web_run env s s'"
  then obtain fs req resp where cb: "libmicrohttpd_cb env fs req s = Some (resp, s')" by (auto simp: web_run_def)
  show "statics s' = statics s"
    by (rule libmicrohttpd_cb_split [OF cb]) (simp_all add: tame_def add_client_frame)
  have add: "cl_inv (snd (client_list_add_client env mac ip s1))"
    if "cl_inv s" "is_int32 (maxclients (config s))" "tame s s1" for s1 mac ip
    using that add_client_inv [of s1] statics_fields(6) [of s1 s] by (simp add: tame_def)
  show "cl_inv s'" if i: "cl_inv s" "is_int32 (maxclients (config s))"
    by (rule libmicrohttpd_cb_split [OF cb]) (use i add [OF i] in \<open>simp_all add: tame_def\<close>)
  show "ids_inv s' \<and> client_id s' \<le> client_id s + 1"
    if i: "cl_inv s" "is_int32 (maxclients (config s))" and ids: "ids_inv s" "client_id s + 1 < 2 ^ 31"
  proof (rule libmicrohttpd_cb_split [OF cb])
    fix s1 mac ip assume s1: "tame s s1" and s': "tame (snd (client_list_add_client env mac ip s1)) s'"
    have j: "ids_inv s1" "client_id s1 + 1 < 2 ^ 31" "client_id s1 = client_id s" using s1 i(1) ids by (simp_all add: tame_def)
    from add_client_ids_inv [OF j(1,2)] add_client_frame(2) [OF j(1,2)] add [OF i s1] s' j(3) show ?thesis
      by (simp add: tame_def)
  qed (use i ids in \<open>simp add: tame_def\<close>)
  show "shell_ok env \<Longrightarrow> gateway_inv s \<Longrightarrow> gateway_inv s'" by (rule libmicrohttpd_cb_gateway_inv [OF _ _ cb])
qed

end
