(* ===== verification/Setup.thy ===== *)
theory Setup
  imports Nds_Main Handlers
begin

text \<open>
  The firewall while the gateway starts and ends. The first part shows that the commands of
  \<open>iptables_fw_init\<close> and \<open>iptables_fw_destroy\<close> never touch the rules of clients, and that a successful start
  establishes the invariant of theory \<open>Auth_Rules\<close>; the second part shows that the set-up
  succeeds when its commands do, and runs \<open>main\<close> on a small configuration file.
\<close>

section \<open>Commands that set up and tear down\<close>

text \<open>A command that never inserts or deletes a rule of a client, in any state.\<close>

definition plain :: "string \<Rightarrow> bool" where
  "plain cmd \<longleftrightarrow> (\<forall>s. neutral s cmd)"

definition plain_log :: "nds \<Rightarrow> bool" where
  "plain_log s \<longleftrightarrow> list_all (\<lambda>(cmd, rc). plain cmd) (cmd_log s)"

definition client_verbs :: "string list" where
  "client_verbs = [''-t mangle -A ndsOUT'', ''-t mangle -A ndsINC'', ''-t mangle -D ndsOUT'', ''-t mangle -D ndsINC'']"

definition plain_args :: "string \<Rightarrow> bool" where
  "plain_args c \<longleftrightarrow> list_all (\<lambda>p. \<not> prefix p c \<and> \<not> prefix c p) client_verbs"

lemma plain_cmdline: "plain_args c \<Longrightarrow> plain (iptables_cmdline s c)"
proof -
  assume c: "plain_args c"
  have "iptables_cmdline s c \<noteq> rule_cmd v r s'" if "client_chain r" and v: "v = ''-A'' \<or> v = ''-D''" for v r s'
  proof
    assume eq: "iptables_cmdline s c = rule_cmd v r s'"
    let ?x = "\<lambda>s. if fw_quiet s then '' > /dev/null 2>&1'' else []"
    define q q' where "q = ?x s" and "q' = ?x s'"
    have e: "c @ q = ''-t mangle '' @ v @ '' '' @ r @ q'"
      using eq unfolding rule_cmd_def iptables_cmdline_def q_def [symmetric] q'_def [symmetric]
      by (cases "ip6 (config s) = 0"; cases "ip6 (config s') = 0") simp_all
    define ch r' where "ch = take 6 r" and "r' = drop 6 r"
    have r: "r = ch @ r'" "ch = ''ndsOUT'' \<or> ch = ''ndsINC''"
      using that(1) by (auto simp: ch_def r'_def client_chain_def prefix_def)
    define p where "p = ''-t mangle '' @ v @ '' '' @ ch"
    have p: "p \<in> set client_verbs" "prefix p (''-t mangle '' @ v @ '' '' @ r @ q')"
      using v r(2) by (auto simp: p_def client_verbs_def r(1))
    have "prefix c (''-t mangle '' @ v @ '' '' @ r @ q')" by (metis e prefixI)
    with p(2) have "prefix p c \<or> prefix c p" by (rule prefix_same_cases)
    with c p(1) show False by (auto simp: plain_args_def list_all_iff)
  qed
  then show ?thesis by (auto simp: plain_def neutral_def)
qed

lemma plain_other: "cmd = c # cs \<Longrightarrow> c \<noteq> CHR ''i'' \<Longrightarrow> plain cmd"
  using neutral_other by (auto simp: plain_def)

lemma plain_no_rules:
  assumes "plain_log s" and "client_chain r"
  shows "rule_net s r = 0"
proof -
  have "(rule_cmd v r s, 0) \<notin> set (cmd_log s)" if "v = ''-A'' \<or> v = ''-D''" for v
  proof
    assume "(rule_cmd v r s, 0) \<in> set (cmd_log s)"
    then have "neutral s (rule_cmd v r s)" using assms(1) by (auto simp: plain_log_def plain_def list_all_iff)
    then show False using assms(2) that by (auto simp: neutral_def)
  qed
  then show ?thesis by (simp add: rule_net_def log_net_def count_list_0_iff)
qed

text \<open>A part of the start or the end: it keeps the configuration and the clients and adds plain commands to the log.\<close>

definition setup_step :: "nds \<Rightarrow> nds \<Rightarrow> bool" where
  "setup_step s s' \<longleftrightarrow> clients s' = clients s \<and> client_count s' = client_count s \<and> next_addr s' = next_addr s
     \<and> client_id s' = client_id s \<and> config s' = config s
     \<and> (\<exists>l. cmd_log s' = cmd_log s @ l \<and> list_all (\<lambda>(cmd, rc). plain cmd) l)"

lemma setup_refl [simp]: "setup_step s s"
  by (simp add: setup_step_def)

lemma setup_trans: "setup_step s s' \<Longrightarrow> setup_step s' s'' \<Longrightarrow> setup_step s s''"
  by (fastforce simp: setup_step_def)

lemma setup_fields [simp]:
  "setup_step s (s\<lparr>fw_quiet := b\<rparr>)" "setup_step s (s\<lparr>markop := x\<rparr>)" "setup_step s (s\<lparr>markmask := x\<rparr>)"
  "setup_step s (s\<lparr>FW_MARK_PREAUTHENTICATED := m\<rparr>)" "setup_step s (s\<lparr>FW_MARK_MASK := m\<rparr>)"
  "setup_step s (s\<lparr>FW_MARK_BLOCKED := m, FW_MARK_TRUSTED := m', FW_MARK_AUTHENTICATED := m''\<rparr>)"
  by (simp_all add: setup_step_def plain_log_def)

lemma popen_setup: "plain cmd \<Longrightarrow> setup_step s (snd (popen env cmd s))"
  by (simp add: popen_def setup_step_def split: option.split prod.split)

lemma execute_setup: "plain cmd \<Longrightarrow> setup_step s (snd (execute env cmd s))"
  using popen_setup [of cmd s env] by (simp add: execute_def case_prod_beta)

lemma execute_ret_setup: "plain cmd \<Longrightarrow> setup_step s (snd (execute_ret env n cmd s))"
  using popen_setup [of cmd s env] by (simp add: execute_ret_def case_prod_beta)

lemma popen_read_setup: "plain cmd \<Longrightarrow> setup_step s (snd (popen_read env cmd s))"
  using popen_setup [of cmd s env] by (simp add: popen_read_def case_prod_beta)

lemma execute_all_setup: "list_all plain cmds \<Longrightarrow> setup_step s (snd (execute_all env cmds rc s))"
proof (induction cmds arbitrary: rc s)
  case (Cons cmd cmds)
  then show ?case
    using setup_trans [OF execute_setup [of cmd s env] Cons.IH] by (simp add: case_prod_beta)
qed simp

lemma do_command_setup: "plain_args c \<Longrightarrow> setup_step s (snd (iptables_do_command env c s))"
proof -
  assume "plain_args c"
  then have p: "plain (iptables_cmdline s c)" by (rule plain_cmdline)
  have "setup_step s (snd (do_command_loop env cmd n rc s))" if "plain cmd" for cmd n rc s
  proof (induction n arbitrary: rc s)
    case (Suc n)
    then show ?case using execute_setup [OF that, of s env] setup_trans [OF execute_setup [OF that] Suc.IH]
      by (simp add: case_prod_beta)
  qed simp
  with p show ?thesis by (simp add: iptables_do_command_def)
qed

lemma iptables_all_setup: "list_all plain_args cmds \<Longrightarrow> setup_step s (snd (iptables_all env cmds rc s))"
proof (induction cmds arbitrary: rc s)
  case (Cons cmd cmds)
  then show ?case
    using setup_trans [OF do_command_setup [of cmd s env] Cons.IH] by (simp add: case_prod_beta)
qed simp

section \<open>Tearing down\<close>

lemma plain_args_table:
  "plain_args (''-t nat '' @ x)" "plain_args (''-t filter '' @ x)"
  "plain_args (''-t mangle -F '' @ x)" "plain_args (''-t mangle -X '' @ x)" "plain_args (''-t mangle -N '' @ x)"
  "plain_args (''-t mangle -I '' @ x)" "plain_args (''-t mangle -D P'' @ x)"
  "plain_args (''-t mangle -A ndsB'' @ x)" "plain_args (''-t mangle -A ndsT'' @ x)"
  by (simp_all add: plain_args_def client_verbs_def)

lemma destroy_mention_setup:
  "iptables_fw_destroy_mention env table chain mention s = Some r \<Longrightarrow>
   (\<forall>x. plain_args (''-t '' @ table @ '' -D '' @ chain @ x)) \<longrightarrow> setup_step s (snd r)"
proof (erule iptables_fw_destroy_mention.raw_induct [rotated])
  fix f env table chain mention s and r :: "int \<times> nds"
  assume IH: "\<And>env table chain mention s r. f env table chain mention s = Some r \<Longrightarrow>
      (\<forall>x. plain_args (''-t '' @ table @ '' -D '' @ chain @ x)) \<longrightarrow> setup_step s (snd r)"
    and body: "(let cmd = (if ip6 (config s) \<noteq> 0 then ''ip6tables'' else ''iptables'') @ '' -t '' @ table @ '' -L '' @ chain
            @ '' -n --line-numbers -v'';
          (out, s1) = popen_read env cmd s
      in case Option.bind (Option.bind out skip_two_lines) (first_mention mention) of
           None \<Rightarrow> Some (-1, s1)
         | Some rulenum \<Rightarrow>
             (let s2 = snd (iptables_do_command env (''-t '' @ table @ '' -D '' @ chain @ '' '' @ rulenum) s1)
              in Option.bind (f env table chain mention s2) (\<lambda>(_, s3). Some (0, s3)))) = Some r"
  let ?cmd = "(if ip6 (config s) \<noteq> 0 then ''ip6tables'' else ''iptables'') @ '' -t '' @ table @ '' -L '' @ chain @ '' -n --line-numbers -v''"
  have "plain ?cmd" by (simp add: plain_def neutral_def rule_cmd_def iptables_cmdline_def)
  then have s1: "setup_step s (snd (popen_read env ?cmd s))" by (rule popen_read_setup)
  show "(\<forall>x. plain_args (''-t '' @ table @ '' -D '' @ chain @ x)) \<longrightarrow> setup_step s (snd r)"
  proof
    assume args: "\<forall>x. plain_args (''-t '' @ table @ '' -D '' @ chain @ x)"
    obtain out s1 where p: "popen_read env ?cmd s = (out, s1)" by (cases "popen_read env ?cmd s")
    show "setup_step s (snd r)"
    proof (cases "Option.bind (Option.bind out skip_two_lines) (first_mention mention)")
      case None
      then have "r = (-1, s1)" using body p by (simp add: Let_def)
      then show ?thesis using s1 p by simp
    next
      case (Some rulenum)
      let ?s2 = "snd (iptables_do_command env (''-t '' @ table @ '' -D '' @ chain @ '' '' @ rulenum) s1)"
      from body p Some obtain r' where r': "f env table chain mention ?s2 = Some r'" "snd r = snd r'"
        by (auto simp: Let_def bind_eq_Some_conv)
      have "setup_step s1 ?s2" using args by (intro do_command_setup) blast
      with s1 p IH [OF r'(1)] args r'(2) show ?thesis by (auto intro: setup_trans)
    qed
  qed
qed

lemma destroy_mentions_setup:
  assumes "destroy_mentions env ms s = Some s'"
    and "list_all (\<lambda>(table, chain, mention). \<forall>x. plain_args (''-t '' @ table @ '' -D '' @ chain @ x)) ms"
  shows "setup_step s s'"
proof -
  let ?f = "\<lambda>(table, chain, mention) r. Option.bind r (\<lambda>s. map_option snd (iptables_fw_destroy_mention env table chain mention s))"
  have none: "fold ?f ms None = None" for ms by (induction ms) auto
  have "setup_step s s'" if "fold ?f ms (Some s) = Some s'"
      "list_all (\<lambda>(table, chain, mention). \<forall>x. plain_args (''-t '' @ table @ '' -D '' @ chain @ x)) ms" for ms s
    using that
  proof (induction ms arbitrary: s)
    case (Cons m ms)
    obtain table chain mention where m: "m = (table, chain, mention)" by (cases m)
    then obtain r where r: "iptables_fw_destroy_mention env table chain mention s = Some r" "fold ?f ms (Some (snd r)) = Some s'"
      using Cons.prems(1) none by (cases "iptables_fw_destroy_mention env table chain mention s") auto
    have "setup_step s (snd r)" using destroy_mention_setup [OF r(1)] Cons.prems(2) m by simp
    with Cons.IH [OF r(2)] Cons.prems(2) show ?case by (auto intro: setup_trans)
  qed simp
  with assms show ?thesis by (simp add: destroy_mentions_def)
qed

lemma flush_plain: "t = ''mangle'' \<or> t = ''nat'' \<or> t = ''filter'' \<Longrightarrow> list_all plain_args (flush_cmds t cs)"
  by (auto simp: flush_cmds_def list_all_iff plain_args_def client_verbs_def)

lemma plain_link: "plain (''ip link '' @ x)"
  by (simp add: plain_def neutral_def rule_cmd_def iptables_cmdline_def)

lemma tc_attach_setup:
  "setup_step s (snd (tc_attach_upload_qdisc env dev ifb l s))" "setup_step s (snd (tc_attach_download_qdisc env dev l s))"
  unfolding tc_attach_upload_qdisc_def tc_attach_download_qdisc_def Let_def
  by (intro setup_trans [OF execute_setup setup_trans [OF execute_setup execute_all_setup]]
      setup_trans [OF execute_setup execute_all_setup]; simp add: plain_other)+

lemma tc_init_setup: "setup_step s (snd (tc_init_tc env s))"
proof -
  let ?r = "if download_limit (config s) > 0
     then tc_attach_download_qdisc env (show_str (gw_interface (config s))) (download_limit (config s)) s else (0, s)"
  have 1: "setup_step s (snd ?r)" using tc_attach_setup(2) by simp
  have 2: "setup_step s' (snd (execute env (''ip link set '' @ x) s'))" for s' x
    using plain_link [of "''set '' @ x"] by (intro execute_setup) simp
  show ?thesis
    using 1 setup_trans [OF 1 2] setup_trans [OF 1 setup_trans [OF 2 tc_attach_setup(1)]]
    by (simp add: tc_init_tc_def Let_def case_prod_beta)
qed

lemma tc_destroy_setup: "setup_step s (snd (tc_destroy_tc env s))"
  unfolding tc_destroy_tc_def Let_def
  using plain_link [of "''set '' @ _"] by (intro execute_all_setup) (simp add: plain_other)

lemma fw_destroy_setup:
  assumes "iptables_fw_destroy env s = Some s'"
  shows "setup_step s s'"
proof -
  let ?mangle = "flush_cmds ''mangle'' [''ndsTRU'', ''ndsBLK'', ''ndsALW'', ''ndsOUT'', ''ndsINC'']"
  let ?filter = "flush_cmds ''filter'' [''ndsRTR'', ''ndsNET'', ''ndsAUT'', ''ndsTRU'', ''ndsTRT'']"
  let ?s1 = "if traffic_control (config s) \<noteq> 0 then snd (tc_destroy_tc env (s\<lparr>fw_quiet := True\<rparr>)) else s\<lparr>fw_quiet := True\<rparr>"
  have 1: "setup_step s ?s1" using setup_trans [OF setup_fields(1) tc_destroy_setup] by simp
  from assms obtain s2 where s2: "destroy_mentions env [(''mangle'', ''PREROUTING'', ''ndsTRU''), (''mangle'', ''PREROUTING'', ''ndsBLK''),
      (''mangle'', ''PREROUTING'', ''ndsALW''), (''mangle'', ''PREROUTING'', ''ndsOUT''), (''mangle'', ''POSTROUTING'', ''ndsINC'')] ?s1 = Some s2"
    by (auto simp: iptables_fw_destroy_def Let_def bind_eq_Some_conv)
  have 2: "setup_step ?s1 s2" by (rule destroy_mentions_setup [OF s2]) (simp add: plain_args_def client_verbs_def)
  let ?s3 = "snd (iptables_all env ?mangle 0 s2)"
  have 3: "setup_step s2 ?s3" by (intro iptables_all_setup flush_plain) simp
  from assms s2 obtain s4 where s4: "(if ip6 (config ?s3) = 0 then
       do { s \<leftarrow> destroy_mentions env [(''nat'', ''PREROUTING'', ''ndsOUT'')] ?s3;
            Some (snd (iptables_all env (flush_cmds ''nat'' [''ndsOUT'']) 0 s)) }
       else Some ?s3) = Some s4"
    and rest: "do { s \<leftarrow> destroy_mentions env [(''filter'', ''INPUT'', ''ndsRTR''), (''filter'', ''FORWARD'', ''ndsNET'')] s4;
       let s = snd (iptables_all env ?filter 0 s); Some (s\<lparr>fw_quiet := False\<rparr>) } = Some s'"
    by (simp add: iptables_fw_destroy_def Let_def bind_eq_Some_conv) blast
  have 4: "setup_step ?s3 s4"
  proof (cases "ip6 (config ?s3) = 0")
    case True
    with s4 obtain s5 where s5: "destroy_mentions env [(''nat'', ''PREROUTING'', ''ndsOUT'')] ?s3 = Some s5"
        "s4 = snd (iptables_all env (flush_cmds ''nat'' [''ndsOUT'']) 0 s5)" by (auto simp: bind_eq_Some_conv)
    have "setup_step ?s3 s5" by (rule destroy_mentions_setup [OF s5(1)]) (simp add: plain_args_def client_verbs_def)
    moreover have "setup_step s5 s4" unfolding s5(2) by (intro iptables_all_setup flush_plain) simp
    ultimately show ?thesis by (rule setup_trans)
  qed (use s4 in simp)
  from rest obtain s6 where s6: "destroy_mentions env [(''filter'', ''INPUT'', ''ndsRTR''), (''filter'', ''FORWARD'', ''ndsNET'')] s4 = Some s6"
      "s' = (snd (iptables_all env ?filter 0 s6))\<lparr>fw_quiet := False\<rparr>" by (auto simp: Let_def bind_eq_Some_conv)
  have 5: "setup_step s4 s6" by (rule destroy_mentions_setup [OF s6(1)]) (simp add: plain_args_def client_verbs_def)
  have 6: "setup_step s6 s'" unfolding s6(2) by (rule setup_trans [OF iptables_all_setup [OF flush_plain] setup_fields(1)]) simp
  from setup_trans [OF 1 setup_trans [OF 2 setup_trans [OF 3 setup_trans [OF 4 setup_trans [OF 5 6]]]]] show ?thesis .
qed

section \<open>Setting up\<close>

text \<open>A part of the set-up that only runs plain commands.\<close>

definition quiet_step :: "nds \<Rightarrow> nds \<Rightarrow> bool" where
  "quiet_step s s' \<longleftrightarrow> same_but_log s s' \<and> setup_step s s'"

lemma quiet_trans: "quiet_step s s' \<Longrightarrow> quiet_step s' s'' \<Longrightarrow> quiet_step s s''"
  using same_but_log_trans setup_trans by (auto simp: quiet_step_def)

lemma quiet_iptables_all: "list_all plain_args cmds \<Longrightarrow> quiet_step s (snd (iptables_all env cmds rc s))"
  by (simp add: quiet_step_def iptables_all_same iptables_all_setup)

lemma compiled_plain:
  "t = ''nat'' \<or> t = ''filter'' \<Longrightarrow> list_all plain_args (append_ruleset_cmds cfg t rs chain)"
proof -
  have t: "take (MAX_BUF - 1) (''-t n'' @ x) = ''-t n'' @ take (MAX_BUF - 5) x" "take (MAX_BUF - 1) (''-t f'' @ x) = ''-t f'' @ take (MAX_BUF - 5) x"
    for x by (simp_all add: numeral_eq_Suc)
  have p: "plain_args (''-t n'' @ x)" "plain_args (''-t f'' @ x)" for x by (simp_all add: plain_args_def client_verbs_def)
  assume "t = ''nat'' \<or> t = ''filter''"
  then have "plain_args (iptables_compile t chain rule)" for rule
  proof
    assume "t = ''nat''"
    then show ?thesis using p(1) unfolding iptables_compile_def by (simp only:) (use t(1) p(1) in fastforce)
  next
    assume "t = ''filter''"
    then show ?thesis using p(2) unfolding iptables_compile_def by (simp only:) (use t(2) p(2) in fastforce)
  qed
  then show ?thesis by (simp add: append_ruleset_cmds_def list_all_iff)
qed

lemma plain_heads:
  "plain_args (CHR ''-'' # CHR ''t'' # CHR '' '' # CHR ''n'' # x)" "plain_args (CHR ''-'' # CHR ''t'' # CHR '' '' # CHR ''f'' # x)"
  by (simp_all add: plain_args_def client_verbs_def)

lemma mark_rule_plain: "plain_args (mark_rule ''nat'' ch m s v)" "plain_args (mark_rule ''filter'' ch m s v)"
  by (simp_all add: mark_rule_def plain_heads)

lemma mangle_plain: "list_all plain_args (mangle_cmds s)"
  by (auto simp: mangle_cmds_def Let_def list_all_iff trust_mac_cmd_def plain_args_def client_verbs_def)

lemma mechanism_plain: "mac_mechanism_cmds s = Some cmds \<Longrightarrow> list_all plain_args cmds"
  by (auto simp: mac_mechanism_cmds_def list_all_iff block_mac_cmd_def allow_mac_cmd_def plain_args_def client_verbs_def
      split: if_split_asm)

lemma nat_plain: "list_all plain_args (nat_cmds s)"
  using compiled_plain [of "''nat''"] by (simp add: nat_cmds_def Let_def mark_rule_plain plain_heads)

lemma ruleset_plain: "list_all plain_args (ruleset_chain_cmds s chain mark rs own icmp)"
  using compiled_plain [of "''filter''"] by (simp add: ruleset_chain_cmds_def mark_rule_plain plain_heads)

lemma filter_plain: "list_all plain_args (filter_input_cmds s icmp)" "list_all plain_args (filter_forward_cmds s icmp)"
  using compiled_plain [of "''filter''"]
  by (simp_all add: filter_input_cmds_def filter_forward_cmds_def Let_def mark_rule_plain plain_heads ruleset_plain)

lemma tc_init_quiet: "quiet_step s (snd (tc_init_tc env s))"
proof -
  have d: "same_but_log s (snd (tc_attach_download_qdisc env dev l s))" for dev l s
    unfolding tc_attach_download_qdisc_def Let_def
    by (intro same_but_log_trans [OF execute_same execute_all_same])
  have u: "same_but_log s (snd (tc_attach_upload_qdisc env dev ifb l s))" for dev ifb l s
    unfolding tc_attach_upload_qdisc_def Let_def
    by (intro same_but_log_trans [OF execute_same same_but_log_trans [OF execute_same execute_all_same]])
  let ?r = "if download_limit (config s) > 0
     then tc_attach_download_qdisc env (show_str (gw_interface (config s))) (download_limit (config s)) s else (0, s)"
  have 1: "same_but_log s (snd ?r)" using d by simp
  have "same_but_log s (snd (tc_init_tc env s))"
    using 1 same_but_log_trans [OF 1 execute_same] same_but_log_trans [OF 1 same_but_log_trans [OF execute_same u]]
    by (simp add: tc_init_tc_def Let_def case_prod_beta)
  then show ?thesis by (simp add: quiet_step_def tc_init_setup)
qed

text \<open>What the firewall globals are once the marks are set.\<close>

definition four_marks :: "nds \<Rightarrow> bool" where
  "four_marks s \<longleftrightarrow>
     distinct [FW_MARK_PREAUTHENTICATED s, FW_MARK_BLOCKED s, FW_MARK_TRUSTED s, FW_MARK_AUTHENTICATED s]"

definition marks_set :: "nds \<Rightarrow> bool" where
  "marks_set s \<longleftrightarrow> four_marks s \<and> length (markop s) \<le> 16 \<and> \<not> fw_quiet s"

lemma marks_setD:
  assumes "marks_set s"
  shows "marks_distinct s" "FW_MARK_BLOCKED s \<noteq> FW_MARK_PREAUTHENTICATED s" "\<not> fw_quiet s" "length (markop s) \<le> 16"
  using assms by (auto simp: marks_set_def four_marks_def marks_distinct_def)

lemma quiet_marks: "quiet_step s s' \<Longrightarrow> marks_set s' = marks_set s"
proof -
  assume "quiet_step s s'"
  then have "globals s' = globals s" by (intro same_but_log_globals) (simp add: quiet_step_def)
  from globals_fields [OF this] show ?thesis by (simp add: marks_set_def four_marks_def)
qed

lemma masking_setup:
  assumes "four_marks s"
  shows "setup_step s (snd (iptables_check_mark_masking env s)) \<and> marks_set (snd (iptables_check_mark_masking env s))"
proof -
  let ?I = "\<lambda>s'. setup_step s s' \<and> four_marks s'"
  have cmd: "?I (snd (iptables_do_command env c s'))" "markop (snd (iptables_do_command env c s')) = markop s'"
    if "?I s'" "plain_args c" for c s'
    using that setup_trans [of s s', OF _ do_command_setup]
      globals_fields [OF same_but_log_globals [OF iptables_do_command_same [of s' env c]]]
    by (simp_all add: four_marks_def)
  have upd: "?I (s'\<lparr>fw_quiet := b\<rparr>)" "?I (s'\<lparr>markop := x\<rparr>)" "?I (s'\<lparr>markmask := x\<rparr>)" if "?I s'" for s' b x
    using that setup_trans [of s s', OF _ setup_fields(1)] setup_trans [of s s', OF _ setup_fields(2)]
      setup_trans [of s s', OF _ setup_fields(3)] by (simp_all add: four_marks_def)
  let ?s0 = "s\<lparr>fw_quiet := True\<rparr>"
  let ?c1 = "''-t mangle -I PREROUTING 1 -j MARK --or-mark 0x'' @ show_hex (FW_MARK_BLOCKED ?s0)"
  have c: "plain_args ?c1" "plain_args ''-t mangle -D PREROUTING 1''" by (simp_all add: plain_args_def client_verbs_def)
  obtain r1 s1 where 1: "iptables_do_command env ?c1 ?s0 = (r1, s1)" by (cases "iptables_do_command env ?c1 ?s0")
  have i0: "?I ?s0" using assms by (intro upd) simp
  then have i1: "?I s1" using cmd(1) [OF i0 c(1)] 1 by simp
  define s2 where "s2 = (if r1 = 0 then (snd (iptables_do_command env ''-t mangle -D PREROUTING 1'' s1))\<lparr>markop := ''--or-mark''\<rparr>
    else s1\<lparr>markop := ''--set-mark''\<rparr>)"
  have i2: "?I s2" using upd(2) [OF i1] upd(2) [OF cmd(1) [OF i1 c(2)]] by (simp add: s2_def)
  have m2: "length (markop s2) \<le> 16" by (simp add: s2_def)
  let ?c3 = "''-t filter -I FORWARD 1 -m mark --mark 0x'' @ show_hex (FW_MARK_BLOCKED s2) @ ''/0x'' @ show_hex (FW_MARK_MASK s2) @ '' -j REJECT''"
  have c3: "plain_args ?c3" "plain_args ''-t filter -D FORWARD 1''" by (simp_all add: plain_heads)
  obtain r3 s3 where 3: "iptables_do_command env ?c3 s2 = (r3, s3)" by (cases "iptables_do_command env ?c3 s2")
  have i3: "?I s3" and m3: "markop s3 = markop s2" using cmd [OF i2 c3(1)] 3 by simp_all
  define s4 where "s4 = (if r3 = 0 then (snd (iptables_do_command env ''-t filter -D FORWARD 1'' s3))\<lparr>markmask := ''/0x'' @ show_hex (FW_MARK_MASK s3)\<rparr>
    else s3\<lparr>markmask := []\<rparr>)"
  have i4: "?I s4" using upd(3) [OF i3] upd(3) [OF cmd(1) [OF i3 c3(2)]] by (simp add: s4_def)
  have m4: "markop s4 = markop s2" using cmd(2) [OF i3 c3(2)] m3 by (simp add: s4_def)
  have g: "FW_MARK_MASK (snd (iptables_do_command env ''-t filter -D FORWARD 1'' s3)) = FW_MARK_MASK s3"
    by (subst same_but_logD(1) [OF iptables_do_command_same]) simp
  have "snd (iptables_check_mark_masking env s) = s4\<lparr>fw_quiet := False\<rparr>"
    using 1 3 unfolding iptables_check_mark_masking_def Let_def s4_def s2_def g by (simp only: case_prod_conv snd_conv)
  moreover have "?I (s4\<lparr>fw_quiet := False\<rparr>)" using upd(1) [OF i4] .
  ultimately show ?thesis using m2 m4 by (simp add: marks_set_def)
qed

lemma iptables_all_rc: "fst (iptables_all env cmds rc s) = 0 \<Longrightarrow> rc = 0"
proof (induction cmds arbitrary: rc s)
  case (Cons c cmds)
  then show ?case using Cons.IH [of "rc OR fst (iptables_do_command env c s)" "snd (iptables_do_command env c s)"]
    by (simp add: case_prod_beta or_eq_0_iff)
qed simp

lemma init_marks_ok:
  assumes "iptables_init_marks s = (0, s')"
  shows "four_marks s' \<and> setup_step s s'"
proof -
  have d: "FW_MARK_BLOCKED s \<noteq> FW_MARK_TRUSTED s" "FW_MARK_TRUSTED s \<noteq> FW_MARK_AUTHENTICATED s"
      "FW_MARK_AUTHENTICATED s \<noteq> FW_MARK_BLOCKED s" "FW_MARK_BLOCKED s \<noteq> 0" "FW_MARK_TRUSTED s \<noteq> 0" "FW_MARK_AUTHENTICATED s \<noteq> 0"
    and s': "s' = s\<lparr>FW_MARK_PREAUTHENTICATED := 0,
                FW_MARK_MASK := FW_MARK_BLOCKED s OR FW_MARK_TRUSTED s OR FW_MARK_AUTHENTICATED s\<rparr>"
    using assms by (auto simp: iptables_init_marks_def split: if_split_asm)
  have "setup_step s s'" unfolding s' by (rule setup_trans [OF setup_fields(4) setup_fields(5)])
  with d s' show ?thesis by (simp add: four_marks_def)
qed

lemma fw_init_setup:
  assumes "iptables_fw_init env s = Some (0, s')"
  shows "setup_step s s' \<and> marks_set s'"
proof -
  let ?cfg = "config s" and ?icmp = "if ip6 (config s) \<noteq> 0 then ''icmp6'' else ''icmp''"
  let ?s0 = "s\<lparr>FW_MARK_BLOCKED := fw_mark_blocked ?cfg, FW_MARK_TRUSTED := fw_mark_trusted ?cfg,
                  FW_MARK_AUTHENTICATED := fw_mark_authenticated ?cfg\<rparr>"
  obtain v s1 where 1: "get_iptables_version env ?s0 = (v, s1)" by (cases "get_iptables_version env ?s0")
  obtain r2 s2 where 2: "iptables_init_marks s1 = (r2, s2)" by (cases "iptables_init_marks s1")
  obtain r3 s3 where 3: "iptables_check_mark_masking env s2 = (r3, s3)" by (cases "iptables_check_mark_masking env s2")
  obtain r4 s4 where 4: "iptables_all env (mangle_cmds s3) (r2 OR r3) s3 = (r4, s4)" by (cases "iptables_all env (mangle_cmds s3) (r2 OR r3) s3")
  obtain r5 s5 where 5: "(case mac_mechanism_cmds s4 of None \<Rightarrow> (-1, s4) | Some cmds \<Rightarrow> iptables_all env cmds r4 s4) = (r5, s5)"
    by (cases "case mac_mechanism_cmds s4 of None \<Rightarrow> (-1, s4) | Some cmds \<Rightarrow> iptables_all env cmds r4 s4")
  obtain r6 s6 where 6: "(if traffic_control ?cfg \<noteq> 0 then (case tc_init_tc env s5 of (r, s) \<Rightarrow> (r5 OR r, s)) else (r5, s5)) = (r6, s6)"
    by (cases "if traffic_control ?cfg \<noteq> 0 then (case tc_init_tc env s5 of (r, s) \<Rightarrow> (r5 OR r, s)) else (r5, s5)")
  obtain r7 s7 where 7: "(if ip6 ?cfg = 0 then iptables_all env (nat_cmds s6) r6 s6 else (r6, s6)) = (r7, s7)"
    by (cases "if ip6 ?cfg = 0 then iptables_all env (nat_cmds s6) r6 s6 else (r6, s6)")
  obtain r8 s8 where 8: "iptables_all env (filter_input_cmds s7 ?icmp) r7 s7 = (r8, s8)" by (cases "iptables_all env (filter_input_cmds s7 ?icmp) r7 s7")
  have 9: "iptables_all env (filter_forward_cmds s8 ?icmp) r8 s8 = (0, s')"
    using assms unfolding iptables_fw_init_def Let_def 1 case_prod_conv 2 3 4 5 6 7 8 by (simp split: if_split_asm)
  have "r8 = 0" using iptables_all_rc [of env _ r8 s8] 9 by (metis fst_conv)
  then have "r7 = 0" using iptables_all_rc [of env _ r7 s7] 8 by (metis fst_conv)
  then have "r6 = 0" using iptables_all_rc [of env _ r6 s6] 7 by (metis fst_conv)
  then have "r5 = 0" using 6 by (auto simp: or_eq_0_iff split: if_split_asm prod.split_asm)
  then have "r4 = 0" using 5 iptables_all_rc [of env _ r4 s4] by (auto split: option.split_asm) (metis fst_conv)
  then have r2: "r2 = 0" using 4 iptables_all_rc [of env _ "r2 OR r3" s3] by (metis fst_conv or_eq_0_iff)
  have "plain ''iptables -V''" by (simp add: plain_def neutral_def rule_cmd_def iptables_cmdline_def)
  then have "setup_step ?s0 (snd (get_iptables_version env ?s0))"
    using execute_ret_setup [of "''iptables -V''" ?s0 env 256] by (simp add: get_iptables_version_def case_prod_beta)
  with 1 have "setup_step ?s0 s1" by simp
  then have q1: "setup_step s s1" using setup_trans [OF setup_fields(6)] by blast
  have q2: "four_marks s2" "setup_step s1 s2" using init_marks_ok 2 r2 by auto
  have q3: "setup_step s2 s3" "marks_set s3" using masking_setup [OF q2(1), of env] 3 by auto
  have q4: "quiet_step s3 s4" using quiet_iptables_all [OF mangle_plain, of s3 env s3 "r2 OR r3"] 4 by simp
  have q5: "quiet_step s4 s5" using 5 quiet_iptables_all [OF mechanism_plain, of s4 _ s4 env r4]
    by (auto simp: quiet_step_def split: option.split_asm)
  have q6: "quiet_step s5 s6" using 6 tc_init_quiet [of s5 env] by (auto simp: quiet_step_def split: if_split_asm prod.split_asm)
  have q7: "quiet_step s6 s7" using 7 quiet_iptables_all [OF nat_plain, of s6 env s6 r6] by (auto simp: quiet_step_def split: if_split_asm)
  have q8: "quiet_step s7 s8" using 8 quiet_iptables_all [OF filter_plain(1), of s7 env s7 ?icmp r7] by simp
  have q9: "quiet_step s8 s'" using 9 quiet_iptables_all [OF filter_plain(2), of s8 env s8 ?icmp r8] by simp
  have q: "quiet_step s3 s'" by (rule quiet_trans [OF q4 quiet_trans [OF q5 quiet_trans [OF q6 quiet_trans [OF q7 quiet_trans [OF q8 q9]]]]])
  then have "setup_step s3 s'" by (simp add: quiet_step_def)
  with q1 q2(2) q3(1) quiet_marks [OF q] q3(2) show ?thesis by (meson setup_trans)
qed

section \<open>The start\<close>

lemma fresh_gateway_inv:
  assumes "clients s = []" and "client_count s = 0" and "plain_log s" and "marks_set s"
    and "binauth_ok (config s)" and "is_int32 (maxclients (config s))"
  shows "gateway_inv s"
  using assms plain_no_rules [OF assms(3)] marks_setD [OF assms(4)]
  by (simp add: gateway_inv_def cl_inv_def addrs_def keys_def all_fit_def fw_inv_def auth_count_def)

lemma reset_firewall_setup:
  assumes "reset_firewall env s = Some (None, s')"
  shows "setup_step s s' \<and> marks_set s'"
proof -
  obtain s1 where s1: "iptables_fw_destroy env s = Some s1" "iptables_fw_init env s1 = Some (0, s')"
    using assms by (auto simp: reset_firewall_def split: option.split_asm prod.split_asm if_split_asm)
  show ?thesis using setup_trans [OF fw_destroy_setup [OF s1(1)]] fw_init_setup [OF s1(2)] by blast
qed

text \<open>A new start: no clients, and no command that touched the rules of clients.\<close>

definition fresh :: "nds \<Rightarrow> bool" where
  "fresh s \<longleftrightarrow> clients s = [] \<and> client_count s = 0 \<and> client_id s = 1 \<and> plain_log s"

lemma setup_fresh: "setup_step s s' \<Longrightarrow> fresh s \<Longrightarrow> fresh s'"
  by (auto simp: setup_step_def fresh_def plain_log_def)

text \<open>
  A start that imports no clients: built without state files, or the file does not exist, cannot be accessed or cannot be
  parsed.
\<close>

definition no_import :: "'j host \<Rightarrow> bool" where
  "no_import host \<longleftrightarrow> (case h_state_file host of None \<Rightarrow> True | Some (jc, to_file, st, doc) \<Rightarrow> st \<noteq> Exists \<or> doc = None)"

lemma load_state_fresh:
  assumes "load_state host env s = Some (None, s')" and "no_import host" and "fresh s" and "marks_set s"
  shows "fresh s' \<and> marks_set s'"
proof (cases "h_state_file host")
  case None
  with assms show ?thesis by (simp add: load_state_def)
next
  case (Some sf)
  obtain jc to_file st doc where sf: "sf = (jc, to_file, st, doc)" by (cases sf)
  show ?thesis
  proof (cases st)
    case Exists
    with assms(2) Some sf have "state_file_import jc env st doc s = (-1, s)"
      by (simp add: no_import_def state_file_import_def)
    with assms(1) Some sf obtain s1 where "reset_firewall env s = Some (None, s1)" "s' = client_list_flush s1"
      by (auto simp: load_state_def split: option.split_asm)
    with reset_firewall_setup [of env s s1] setup_fresh [of s s1] assms(3) show ?thesis
      by (auto simp: client_list_flush_def fresh_def)
  qed (use assms Some sf in \<open>auto simp: load_state_def state_file_import_def\<close>)
qed

lemma main_loop_fresh:
  assumes "main_loop host env s0 = Some (Running s)" and "no_import host" and "fresh s0"
  shows "fresh s \<and> marks_set s"
proof -
  obtain cfg s1 where r: "reset_firewall env ((set_started_time env s0)\<lparr>config := cfg\<rparr>) = Some (None, s1)"
      and l: "load_state host env s1 = Some (None, s)"
    using assms(1)
    by (auto simp: main_loop_def Let_def dest!: start_threads_running split: option.split_asm if_split_asm prod.split_asm)
  have "fresh ((set_started_time env s0)\<lparr>config := cfg\<rparr>)"
    using assms(3) by (simp add: fresh_def plain_log_def set_started_time_def c_time_def)
  with reset_firewall_setup [OF r] setup_fresh have "fresh s1" "marks_set s1" by blast+
  then show ?thesis by (rule load_state_fresh [OF l assms(2)])
qed

lemma nds_main_fresh:
  assumes "nds_main is_exec tail contents host env argv = Some (Running s)" and "no_import host"
  shows "fresh s \<and> marks_set s"
proof -
  obtain cfg where "main_loop host env (client_list_init (nds_start cfg)) = Some (Running s)"
    using assms(1) by (auto simp: nds_main_def Let_def split: sum.split_asm if_split_asm safe.split_asm)
  moreover have "fresh (client_list_init (nds_start cfg))"
    by (simp add: fresh_def client_list_init_def nds_start_def plain_log_def)
  ultimately show ?thesis by (rule main_loop_fresh [OF _ assms(2)])
qed

section \<open>The set-up succeeds\<close>

lemma cmds_log [simp]:
  "mangle_cmds (s\<lparr>cmd_log := l\<rparr>) = mangle_cmds s" "mac_mechanism_cmds (s\<lparr>cmd_log := l\<rparr>) = mac_mechanism_cmds s"
  "nat_cmds (s\<lparr>cmd_log := l\<rparr>) = nat_cmds s" "filter_input_cmds (s\<lparr>cmd_log := l\<rparr>) icmp = filter_input_cmds s icmp"
  "filter_forward_cmds (s\<lparr>cmd_log := l\<rparr>) icmp = filter_forward_cmds s icmp"
  by (simp_all add: mangle_cmds_def mac_mechanism_cmds_def nat_cmds_def filter_input_cmds_def filter_forward_cmds_def
      ruleset_chain_cmds_def mark_rule_def trust_mac_cmd_def block_mac_cmd_def allow_mac_cmd_def Let_def)

text \<open>The state in which the rules are compiled when every command succeeds.\<close>

definition with_marks :: "nds \<Rightarrow> nds" where
  "with_marks s =
     (let cfg = config s; mask = fw_mark_blocked cfg OR fw_mark_trusted cfg OR fw_mark_authenticated cfg in
      s\<lparr>FW_MARK_BLOCKED := fw_mark_blocked cfg, FW_MARK_TRUSTED := fw_mark_trusted cfg,
        FW_MARK_AUTHENTICATED := fw_mark_authenticated cfg, FW_MARK_PREAUTHENTICATED := 0, FW_MARK_MASK := mask,
        markop := ''--or-mark'', markmask := ''/0x'' @ show_hex mask, fw_quiet := False\<rparr>)"

definition cmds_fit :: "nds \<Rightarrow> string list \<Rightarrow> bool" where
  "cmds_fit s cmds \<longleftrightarrow> list_all (\<lambda>c. length (iptables_cmdline s c) < QUERYMAXLEN) cmds"

lemma all_ok:
  assumes "shell_ok env" and "cmds_fit s cmds"
  shows "\<exists>l'. iptables_all env cmds 0 (s\<lparr>cmd_log := l\<rparr>) = (0, s\<lparr>cmd_log := l'\<rparr>)"
  using iptables_all_ok [OF assms(1), of "s\<lparr>cmd_log := l\<rparr>" cmds] assms(2) by (auto simp: cmds_fit_def)

lemma short_ok:
  assumes "shell_ok env" and "length c \<le> 1000"
  shows "\<exists>l. iptables_do_command env c s = (0, s\<lparr>cmd_log := l\<rparr>)"
  using iptables_do_command_ok [OF assms(1), of s c] assms(2) by (auto simp: iptables_cmdline_def)

lemma masking_ok:
  assumes "shell_ok env"
  shows "\<exists>l. iptables_check_mark_masking env s
    = (0, s\<lparr>markop := ''--or-mark'', markmask := ''/0x'' @ show_hex (FW_MARK_MASK s), fw_quiet := False, cmd_log := l\<rparr>)"
proof -
  have hex: "length (show_hex (w :: 32 word)) \<le> 8" for w by (rule length_show_hex)
  let ?s0 = "s\<lparr>fw_quiet := True\<rparr>"
  let ?c1 = "''-t mangle -I PREROUTING 1 -j MARK --or-mark 0x'' @ show_hex (FW_MARK_BLOCKED ?s0)"
  obtain l1 where 1: "iptables_do_command env ?c1 ?s0 = (0, ?s0\<lparr>cmd_log := l1\<rparr>)"
    using short_ok [OF assms, of ?c1 ?s0] hex [of "FW_MARK_BLOCKED ?s0"] by auto
  obtain l2 where 2: "iptables_do_command env ''-t mangle -D PREROUTING 1'' (?s0\<lparr>cmd_log := l1\<rparr>) = (0, ?s0\<lparr>cmd_log := l2\<rparr>)"
    using short_ok [OF assms, of "''-t mangle -D PREROUTING 1''" "?s0\<lparr>cmd_log := l1\<rparr>"] by auto
  let ?s2 = "?s0\<lparr>cmd_log := l2, markop := ''--or-mark''\<rparr>"
  let ?c3 = "''-t filter -I FORWARD 1 -m mark --mark 0x'' @ show_hex (FW_MARK_BLOCKED ?s2) @ ''/0x'' @ show_hex (FW_MARK_MASK ?s2) @ '' -j REJECT''"
  obtain l3 where 3: "iptables_do_command env ?c3 ?s2 = (0, ?s2\<lparr>cmd_log := l3\<rparr>)"
    using short_ok [OF assms, of ?c3 ?s2] hex [of "FW_MARK_BLOCKED ?s2"] hex [of "FW_MARK_MASK ?s2"] by auto
  obtain l4 where 4: "iptables_do_command env ''-t filter -D FORWARD 1'' (?s2\<lparr>cmd_log := l3\<rparr>) = (0, ?s2\<lparr>cmd_log := l4\<rparr>)"
    using short_ok [OF assms, of "''-t filter -D FORWARD 1''" "?s2\<lparr>cmd_log := l3\<rparr>"] by auto
  have "iptables_check_mark_masking env s
      = (0, ?s2\<lparr>cmd_log := l4, markmask := ''/0x'' @ show_hex (FW_MARK_MASK s), fw_quiet := False\<rparr>)"
    unfolding iptables_check_mark_masking_def Let_def
    by (simp only: 1 2 3 4 prod.case simp_thms if_True snd_conv) simp
  then show ?thesis by (intro exI [of _ l4]) simp
qed

text \<open>
  The firewall can be set up: if every command succeeds, the version of iptables is known and recent enough, the interface,
  the address and the MAC mechanism are set, the three marks are different and not zero, and no command is
  longer than its buffer, then \<open>iptables_fw_init\<close> returns 0 (without traffic control, for IPv4).
\<close>

lemma fw_init_ok:
  assumes sh: "shell_ok env"
    and cfg: "gw_interface (config s) = Some i" "gw_ip (config s) = Some ip" "gw_address (config s) = Some addr"
      "ip6 (config s) = 0" "traffic_control (config s) = 0"
    and marks: "distinct [0, fw_mark_blocked (config s), fw_mark_trusted (config s), fw_mark_authenticated (config s)]"
    and version: "\<forall>s. MIN_IPTABLES_VERSION \<le> fst (get_iptables_version env s)"
    and mac: "mac_mechanism_cmds (with_marks s) = Some macs"
    and fit: "list_all (cmds_fit (with_marks s)) [mangle_cmds (with_marks s), macs, nat_cmds (with_marks s),
      filter_input_cmds (with_marks s) ''icmp'', filter_forward_cmds (with_marks s) ''icmp'']"
  shows "\<exists>l. iptables_fw_init env s = Some (0, (with_marks s)\<lparr>cmd_log := l\<rparr>)"
proof -
  let ?cfg = "config s"
  let ?s0 = "s\<lparr>FW_MARK_BLOCKED := fw_mark_blocked ?cfg, FW_MARK_TRUSTED := fw_mark_trusted ?cfg,
                  FW_MARK_AUTHENTICATED := fw_mark_authenticated ?cfg\<rparr>"
  have "same_but_log ?s0 (snd (get_iptables_version env ?s0))"
    using popen_same by (simp add: get_iptables_version_def execute_ret_def case_prod_beta)
  then obtain v l1 where 1: "get_iptables_version env ?s0 = (v, ?s0\<lparr>cmd_log := l1\<rparr>)"
    using same_but_logD(1) by (cases "get_iptables_version env ?s0") fastforce
  have v: "MIN_IPTABLES_VERSION \<le> v" using version 1 by (metis fst_conv)
  let ?s1 = "?s0\<lparr>cmd_log := l1\<rparr>"
  let ?s2 = "?s1\<lparr>FW_MARK_PREAUTHENTICATED := 0, FW_MARK_MASK := FW_MARK_BLOCKED ?s1 OR FW_MARK_TRUSTED ?s1 OR FW_MARK_AUTHENTICATED ?s1\<rparr>"
  have 2: "iptables_init_marks ?s1 = (0, ?s2)" using marks by (auto simp: iptables_init_marks_def)
  obtain l3 where "iptables_check_mark_masking env ?s2 = (0, ?s2\<lparr>markop := ''--or-mark'',
      markmask := ''/0x'' @ show_hex (FW_MARK_MASK ?s2), fw_quiet := False, cmd_log := l3\<rparr>)"
    using masking_ok [OF sh] by blast
  then have 3: "iptables_check_mark_masking env ?s2 = (0, (with_marks s)\<lparr>cmd_log := l3\<rparr>)"
    by (simp add: with_marks_def Let_def)
  have fits: "cmds_fit (with_marks s) (mangle_cmds (with_marks s))" "cmds_fit (with_marks s) macs"
      "cmds_fit (with_marks s) (nat_cmds (with_marks s))" "cmds_fit (with_marks s) (filter_input_cmds (with_marks s) ''icmp'')"
      "cmds_fit (with_marks s) (filter_forward_cmds (with_marks s) ''icmp'')"
    using fit by simp_all
  obtain l4 where 4: "iptables_all env (mangle_cmds (with_marks s)) 0 ((with_marks s)\<lparr>cmd_log := l3\<rparr>) = (0, (with_marks s)\<lparr>cmd_log := l4\<rparr>)"
    using all_ok [OF sh fits(1)] by blast
  obtain l5 where 5: "iptables_all env macs 0 ((with_marks s)\<lparr>cmd_log := l4\<rparr>) = (0, (with_marks s)\<lparr>cmd_log := l5\<rparr>)"
    using all_ok [OF sh fits(2)] by blast
  obtain l6 where 6: "iptables_all env (nat_cmds (with_marks s)) 0 ((with_marks s)\<lparr>cmd_log := l5\<rparr>) = (0, (with_marks s)\<lparr>cmd_log := l6\<rparr>)"
    using all_ok [OF sh fits(3)] by blast
  obtain l7 where 7: "iptables_all env (filter_input_cmds (with_marks s) ''icmp'') 0 ((with_marks s)\<lparr>cmd_log := l6\<rparr>) = (0, (with_marks s)\<lparr>cmd_log := l7\<rparr>)"
    using all_ok [OF sh fits(4)] by blast
  obtain l8 where 8: "iptables_all env (filter_forward_cmds (with_marks s) ''icmp'') 0 ((with_marks s)\<lparr>cmd_log := l7\<rparr>) = (0, (with_marks s)\<lparr>cmd_log := l8\<rparr>)"
    using all_ok [OF sh fits(5)] by blast
  have "iptables_fw_init env s = Some (0, (with_marks s)\<lparr>cmd_log := l8\<rparr>)"
    using v cfg unfolding iptables_fw_init_def Let_def 1 prod.case 2 3
    by (simp add: 4 5 6 7 8 mac)
  then show ?thesis by blast
qed

section \<open>What the set-up leaves in the firewall\<close>

text \<open>The commands of a part of the log that ended with status 0, in their order.\<close>

definition done_cmds :: "(string \<times> int) list \<Rightarrow> string list" where
  "done_cmds l = map fst (filter (\<lambda>(cmd, rc). rc = 0) l)"

lemma done_cmds_append [simp]: "done_cmds (l @ m) = done_cmds l @ done_cmds m"
  by (simp add: done_cmds_def)

lemma do_command_done:
  assumes "iptables_do_command env cmd s = (0, s')"
  shows "\<exists>l. cmd_log s' = cmd_log s @ l \<and> done_cmds l = [iptables_cmdline s cmd]"
proof (cases "length (iptables_cmdline s cmd) < QUERYMAXLEN")
  case True
  from do_command_loop_log [OF this, of 5 env 0 s] assms show ?thesis
    by (auto simp: iptables_do_command_def done_cmds_def filter_replicate)
next
  case False
  with do_command_loop_long [of "iptables_cmdline s cmd" 5 env 0 s] assms show ?thesis
    by (simp add: iptables_do_command_def)
qed

lemma cmdline_log: "same_but_log s s' \<Longrightarrow> iptables_cmdline s' = iptables_cmdline s"
proof -
  have "iptables_cmdline (s\<lparr>cmd_log := l\<rparr>) = iptables_cmdline s" for l by (auto simp: iptables_cmdline_def fun_eq_iff)
  then show "same_but_log s s' \<Longrightarrow> iptables_cmdline s' = iptables_cmdline s" by (metis same_but_logD(1))
qed

lemma filter_cmds_log:
  "same_but_log s s' \<Longrightarrow> filter_input_cmds s' icmp = filter_input_cmds s icmp \<and> filter_forward_cmds s' icmp = filter_forward_cmds s icmp"
  by (metis same_but_logD(1) cmds_log(4,5))

lemma iptables_all_done:
  "iptables_all env cmds rc s = (0, s') \<Longrightarrow>
   \<exists>l. cmd_log s' = cmd_log s @ l \<and> done_cmds l = map (iptables_cmdline s) cmds"
proof (induction cmds arbitrary: rc s)
  case Nil
  then show ?case by (auto simp: done_cmds_def)
next
  case (Cons c cmds)
  obtain r s1 where 1: "iptables_do_command env c s = (r, s1)" by (cases "iptables_do_command env c s")
  with Cons.prems have 2: "iptables_all env cmds (rc OR r) s1 = (0, s')" by simp
  then have "r = 0" using iptables_all_rc [of env cmds "rc OR r" s1] by (metis fst_conv or_eq_0_iff)
  with 1 obtain l where l: "cmd_log s1 = cmd_log s @ l" "done_cmds l = [iptables_cmdline s c]"
    using do_command_done by blast
  obtain m where m: "cmd_log s' = cmd_log s1 @ m" "done_cmds m = map (iptables_cmdline s1) cmds"
    using Cons.IH [OF 2] by blast
  have "same_but_log s s1" using iptables_do_command_same [of s env c] 1 by simp
  then have "iptables_cmdline s1 = iptables_cmdline s" by (rule cmdline_log)
  with l m show ?case by (intro exI [of _ "l @ m"]) simp
qed

lemma fw_init_filter_cmds:
  assumes "iptables_fw_init env s = Some (0, s')"
  defines "icmp \<equiv> if ip6 (config s') \<noteq> 0 then ''icmp6'' else ''icmp''"
  shows "\<exists>before l. cmd_log s' = before @ l
    \<and> done_cmds l = map (iptables_cmdline s') (filter_input_cmds s' icmp @ filter_forward_cmds s' icmp)"
proof -
  let ?cfg = "config s"
  let ?s0 = "s\<lparr>FW_MARK_BLOCKED := fw_mark_blocked ?cfg, FW_MARK_TRUSTED := fw_mark_trusted ?cfg,
                  FW_MARK_AUTHENTICATED := fw_mark_authenticated ?cfg\<rparr>"
  have "config s' = config s" using fw_init_setup [OF assms(1)] by (simp add: setup_step_def)
  then have icmp: "icmp = (if ip6 ?cfg \<noteq> 0 then ''icmp6'' else ''icmp'')" by (simp add: icmp_def)
  obtain v s1 where 1: "get_iptables_version env ?s0 = (v, s1)" by (cases "get_iptables_version env ?s0")
  obtain r2 s2 where 2: "iptables_init_marks s1 = (r2, s2)" by (cases "iptables_init_marks s1")
  obtain r3 s3 where 3: "iptables_check_mark_masking env s2 = (r3, s3)" by (cases "iptables_check_mark_masking env s2")
  obtain r4 s4 where 4: "iptables_all env (mangle_cmds s3) (r2 OR r3) s3 = (r4, s4)" by (cases "iptables_all env (mangle_cmds s3) (r2 OR r3) s3")
  obtain r5 s5 where 5: "(case mac_mechanism_cmds s4 of None \<Rightarrow> (-1, s4) | Some cmds \<Rightarrow> iptables_all env cmds r4 s4) = (r5, s5)"
    by (cases "case mac_mechanism_cmds s4 of None \<Rightarrow> (-1, s4) | Some cmds \<Rightarrow> iptables_all env cmds r4 s4")
  obtain r6 s6 where 6: "(if traffic_control ?cfg \<noteq> 0 then (case tc_init_tc env s5 of (r, s) \<Rightarrow> (r5 OR r, s)) else (r5, s5)) = (r6, s6)"
    by (cases "if traffic_control ?cfg \<noteq> 0 then (case tc_init_tc env s5 of (r, s) \<Rightarrow> (r5 OR r, s)) else (r5, s5)")
  obtain r7 s7 where 7: "(if ip6 ?cfg = 0 then iptables_all env (nat_cmds s6) r6 s6 else (r6, s6)) = (r7, s7)"
    by (cases "if ip6 ?cfg = 0 then iptables_all env (nat_cmds s6) r6 s6 else (r6, s6)")
  obtain r8 s8 where 8: "iptables_all env (filter_input_cmds s7 icmp) r7 s7 = (r8, s8)" by (cases "iptables_all env (filter_input_cmds s7 icmp) r7 s7")
  have 9: "iptables_all env (filter_forward_cmds s8 icmp) r8 s8 = (0, s')"
    using assms(1) unfolding iptables_fw_init_def Let_def 1 case_prod_conv 2 3 4 5 6 7 icmp [symmetric] 8 by (simp split: if_split_asm)
  have "r8 = 0" using iptables_all_rc [of env _ r8 s8] 9 by (metis fst_conv)
  then obtain l where l: "cmd_log s8 = cmd_log s7 @ l" "done_cmds l = map (iptables_cmdline s7) (filter_input_cmds s7 icmp)"
    using iptables_all_done 8 by blast
  obtain m where m: "cmd_log s' = cmd_log s8 @ m" "done_cmds m = map (iptables_cmdline s8) (filter_forward_cmds s8 icmp)"
    using iptables_all_done [OF 9] by blast
  have b: "same_but_log s7 s8" "same_but_log s8 s'"
    using iptables_all_same [of s7 env _ r7] iptables_all_same [of s8 env _ r8] 8 9 by (metis snd_conv)+
  note c = cmdline_log [OF b(1)] cmdline_log [OF b(2)] filter_cmds_log [OF b(1), of icmp] filter_cmds_log [OF b(2), of icmp]
  from l m show ?thesis by (intro exI [of _ "cmd_log s7"] exI [of _ "l @ m"]) (simp add: c)
qed

text \<open>Which chain of the filter table a command is about.\<close>

definition filter_cmd :: "string \<Rightarrow> string \<Rightarrow> bool" where
  "filter_cmd verb_chain cmd \<longleftrightarrow> prefix (''-t filter '' @ verb_chain @ '' '') cmd"

lemma prefix_take_append: "length p \<le> n \<Longrightarrow> prefix p (take n (p @ t))"
  by simp

lemma compile_filter_cmd:
  assumes "length chain \<le> 100"
  shows "filter_cmd (''-A '' @ chain) (iptables_compile ''filter'' chain rule)"
proof -
  let ?p = "''-t filter -A '' @ chain @ '' ''"
  have "length ?p \<le> MAX_BUF - 1" using assms by simp
  from prefix_take_append [OF this] show ?thesis by (simp add: filter_cmd_def iptables_compile_def)
qed

lemma ruleset_filter_cmds:
  "length chain \<le> 100 \<Longrightarrow> list_all (filter_cmd (''-A '' @ chain)) (append_ruleset_cmds cfg ''filter'' ruleset chain)"
  using compile_filter_cmd by (auto simp: append_ruleset_cmds_def list_all_iff)

lemma ruleset_chain_filter_cmds:
  assumes "length own \<le> 100"
  shows "list_all (\<lambda>c. filter_cmd (''-A '' @ chain @ '' -m mark --mark 0x'' @ show_hex mark @ markmask s @ '' -j'') c
      \<or> filter_cmd (''-A '' @ own) c) (ruleset_chain_cmds s chain mark ruleset own icmp)"
  using ruleset_filter_cmds [OF assms, of "config s" ruleset]
  by (auto simp: ruleset_chain_cmds_def mark_rule_def filter_cmd_def list_all_iff)

lemma filter_input_chains:
  "\<exists>router. filter_input_cmds s icmp = ''-t filter -N ndsNET'' # router
    \<and> list_all (\<lambda>c. prefix ''-t filter -N '' c \<or> filter_cmd ''-I INPUT'' c \<or> filter_cmd ''-A ndsRTR'' c
        \<or> filter_cmd ''-A ndsTRT'' c) router"
  using ruleset_filter_cmds [of "''ndsRTR''" "config s" "''users-to-router''"]
    ruleset_chain_filter_cmds [of "''ndsTRT''" "''ndsRTR''" "FW_MARK_TRUSTED s" s "''trusted-users-to-router''" icmp]
  by (auto simp: filter_input_cmds_def Let_def filter_cmd_def mark_rule_def list_all_iff elim!: prefix_order.trans [rotated])

lemma filter_forward_chains:
  "\<exists>mss trusted authed. filter_forward_cmds s icmp =
      [''-t filter -I FORWARD -i '' @ show_str (gw_interface (config s)) @ '' -s '' @ gw_iprange (config s) @ '' -j ndsNET'',
       ''-t filter -A ndsNET -m mark --mark 0x'' @ show_hex (FW_MARK_BLOCKED s) @ markmask s @ '' -j DROP'',
       ''-t filter -A ndsNET -m conntrack --ctstate INVALID -j DROP'']
      @ mss @ trusted @ authed
      @ (if get_ruleset_list (config s) ''preauthenticated-users'' = []
         then [''-t filter -A ndsNET -j '' @ show_str (get_empty_ruleset_policy (config s) ''preauthenticated-users'') @ '' '']
         else map (iptables_compile ''filter'' ''ndsNET'') (get_ruleset_list (config s) ''preauthenticated-users''))
      @ [''-t filter -A ndsNET -j REJECT --reject-with '' @ icmp @ ''-port-unreachable'']
    \<and> list_all (filter_cmd ''-A ndsNET -p tcp --tcp-flags SYN,RST SYN -j TCPMSS'') mss
    \<and> list_all (\<lambda>c. filter_cmd (''-A ndsNET -m mark --mark 0x'' @ show_hex (FW_MARK_TRUSTED s) @ markmask s @ '' -j'') c
        \<or> filter_cmd ''-A ndsTRU'' c) trusted
    \<and> list_all (\<lambda>c. filter_cmd (''-A ndsNET -m mark --mark 0x'' @ show_hex (FW_MARK_AUTHENTICATED s) @ markmask s @ '' -j'') c
        \<or> filter_cmd ''-A ndsAUT'' c) authed"
proof -
  let ?mss = "if set_mss (config s) \<noteq> 0 then
      (if mss_value (config s) > 0 then
         [''-t filter -A ndsNET -p tcp --tcp-flags SYN,RST SYN -j TCPMSS --set-mss '' @ show_int (mss_value (config s))]
       else [''-t filter -A ndsNET -p tcp --tcp-flags SYN,RST SYN -j TCPMSS --clamp-mss-to-pmtu'']) else []"
  have m: "list_all (filter_cmd ''-A ndsNET -p tcp --tcp-flags SYN,RST SYN -j TCPMSS'') ?mss" by (simp add: filter_cmd_def)
  note t = ruleset_chain_filter_cmds [of "''ndsTRU''" "''ndsNET''" "FW_MARK_TRUSTED s" s "''trusted-users''" icmp]
  note a = ruleset_chain_filter_cmds [of "''ndsAUT''" "''ndsNET''" "FW_MARK_AUTHENTICATED s" s "''authenticated-users''" icmp]
  show ?thesis
    by (intro exI conjI) (use m t a in \<open>simp_all add: filter_forward_cmds_def Let_def mark_rule_def is_empty_ruleset_def append_ruleset_cmds_def\<close>)
qed


section \<open>A start\<close>

lemma with_marks_cong:
  assumes "config s' = config s"
  shows "mangle_cmds (with_marks s') = mangle_cmds (with_marks s)" "nat_cmds (with_marks s') = nat_cmds (with_marks s)"
    "mac_mechanism_cmds (with_marks s') = mac_mechanism_cmds (with_marks s)"
    "filter_input_cmds (with_marks s') icmp = filter_input_cmds (with_marks s) icmp"
    "filter_forward_cmds (with_marks s') icmp = filter_forward_cmds (with_marks s) icmp"
    "cmds_fit (with_marks s') = cmds_fit (with_marks s)"
  by (simp_all add: with_marks_def mangle_cmds_def mac_mechanism_cmds_def nat_cmds_def filter_input_cmds_def
      filter_forward_cmds_def ruleset_chain_cmds_def mark_rule_def trust_mac_cmd_def block_mac_cmd_def allow_mac_cmd_def
      cmds_fit_def iptables_cmdline_def fun_eq_iff Let_def assms)

declare iptables_fw_destroy_mention.simps [code]

definition gw_env :: env where
  "gw_env = \<lparr>sh = (\<lambda>_ cmd. Some (0, if cmd = ''ip neigh show''
     then ''10.0.0.2 dev br0 lladdr 00:11:22:33:44:55 REACHABLE'' else ''iptables v1.8.7'')),
     time_of = (\<lambda>n. 2000 + 1000 * int n), rand_of = (\<lambda>n. n)\<rparr>"

definition gw_host :: "unit host" where
  "gw_host = \<lparr>h_ifaddrs = Some [(''lo'', Some (AF_INET 127 0 0 1)), (''br0'', None), (''br0'', Some (AF_INET 10 0 0 1))],
     h_socket = True, h_hwaddr = (\<lambda>_. Some [0, 0, 0, 0, 0, 1]), h_sigaction = (\<lambda>_. True), h_fork = 0, h_webserver = True, h_check_thread = True, h_ndsctl_thread = True, h_state_file = None\<rparr>"

text \<open>The configuration file, with the idle timeout of clients that are not authenticated, and the state that it leads to.\<close>

definition gw_conf :: "string \<Rightarrow> string" where
  "gw_conf minutes = ''GatewayInterface br0'' @ [NL] @ ''SessionTimeout 10'' @ [NL] @ ''PreAuthIdleTimeout '' @ minutes @ [NL]"

definition gw_cfg :: "int \<Rightarrow> s_config" where
  "gw_cfg m = config_init\<lparr>gw_interface := Some ''br0'', session_timeout := 10, preauth_idle_timeout := m\<rparr>"

definition gw_state :: "int \<Rightarrow> nds" where
  "gw_state m = (nds_start (gw_cfg m))\<lparr>started_time := 2000, time_calls := 1,
     config := (gateway_names ((gw_cfg m)\<lparr>gw_ip := Some ''10.0.0.1''\<rparr>))\<lparr>gw_mac := Some ''00:00:00:00:00:01''\<rparr>\<rparr>"

lemma gw_shell: "shell_ok gw_env"
  by (simp add: shell_ok_def gw_env_def)

lemma gw_version: "fst (get_iptables_version gw_env s) = 10807"
proof -
  have "execute_ret gw_env 256 ''iptables -V'' s
      = ((0, ''iptables v1.8.7''), s\<lparr>cmd_log := cmd_log s @ [(''iptables -V'', 0)]\<rparr>)"
    by (simp add: execute_ret_def popen_def gw_env_def WEXITSTATUS_def cstr_def)
  moreover have "scanf (lits ''iptables v'' @ [FInt, FLit (CHR ''.''), FInt, FLit (CHR ''.''), FInt]) ''iptables v1.8.7''
      = (3, [SInt 1, SInt 8, SInt 7], [])"
    by code_simp
  moreover have "to_int32 10807 = 10807" by code_simp
  ultimately show ?thesis by (simp add: get_iptables_version_def)
qed

text \<open>The file is read and accepted.\<close>

definition gw_accepted :: "string \<Rightarrow> int \<Rightarrow> bool" where
  "gw_accepted minutes m \<longleftrightarrow>
     config_read (\<lambda>_. True) (\<lambda>x. x) (Some (gw_conf minutes)) config_init = Inr (gw_cfg m)
     \<and> config_validate (gw_cfg m) = Inr ()"

lemma gw_accepted: "gw_accepted ''10'' 10" "gw_accepted ''0'' 0"
  by code_simp+

lemma gw_fit: "list_all (cmds_fit (with_marks (gw_state m))) [mangle_cmds (with_marks (gw_state m)), [], nat_cmds (with_marks (gw_state m))]"
  "list_all (cmds_fit (with_marks (gw_state m))) [filter_input_cmds (with_marks (gw_state m)) ''icmp'', filter_forward_cmds (with_marks (gw_state m)) ''icmp'']"
  by code_simp+

lemma gw_config:
  "gw_interface (config (gw_state m)) = Some ''br0''" "gw_ip (config (gw_state m)) = Some ''10.0.0.1''"
  "gw_address (config (gw_state m)) = Some ''10.0.0.1:2050''" "ip6 (config (gw_state m)) = 0" "traffic_control (config (gw_state m)) = 0"
  "distinct [0, fw_mark_blocked (config (gw_state m)), fw_mark_trusted (config (gw_state m)), fw_mark_authenticated (config (gw_state m))]"
  "binauth_ok (config (gw_state m))" "is_int32 (maxclients (config (gw_state m)))" "mac_mechanism_cmds (with_marks (gw_state m)) = Some []"
  by code_simp+


end
