(* ===== verification/Gateway.thy ===== *)
theory Gateway
  imports Setup
begin

text \<open>
  The gateway as a whole. After the start the state changes by requests of the web server, commands on the
  control socket and the periodic check, in any order and number. This theory defines the labelled transition relation
  and the states reachable along a trace, lifts the contract of theory \<open>Handlers\<close> to traces, and states
  what holds of the gateway in all of them.
\<close>

section \<open>Transitions and reachable states\<close>

text \<open>
  Each transition is one handler run from beginning to end: a request of the web server, a request on the control
  socket, or a turn of the thread that checks the clients.
\<close>

datatype (plugins only: code) event =
    WebRequest files request
  | ControlRequest "int \<Rightarrow> string" "read_result list"
  | ClientCheck

inductive gateway_step :: "env \<Rightarrow> event \<Rightarrow> nds \<Rightarrow> nds \<Rightarrow> bool" for env where
  web_request: "libmicrohttpd_cb env fs req s = Some (resp, s') \<Longrightarrow> gateway_step env (WebRequest fs req) s s'"
| control_request: "ndsctl_handler env ft reads s = Some (out, s') \<Longrightarrow> gateway_step env (ControlRequest ft reads) s s'"
| client_check: "thread_client_timeout_check env s = Some (wake, s') \<Longrightarrow> gateway_step env ClientCheck s s'"

inductive_cases gateway_stepE: "gateway_step env e s s'"

text \<open>
  The states after a trace, the latest event first. The start is one that imports no clients from a state file (theory
  \<open>Setup\<close>, \<open>no_import\<close>: built without state files, or there is no readable file), with a configuration whose limit of
  clients is a C integer and whose BinAuth program is not called like iptables. A start that imports
  clients is outside of this model: it authenticates clients without an event, and its ids need not be distinct
  (theory \<open>State_File\<close>, \<open>import_duplicate_id\<close>). Events begin after the start: the web requests that the server, which
  is started early in \<open>main_loop\<close>, may answer before the start is complete are not part of a trace (see
  \<open>served_before_marks\<close> in theory \<open>Races\<close>). The JSON library of the host is not used by such a start, so its
  type is of no importance.
\<close>

inductive reachable :: "env \<Rightarrow> event list \<Rightarrow> nds \<Rightarrow> bool" for env where
  started: "nds_main is_exec tail contents (host :: unit host) env argv = Some (Running s) \<Longrightarrow> no_import host \<Longrightarrow>
     binauth_ok (config s) \<Longrightarrow> is_int32 (maxclients (config s)) \<Longrightarrow> reachable env [] s"
| stepped: "reachable env es s \<Longrightarrow> gateway_step env e s s' \<Longrightarrow> reachable env (e # es) s'"

inductive_cases reachable_ConsE: "reachable env (e # es) s'"

definition gateway_run :: "env \<Rightarrow> nds \<Rightarrow> nds \<Rightarrow> bool" where
  "gateway_run env s s' \<longleftrightarrow> (\<exists>e. gateway_step env e s s')"

lemma gateway_run_cases: "gateway_run env s s' \<Longrightarrow> web_run env s s' \<or> control_run env s s' \<or> check_run env s s'"
  by (auto simp: gateway_run_def web_run_def control_run_def check_run_def elim!: gateway_stepE)

interpretation gateway: gateway_handler gateway_run
proof
  fix env s s' assume "gateway_run env s s'"
  note cases = gateway_run_cases [OF this]
  show "statics s' = statics s"
    using cases web.run_statics control.run_statics check.run_statics by blast
  show "cl_inv s \<Longrightarrow> is_int32 (maxclients (config s)) \<Longrightarrow> cl_inv s'"
    using cases web.run_inv control.run_inv check.run_inv by blast
  show "cl_inv s \<Longrightarrow> is_int32 (maxclients (config s)) \<Longrightarrow> ids_inv s \<Longrightarrow> client_id s + 1 < 2 ^ 31 \<Longrightarrow>
      ids_inv s' \<and> client_id s' \<le> client_id s + 1"
    using cases web.run_ids control.run_ids check.run_ids by blast
  show "shell_ok env \<Longrightarrow> gateway_inv s \<Longrightarrow> gateway_inv s'"
    using cases web.run_rules control.run_rules check.run_rules by blast
qed

text \<open>A reachable state is a number of runs away from a fresh start.\<close>

lemma reachable_runs:
  assumes "reachable env es s"
  obtains s0 where "fresh s0" "gateway_inv s0" "marks_set s0" "(gateway_run env ^^ length es) s0 s"
proof -
  have "\<exists>s0. fresh s0 \<and> gateway_inv s0 \<and> marks_set s0 \<and> (gateway_run env ^^ length es) s0 s"
    using assms
  proof (induction rule: reachable.induct)
    case (started is_exec tail contents host argv s)
    note f = nds_main_fresh [OF started(1,2)]
    with started have "gateway_inv s" by (intro fresh_gateway_inv) (auto simp: fresh_def)
    with f show ?case by auto
  next
    case (stepped es s e s')
    then show ?case by (auto simp: gateway_run_def)
  qed
  with that show thesis by blast
qed

lemma reachable_gateway_inv: "shell_ok env \<Longrightarrow> reachable env es s \<Longrightarrow> gateway_inv s"
  by (rule reachable_runs [of env es s]) (auto intro: gateway.runs_rules)

text \<open>What holds whether the shell commands succeed or not, before the client ids run out.\<close>

lemma reachable_core:
  assumes "reachable env es s"
  shows "cl_inv s" "marks_distinct s" "FW_MARK_BLOCKED s \<noteq> FW_MARK_PREAUTHENTICATED s" "\<not> fw_quiet s"
    "is_int32 (maxclients (config s))"
    "length es < 2 ^ 31 - 2 \<Longrightarrow> ids_inv s \<and> client_id s + 1 < 2 ^ 31"
proof -
  obtain s0 where s0: "fresh s0" "gateway_inv s0" "marks_set s0" "(gateway_run env ^^ length es) s0 s"
    by (rule reachable_runs [OF assms])
  note f = statics_fields [OF gateway.runs_statics [OF s0(4)]]
  show "marks_distinct s" "FW_MARK_BLOCKED s \<noteq> FW_MARK_PREAUTHENTICATED s" "\<not> fw_quiet s"
    using marks_setD [OF s0(3)] by (simp_all add: marks_distinct_def f)
  have i: "cl_inv s0" "is_int32 (maxclients (config s0))" using s0(2) by (simp_all add: gateway_inv_def)
  show "is_int32 (maxclients (config s))" using i(2) f by simp
  show "cl_inv s" by (rule gateway.runs_inv [OF s0(4) i])
  have ids: "ids_inv s0" "client_id s0 = 1" using s0(1) by (simp_all add: fresh_def ids_inv_def ids_def)
  assume "length es < 2 ^ 31 - 2"
  with gateway.runs_ids [OF s0(4) i ids(1)] ids(2) show "ids_inv s \<and> client_id s + 1 < 2 ^ 31" by simp
qed


section \<open>Who is authenticated\<close>

text \<open>
  The events that may authenticate a client: a web request from its address with its token, or the command
  \<open>auth\<close> of the control program with its token or one of its addresses.
\<close>

fun grants :: "event \<Rightarrow> t_client \<Rightarrow> bool" where
  "grants (WebRequest fs req) c =
     (req_method req = ''GET'' \<and> get_client_ip req = Some (cl_ip c) \<and> req_arg req ''tok'' = Some (cl_token c))"
| "grants (ControlRequest ft reads) c =
     (case read_request reads 0 False (replicate MAX_BUF NUL) of
        None \<Rightarrow> False
      | Some (finished, request) \<Rightarrow>
          strncmp_eq (cstr request) ''auth'' 4 \<and> cstr (drop 5 request) \<in> {cl_token c, cl_ip c, cl_mac c})"
| "grants ClientCheck c = False"

lemma grants_same: "same_identity c c' \<Longrightarrow> grants e c' = grants e c"
  by (cases e) (simp_all add: same_identity_def split: option.split)

lemma step_authenticates:
  assumes step: "gateway_step env e s s'" and r: "reachable env es s" "length es < 2 ^ 31 - 2"
    and b: "client_at s' b = Some c'" "fw_connection_state c' = FW_MARK_AUTHENTICATED s'"
  shows "grants e c' \<or> (\<exists>c. client_at s b = Some c \<and> fw_connection_state c = FW_MARK_AUTHENTICATED s \<and> same_identity c c')"
proof -
  note inv = reachable_core(1,2,5) [OF r(1)] reachable_core(6) [OF r]
  have "gateway_run env s s'" using step by (auto simp: gateway_run_def)
  note f = statics_fields [OF gateway.run_statics [OF this]]
  have b': "fw_connection_state c' = FW_MARK_AUTHENTICATED s" using b(2) f by simp
  show ?thesis using step
  proof (cases rule: gateway_step.cases)
    case (web_request fs req resp)
    with request_authenticates [OF inv(1) _ _ inv(2,3) web_request(2) b(1) b'] inv(4) b' show ?thesis
      by (cases "client_at s b = Some c'") (auto simp: same_identity_def)
  next
    case (control_request ft reads out)
    then obtain fin request where rr: "read_request reads 0 False (replicate MAX_BUF NUL) = Some (fin, request)"
        "s' = snd (run_request env ft request s)"
      by (auto simp: ndsctl_handler_def dest: arg_cong [where f = snd] split: option.split_asm)
    with run_request_authenticates [OF inv(1) _ inv(2) b(1) [unfolded rr(2)] b'] inv(4) control_request(1) show ?thesis
      by auto
  next
    case (client_check wake)
    from check_frame(2) [OF client_check(2) inv(2)] b show ?thesis by (simp add: kept_def)
  qed
qed

lemma trace_authenticates:
  assumes "reachable env es s" and "length es < 2 ^ 31 - 2"
    and "client_at s b = Some c" and "fw_connection_state c = FW_MARK_AUTHENTICATED s"
  shows "\<exists>e \<in> set es. grants e c"
  using assms
proof (induction arbitrary: c rule: reachable.induct)
  case (started is_exec tail contents host argv s)
  from nds_main_fresh [OF started(1,2)] started(6) show ?case by (simp add: fresh_def client_at_def)
next
  case (stepped es s e s')
  have l: "length es < 2 ^ 31 - 2" using stepped.prems(1) by simp
  from step_authenticates [OF stepped.hyps(2,1) l stepped.prems(2,3)] show ?case
    using stepped.IH [OF l] grants_same by fastforce
qed

section \<open>Shutting down\<close>

lemma unauthenticated_count:
  assumes "\<forall>a c. client_at s a = Some c \<longrightarrow> fw_connection_state c \<noteq> FW_MARK_AUTHENTICATED s" and "distinct (addrs s)"
  shows "auth_count s r = 0"
proof -
  have "fw_connection_state c \<noteq> FW_MARK_AUTHENTICATED s" if "(a, c) \<in> set (clients s)" for a c
    using assms that by (simp add: client_at_def addrs_def)
  then show ?thesis by (auto simp: auth_count_def weight_def sum_list_eq_0_iff)
qed

lemma destroy_rule_net:
  assumes "iptables_fw_destroy env s = Some s'" and "\<not> fw_quiet s" and "client_chain r"
  shows "rule_net s' r = rule_net s r"
proof -
  obtain l where l: "cmd_log s' = cmd_log s @ l" "list_all (\<lambda>(cmd, rc). plain cmd) l" "config s' = config s"
    using fw_destroy_setup [OF assms(1)] by (auto simp: setup_step_def)
  have "\<not> fw_quiet s'" using assms(1) by (auto simp: iptables_fw_destroy_def Let_def bind_eq_Some_conv split: if_split_asm)
  with assms(2) l(3) have c: "rule_cmd v r s' = rule_cmd v r s" for v by (simp add: rule_cmd_def iptables_cmdline_def)
  have "rule_net (s\<lparr>cmd_log := l\<rparr>) r = 0" by (rule plain_no_rules [OF _ assms(3)]) (simp add: plain_log_def l(2))
  then have "log_net s r l = 0" using log_net_globals [of "s\<lparr>cmd_log := l\<rparr>" s] by (simp add: rule_net_def)
  moreover have "log_net s' r = log_net s r" by (rule ext) (simp add: log_net_def c)
  ultimately show ?thesis by (simp add: rule_net_def l(1) log_net_append)
qed

lemma deauth_all_gateway_inv:
  assumes "shell_ok env" and "gateway_inv s" and "auth_client_deauth_all env s = Some s'"
  shows "gateway_inv s' \<and> globals s' = globals s"
proof -
  note w = assms(3) [unfolded auth_client_deauth_all_def]
  have "gateway_inv s'"
    by (rule walk_gateway_inv [OF w assms(2)]) (simp add: shutdown_client_def auth_change_state_gateway_inv assms(1))
  moreover have "globals s' = globals s"
    by (rule client_walk_invariant [OF w, where I = "\<lambda>s1. globals s1 = globals s"]) (simp_all add: shutdown_client_globals)
  ultimately show ?thesis by simp
qed

section \<open>A small gateway\<close>

lemma gw_mention: "\<exists>l. iptables_fw_destroy_mention gw_env table chain mention s = Some (-1, s\<lparr>cmd_log := l\<rparr>)"
proof -
  have e: "skip_two_lines ''iptables v1.8.7'' = None" by code_simp
  show ?thesis
    by (subst iptables_fw_destroy_mention.simps)
      (auto simp: popen_read_def popen_def gw_env_def WEXITSTATUS_def Let_def e)
qed

lemma gw_mentions: "\<exists>l. destroy_mentions gw_env ms s = Some (s\<lparr>cmd_log := l\<rparr>)"
proof -
  let ?f = "\<lambda>(table, chain, mention) r. Option.bind r (\<lambda>s. map_option snd (iptables_fw_destroy_mention gw_env table chain mention s))"
  have "\<exists>l'. fold ?f ms (Some (s\<lparr>cmd_log := l\<rparr>)) = Some (s\<lparr>cmd_log := l'\<rparr>)" for l
  proof (induction ms arbitrary: l)
    case (Cons m ms)
    obtain table chain mention where m: "m = (table, chain, mention)" by (cases m)
    obtain l2 where "iptables_fw_destroy_mention gw_env table chain mention (s\<lparr>cmd_log := l\<rparr>) = Some (-1, s\<lparr>cmd_log := l2\<rparr>)"
      using gw_mention [of table chain mention "s\<lparr>cmd_log := l\<rparr>"] by auto
    then show ?case using Cons.IH [of l2] by (simp add: m)
  qed auto
  from this [of "cmd_log s"] show ?thesis by (simp add: destroy_mentions_def)
qed

lemma gw_destroy:
  assumes "traffic_control (config s) = 0"
  shows "\<exists>l. iptables_fw_destroy gw_env s = Some (s\<lparr>fw_quiet := False, cmd_log := l\<rparr>)"
proof -
  define logged where "logged s t \<longleftrightarrow> (\<exists>l. t = s\<lparr>cmd_log := l\<rparr>)" for s t :: nds
  have tr: "logged s t \<Longrightarrow> logged t u \<Longrightarrow> logged s u" for s t u by (auto simp: logged_def)
  define f where "f ms s = the (destroy_mentions gw_env ms s)" for ms s
  have f: "destroy_mentions gw_env ms s = Some (f ms s)" "logged s (f ms s)" for ms s
    using gw_mentions [of ms s] by (auto simp: f_def logged_def)
  define g where "g cmds s = snd (iptables_all gw_env cmds 0 s)" for cmds s
  have g: "logged s (g cmds s)" for cmds s
    using same_but_logD(1) [OF iptables_all_same [of s gw_env cmds 0]] by (auto simp: g_def logged_def)
  let ?s = "s\<lparr>fw_quiet := True\<rparr>"
  have "logged ?s ?s" unfolding logged_def by (rule exI [of _ "cmd_log s"]) simp
  then have "\<exists>s1. logged ?s s1 \<and> iptables_fw_destroy gw_env s = Some (s1\<lparr>fw_quiet := False\<rparr>)"
    using assms unfolding iptables_fw_destroy_def Let_def f(1) g_def [symmetric] Option.bind.bind_lunit
    by (simp split: if_split) (intro conjI impI; rule exI, rule conjI [OF _ refl], intro tr [OF _ f(2)] tr [OF _ g], assumption)
  then obtain l where "iptables_fw_destroy gw_env s = Some (?s\<lparr>cmd_log := l, fw_quiet := False\<rparr>)"
    by (auto simp: logged_def)
  then show ?thesis by (intro exI [of _ l]) simp
qed

lemma gw_destroy_total: "\<exists>s'. iptables_fw_destroy gw_env s = Some s'"
proof -
  define f where "f ms s = the (destroy_mentions gw_env ms s)" for ms s
  have f: "destroy_mentions gw_env ms s = Some (f ms s)" for ms s
    using gw_mentions [of ms s] by (auto simp: f_def)
  have "\<exists>y. Option.bind (if b then Some (p :: nds) else Some q) (\<lambda>s. Some (g s)) = Some y" for b p q and g :: "nds \<Rightarrow> nds"
    by simp
  then show ?thesis unfolding iptables_fw_destroy_def Let_def f Option.bind.bind_lunit .
qed

text \<open>The state of the gateway after its start.\<close>

lemma gw_running:
  assumes "gw_accepted minutes m"
  shows "\<exists>l. reachable gw_env [] ((with_marks (gw_state m))\<lparr>cmd_log := l\<rparr>)"
proof -
  have "traffic_control (config (gw_state m)) = 0" using gw_config by simp
  then obtain l1 where s1: "iptables_fw_destroy gw_env (gw_state m) = Some ((gw_state m)\<lparr>fw_quiet := False, cmd_log := l1\<rparr>)"
    using gw_destroy by blast
  let ?s1 = "(gw_state m)\<lparr>fw_quiet := False, cmd_log := l1\<rparr>"
  have c: "config ?s1 = config (gw_state m)" by simp
  have w: "(with_marks ?s1)\<lparr>cmd_log := l\<rparr> = (with_marks (gw_state m))\<lparr>cmd_log := l\<rparr>" for l by (simp add: with_marks_def Let_def)
  have "list_all (cmds_fit (with_marks ?s1)) [mangle_cmds (with_marks ?s1), [], nat_cmds (with_marks ?s1),
      filter_input_cmds (with_marks ?s1) ''icmp'', filter_forward_cmds (with_marks ?s1) ''icmp'']"
    using gw_fit unfolding with_marks_cong [OF c] by simp
  moreover have "mac_mechanism_cmds (with_marks ?s1) = Some []" using gw_config(9) unfolding with_marks_cong [OF c] .
  ultimately have "\<exists>l. iptables_fw_init gw_env ?s1 = Some (0, (with_marks ?s1)\<lparr>cmd_log := l\<rparr>)"
    by (intro fw_init_ok [OF gw_shell, of ?s1 "''br0''" "''10.0.0.1''" "''10.0.0.1:2050''" "[]"])
      (simp_all add: gw_config gw_version del: distinct.simps)
  then obtain l where s: "iptables_fw_init gw_env ?s1 = Some (0, (with_marks (gw_state m))\<lparr>cmd_log := l\<rparr>)" unfolding w by blast
  let ?s = "(with_marks (gw_state m))\<lparr>cmd_log := l\<rparr>"
  have cs: "config ?s = config (gw_state m)" by (simp add: with_marks_def Let_def)
  have r: "reset_firewall gw_env (gw_state m) = Some (None, ?s)" by (simp add: reset_firewall_def s1 s)
  have st: "set_started_time gw_env (client_list_init (nds_start (gw_cfg m))) = (nds_start (gw_cfg m))\<lparr>started_time := 2000, time_calls := 1\<rparr>"
    by (simp add: set_started_time_def client_list_init_def nds_start_def c_time_def gw_env_def)
  have ip: "gw_ip (gw_cfg m) = None" "config (nds_start (gw_cfg m)) = (gw_cfg m)" by code_simp+
  have ifc: "gw_interface (gw_cfg m) = Some ''br0''" "ip6 (gw_cfg m) = 0" "daemon (gw_cfg m) \<noteq> 0" by code_simp+
  have host: "get_iface_ip (h_ifaddrs gw_host) ''br0'' 0 = Some ''10.0.0.1''"
    "get_iface_mac (h_socket gw_host) (h_hwaddr gw_host) ''br0'' = Some (Some ''00:00:00:00:00:01'')"
    by code_simp+
  have sigs: "\<exists>sigs. init_signals (h_sigaction gw_host) = Inr sigs"
    by (simp add: gw_host_def init_signals_def signal_actions_def)
  have "main_loop gw_host gw_env (client_list_init (nds_start (gw_cfg m))) = Some (Running ?s)"
    using r unfolding main_loop_def Let_def st
    by (simp add: load_state_def gw_state_def ip ifc host) (simp add: start_threads_def gw_host_def)
  moreover have "parse_commandline [''nodogsplash''] config_init = Inr config_init"
    "config_validate (gw_cfg m) = Inr ()" using assms by (simp_all add: parse_commandline_def gw_accepted_def)
  ultimately have n: "nds_main (\<lambda>_. True) (\<lambda>x. x) (\<lambda>_. Some (gw_conf minutes)) gw_host gw_env [''nodogsplash''] = Some (Running ?s)"
    using sigs assms by (auto simp add: nds_main_def gw_accepted_def ifc safe_fork_def gw_host_def)
  from reachable.started [OF n] gw_config(7,8) show ?thesis by (auto simp: cs gw_host_def no_import_def)
qed

text \<open>A client comes with the token that it is given, and is authenticated by its first request.\<close>

definition gw_req :: request where
  "gw_req = (http_req ''/nodogsplash_auth/'')\<lparr>req_arg := (\<lambda>k. if k = ''tok'' then Some ''00000000'' else None)\<rparr>"

abbreviation (input) gw_handled :: "int \<Rightarrow> (string \<times> int) list \<Rightarrow> response \<times> nds" where
  "gw_handled m l \<equiv> handle_request gw_env http_files gw_req ''/nodogsplash_auth/'' ((with_marks (gw_state m))\<lparr>cmd_log := l\<rparr>)"

lemma gw_first_request:
  "map_option (\<lambda>c. (fw_connection_state c, cl_ip c, cl_token c)) (client_at (snd (gw_handled m l)) 1)
   = Some (0x30000, ''10.0.0.2'', ''00000000'')"
  by code_simp

lemma gw_authenticated:
  obtains s c where "reachable gw_env [WebRequest http_files gw_req] s" "client_at s 1 = Some c"
    "fw_connection_state c = FW_MARK_AUTHENTICATED s" "cl_ip c = ''10.0.0.2''"
proof -
  obtain l where l: "reachable gw_env [] ((with_marks (gw_state 10))\<lparr>cmd_log := l\<rparr>)" using gw_running [OF gw_accepted(1)] by blast
  obtain c where c: "client_at (snd (gw_handled 10 l)) 1 = Some c" "fw_connection_state c = 0x30000" "cl_ip c = ''10.0.0.2''"
    using gw_first_request [where m = 10 and l = l] by (auto simp only: map_option_eq_Some prod.inject)
  have "path_ref (req_url gw_req) = ''/nodogsplash_auth/''" "NUL \<notin> set (req_url gw_req)" "length (req_url gw_req) < PATH_MAX"
    by code_simp+
  then have "libmicrohttpd_cb gw_env http_files gw_req ((with_marks (gw_state 10))\<lparr>cmd_log := l\<rparr>) = Some (fst (gw_handled 10 l), snd (gw_handled 10 l))"
    using cb_short_url [of gw_req gw_env http_files] by simp
  note r = stepped [OF l web_request [OF this]]
  have "FW_MARK_AUTHENTICATED (snd (gw_handled 10 l)) = 0x30000" by code_simp
  with that [OF r c(1)] c show thesis by simp
qed

section \<open>Properties\<close>

text \<open>
  C1. The firewall agrees with the client list at all times. In every state that the gateway can reach from a
  start that imports no clients from a state file by web requests, control requests and periodic checks, in any order, while the shell commands
  succeed: every rule of the clients' chains was inserted exactly as often, less its deletions, as it belongs to a
  client in state Authenticated; the client counter is the length of the list and within the limit; and no two
  clients have the same MAC and IP address. (The limit of clients in the
  configuration is a C integer and the BinAuth program is not called like iptables.)
\<close>

theorem firewall_matches_clients:
  assumes "shell_ok env" and "reachable env es s"
  shows "(\<forall>r. client_chain r \<longrightarrow> rule_net s r = int (auth_count s r))
    \<and> client_count s = int (length (clients s)) \<and> client_count s \<le> max 0 (maxclients (config s)) \<and> distinct (keys s)"
  using reachable_gateway_inv [OF assms] by (simp add: gateway_inv_def fw_inv_def cl_inv_def)

theorem firewall_matches_clients_witness:
  "\<exists>s c. reachable gw_env [WebRequest http_files gw_req] s \<and> client_at s 1 = Some c
     \<and> fw_connection_state c = FW_MARK_AUTHENTICATED s \<and> rule_net s ''ndsOUT'' = int (auth_count s ''ndsOUT'')"
proof -
  obtain s c where s: "reachable gw_env [WebRequest http_files gw_req] s" "client_at s 1 = Some c"
    "fw_connection_state c = FW_MARK_AUTHENTICATED s" by (rule gw_authenticated)
  have "client_chain ''ndsOUT''" by (simp add: client_chain_def)
  with firewall_matches_clients [OF gw_shell s(1)] s show ?thesis by blast
qed

text \<open>
  C2. Nobody is let through without being asked for. After a start that imported no clients from a state file (there was
  none, or it could not be read), and a trace that is shorter than the range of the client ids, \<open>2 ^ 31 - 2\<close>, whether
  the shell commands succeeded or not, a client in state Authenticated was authenticated by an event of the trace: a
  web request from its own address that carried its token, or the command \<open>auth\<close> on the control socket with its token,
  IP address or MAC. (A start that imports a state file authenticates the clients that were authenticated
  before, without an event.) (The limit of clients in the
  configuration is a C integer and the BinAuth program is not called like iptables.)
\<close>

theorem authenticated_only_by_request:
  assumes "reachable env es s" and "length es < 2 ^ 31 - 2"
    and "client_at s b = Some c" and "fw_connection_state c = FW_MARK_AUTHENTICATED s"
  shows "\<exists>e \<in> set es. grants e c"
  by (rule trace_authenticates [OF assms])

theorem authenticated_only_by_request_witness:
  "\<exists>s c. reachable gw_env [WebRequest http_files gw_req] s \<and> client_at s 1 = Some c
     \<and> cl_ip c = ''10.0.0.2'' \<and> grants (WebRequest http_files gw_req) c"
proof -
  obtain s c where s: "reachable gw_env [WebRequest http_files gw_req] s" "client_at s 1 = Some c"
    "fw_connection_state c = FW_MARK_AUTHENTICATED s" "cl_ip c = ''10.0.0.2''" by (rule gw_authenticated)
  from authenticated_only_by_request [OF s(1) _ s(2,3)] s show ?thesis by auto
qed

text \<open>
  C6. A shutdown leaves nothing behind: while all shell commands succeed, from every state reached after a start that
  imported no clients from a state file, by a trace shorter than the range of the client ids, \<open>2 ^ 31 - 2\<close>: when the
  shutdown ends, every rule that was inserted for a client has been deleted again. The exit status is 1 for the
  normal end, where \<open>pthread_join\<close> succeeded, and 0 otherwise. (The code ignores the result of a deletion, so a
  command that fails leaves its rule; after an import the ids need not be distinct, and the loop may skip a client.) (The limit of clients in the
  configuration is a C integer and the BinAuth program is not called like iptables.)
\<close>

theorem shutdown_removes_rules:
  assumes "shell_ok env" and "reachable env es s" and "length es < 2 ^ 31 - 2"
    and "main_stop host env locked result s = Some (Terminated status doc s')"
  shows "(\<forall>r. client_chain r \<longrightarrow> rule_net s' r = 0) \<and> status = (if result = 0 then 1 else 0)"
proof -
  have inv: "gateway_inv s" by (rule reachable_gateway_inv [OF assms(1,2)])
  have ids: "ids_inv s" using reachable_core(6) [OF assms(2,3)] by simp
  obtain s1 where s1: "auth_client_deauth_all env s = Some s1" "iptables_fw_destroy env s1 = Some s'"
      and n: "status = (if result = 0 then 1 else 0)"
    using assms(4) by (auto simp: main_stop_def termination_handler_def Let_def bind_eq_Some_conv split: if_split_asm)
  have i1: "gateway_inv s1" "globals s1 = globals s" using deauth_all_gateway_inv [OF assms(1) inv s1(1)] by simp_all
  have "\<exists>s'. auth_client_deauth_all env s = Some s' \<and>
      (\<forall>a c. client_at s' a = Some c \<longrightarrow> fw_connection_state c \<noteq> FW_MARK_AUTHENTICATED s)"
    using inv by (intro deauth_all_done [OF _ ids]) (simp_all add: gateway_inv_def)
  then have u: "\<forall>a c. client_at s1 a = Some c \<longrightarrow> fw_connection_state c \<noteq> FW_MARK_AUTHENTICATED s1"
    using s1(1) globals_fields(2) [OF i1(2)] by auto
  have z: "rule_net s1 r = 0" if "client_chain r" for r
    using i1(1) unauthenticated_count [OF u] that by (simp add: gateway_inv_def fw_inv_def cl_inv_def)
  have "\<not> fw_quiet s1" using reachable_core(4) [OF assms(2)] globals_fields(6) [OF i1(2)] by simp
  from destroy_rule_net [OF s1(2) this] z n show ?thesis by simp
qed

theorem shutdown_removes_rules_witness:
  "\<exists>s s'. reachable gw_env [WebRequest http_files gw_req] s \<and> main_stop gw_host gw_env False 0 s = Some (Terminated 1 None s')
     \<and> rule_net s' ''ndsOUT'' = 0"
proof -
  obtain s c where s: "reachable gw_env [WebRequest http_files gw_req] s" by (rule gw_authenticated)
  have ids: "ids_inv s" using reachable_core(6) [OF s] by simp
  obtain s1 where s1: "auth_client_deauth_all gw_env s = Some s1"
    using deauth_all_done [OF reachable_core(1) [OF s] ids reachable_core(2) [OF s], of gw_env] by blast
  obtain s' where "iptables_fw_destroy gw_env s1 = Some s'" using gw_destroy_total by blast
  with s1 have m: "main_stop gw_host gw_env False 0 s = Some (Terminated 1 None s')"
    by (simp add: main_stop_def termination_handler_def exported_state_def state_writer_def gw_host_def)
  have "client_chain ''ndsOUT''" by (simp add: client_chain_def)
  with shutdown_removes_rules [OF gw_shell s _ m] m s show ?thesis by auto
qed

end
