(* ===== verification/Sections.thy ===== *)
theory Sections
  imports Gateway
begin

text \<open>
  The gateway with its threads interleaved. Theory \<open>Gateway\<close> runs each handler from beginning to end; here a
  handler is cut where the code does not hold \<open>client_list_mutex\<close>, and the other threads run in between. The web
  server keeps a pointer to its client across these points. A thread is a program counter with the local variables of
  the C functions; libmicrohttpd runs one thread (\<open>MHD_USE_EPOLL_INTERNALLY\<close>), as do \<open>thread_ndsctl\<close> and
  \<open>thread_client_timeout_check\<close>.
\<close>

section \<open>The web server\<close>

text \<open>
  \<open>Web_lookup\<close>: the MAC is known, the list is to be searched. \<open>Web_add\<close>: at the lock of \<open>add_client\<close>. \<open>Web_serve\<close>:
  with a pointer to the client. \<open>Web_binauth\<close>: at the call of the program for authentication, and \<open>Web_bound\<close> at
  its return. \<open>Web_auth\<close>: at the lock of \<open>auth_client_auth\<close>, with the id that was read before. \<open>Web_commit\<close>:
  at the stores after it. \<open>Web_deauth\<close>: at the lock of \<open>auth_client_deauth\<close>. \<open>Web_fault\<close>: the pointer was
  followed after the client was freed.
\<close>

datatype (plugins only: code) web_pc =
    Web_idle
  | Web_lookup files request string string string
  | Web_add files request string string string
  | Web_serve files request string addr
  | Web_binauth request "string option" addr int string "int \<times> int \<times> int"
  | Web_bound request "string option" addr int "(int \<times> int \<times> int) option"
  | Web_auth request "string option" addr int "string option" "int \<times> int \<times> int" "32 word"
  | Web_commit request "string option" addr int "int \<times> int \<times> int"
  | Web_deauth request "32 word"
  | Web_done response
  | Web_fault

text \<open>The beginning of \<open>libmicrohttpd_cb\<close>, up to the search for the client.\<close>

definition web_begin :: "env \<Rightarrow> files \<Rightarrow> request \<Rightarrow> nds \<Rightarrow> (web_pc \<times> nds) option" where
  "web_begin env fs req s =
     map_option (\<lambda>buf.
       if req_method req \<noteq> ''GET'' then (Web_done (send_error req 503), s)
       else case get_client_ip req of
           None \<Rightarrow> (Web_done (send_error req 503), s)
         | Some ip \<Rightarrow>
             (case get_client_mac env ip s of
                (None, s) \<Rightarrow> (Web_done (send_error req 503), s)
              | (Some mac, s) \<Rightarrow> (Web_lookup fs req (cstr buf) mac ip, s)))
       (buffer_path_simplify (replicate PATH_MAX NUL) (req_url req))"

text \<open>\<open>authenticated\<close> and \<open>preauthenticated\<close>, up to the next lock.\<close>

definition authenticated_section :: "env \<Rightarrow> files \<Rightarrow> request \<Rightarrow> string \<Rightarrow> addr \<Rightarrow> nds \<Rightarrow> web_pc \<times> nds" where
  "authenticated_section env fs req url a s =
     (let host = get_host req in
      if is_foreign_hosts host s then (Web_done (send_refresh req), s)
      else if check_authdir_match url (denydir (config s)) then (Web_deauth req (cl_id (client_of s a)), s)
      else if check_authdir_match url (authdir (config s)) then
        (case show_statuspage env fs req a s of (resp, s) \<Rightarrow> (Web_done resp, s))
      else (Web_done (serve_file fs req url s), s))"

definition authenticate_begin :: "env \<Rightarrow> request \<Rightarrow> string option \<Rightarrow> addr \<Rightarrow> nds \<Rightarrow> web_pc \<times> nds" where
  "authenticate_begin env req redirect_url a s =
     (case c_time env s of (now, s) \<Rightarrow>
       let dflt = (to_int32 (60 * session_timeout (config s)), 0, 0)
       in case binauth (config s) of
            None \<Rightarrow> (Web_auth req redirect_url a now None dflt (cl_id (client_of s a)), s)
          | Some prog \<Rightarrow> (Web_binauth req redirect_url a now prog dflt, s))"

definition preauthenticated_section :: "env \<Rightarrow> files \<Rightarrow> request \<Rightarrow> string \<Rightarrow> addr \<Rightarrow> nds \<Rightarrow> web_pc \<times> nds" where
  "preauthenticated_section env fs req url a s =
     (let host = get_host req in
      if is_foreign_hosts host s then (Web_done (redirect_to_splashpage req host url s), s)
      else if check_authdir_match url (authdir (config s)) then
        (let redirect_url = (case redirectURL (config s) of Some u \<Rightarrow> Some u | None \<Rightarrow> get_redirect_url req) in
         if \<not> try_to_authenticate req a url s
         then (Web_done (encode_and_redirect_to_splashpage req redirect_url s), s)
         else authenticate_begin env req redirect_url a s)
      else if is_splashpage host url s then
        (case show_splashpage env fs req a s of (resp, s) \<Rightarrow> (Web_done resp, s))
      else (Web_done (serve_file fs req url s), s))"

fun web_step :: "env \<Rightarrow> web_pc \<Rightarrow> nds \<Rightarrow> web_pc \<times> nds" where
  "web_step env (Web_lookup fs req url mac ip) s =
     (case client_list_find mac ip s of
        Some a \<Rightarrow> (Web_serve fs req url a, s) | None \<Rightarrow> (Web_add fs req url mac ip, s))"
| "web_step env (Web_add fs req url mac ip) s =
     (case add_client env mac ip s of
        (None, s) \<Rightarrow> (Web_done (send_error req 503), s) | (Some a, s) \<Rightarrow> (Web_serve fs req url a, s))"
| "web_step env (Web_serve fs req url a) s =
     (case client_at s a of
        None \<Rightarrow> (Web_fault, s)
      | Some c \<Rightarrow>
          if fw_connection_state c = FW_MARK_AUTHENTICATED s \<or> fw_connection_state c = FW_MARK_TRUSTED s
          then authenticated_section env fs req url a s
          else preauthenticated_section env fs req url a s)"
| "web_step env (Web_binauth req redirect_url a now prog dflt) s =
     (case client_at s a of
        None \<Rightarrow> (Web_fault, s)
      | Some c \<Rightarrow> (case do_binauth env req prog c dflt s of (r, s) \<Rightarrow> (Web_bound req redirect_url a now r, s)))"
| "web_step env (Web_bound req redirect_url a now r) s =
     (case client_at s a of
        None \<Rightarrow> (Web_fault, s)
      | Some c \<Rightarrow>
          (case r of
             None \<Rightarrow> (Web_done (encode_and_redirect_to_splashpage req redirect_url s), s)
           | Some vals \<Rightarrow> (Web_auth req redirect_url a now (Some ''client_auth'') vals (cl_id c), s)))"
| "web_step env (Web_auth req redirect_url a now reason vals i) s =
     (case auth_client_auth env i reason s of (rc, s) \<Rightarrow>
        if rc \<noteq> 0 then (Web_done (send_error req 503), s) else (Web_commit req redirect_url a now vals, s))"
| "web_step env (Web_commit req redirect_url a now vals) s =
     (case client_at s a of
        None \<Rightarrow> (Web_fault, s)
      | Some c \<Rightarrow>
          (Web_done (case redirect_url of Some u \<Rightarrow> send_redirect_temp req u | None \<Rightarrow> send_error req 200),
           set_session a now vals s))"
| "web_step env (Web_deauth req i) s =
     (let s' = snd (auth_client_deauth env i (Some ''client_deauth'') s)
      in (Web_done (send_redirect_temp req (take 127 (http_url s' []))), s'))"
| "web_step env Web_idle s = (Web_idle, s)"
| "web_step env (Web_done resp) s = (Web_done resp, s)"
| "web_step env Web_fault s = (Web_fault, s)"

fun web_resting :: "web_pc \<Rightarrow> bool" where
  "web_resting Web_idle \<longleftrightarrow> True"
| "web_resting (Web_done resp) \<longleftrightarrow> True"
| "web_resting pc \<longleftrightarrow> False"

section \<open>The control thread and the check\<close>

text \<open>
  \<open>ndsctl_deauth\<close> releases the lock between the search and the change of state; the other commands change the
  state under one lock.
\<close>

datatype control_pc = Control_idle | Control_deauth "32 word" | Control_done "string \<times> int"

definition control_begin ::
  "env \<Rightarrow> (int \<Rightarrow> string) \<Rightarrow> read_result list \<Rightarrow> nds \<Rightarrow> (control_pc \<times> nds) option" where
  "control_begin env ft reads s =
     (case read_request reads 0 False (replicate MAX_BUF NUL) of
        None \<Rightarrow> None
      | Some (finished, request) \<Rightarrow>
          Some (if strncmp_eq (cstr request) ''deauth'' 6
                then (Control_deauth (find_id (cstr (drop 7 request)) s), s)
                else (case run_request env ft request s of (out, s) \<Rightarrow> (Control_done out, s))))"

fun control_step :: "env \<Rightarrow> control_pc \<Rightarrow> nds \<Rightarrow> control_pc \<times> nds" where
  "control_step env (Control_deauth i) s =
     (case (if i \<noteq> 0 then auth_client_deauth env i (Some ''ndsctl_deauth'') s else (-1, s)) of
        (rc, s) \<Rightarrow> (Control_done (yes_no rc, 0), s))"
| "control_step env pc s = (pc, s)"

fun control_resting :: "control_pc \<Rightarrow> bool" where
  "control_resting (Control_deauth i) \<longleftrightarrow> False"
| "control_resting pc \<longleftrightarrow> True"

text \<open>The check: the counters are updated under one lock, the clients are visited under another.\<close>

datatype check_pc = Check_idle | Check_walk int

definition check_begin :: "env \<Rightarrow> nds \<Rightarrow> check_pc \<times> nds" where
  "check_begin env s =
     (case c_time env s of (now, s) \<Rightarrow>
       (case iptables_fw_counters_update env s of (rc, s) \<Rightarrow>
          if rc = -1 then (Check_idle, snd (c_time env s)) else (Check_walk now, s)))"

definition check_walk :: "env \<Rightarrow> int \<Rightarrow> nds \<Rightarrow> nds option" where
  "check_walk env now s =
     map_option (\<lambda>s. snd (c_time env s))
       (client_walk (refresh_client env now) (Suc (length (clients s))) (client_get_first_client s) s)"

section \<open>Interleaving\<close>

record running =
  shared :: nds
  web_at :: web_pc
  control_at :: control_pc
  check_at :: check_pc

text \<open>After a fault nothing is known of what the program does.\<close>

abbreviation (input) sound :: "running \<Rightarrow> bool" where
  "sound r \<equiv> web_at r \<noteq> Web_fault"

inductive section_step :: "env \<Rightarrow> running \<Rightarrow> running \<Rightarrow> bool" for env where
  web_arrives: "sound r \<Longrightarrow> web_resting (web_at r) \<Longrightarrow> web_begin env fs req (shared r) = Some (pc, s) \<Longrightarrow>
     section_step env r (r\<lparr>shared := s, web_at := pc\<rparr>)"
| web_moves: "sound r \<Longrightarrow> \<not> web_resting (web_at r) \<Longrightarrow> web_step env (web_at r) (shared r) = (pc, s) \<Longrightarrow>
     section_step env r (r\<lparr>shared := s, web_at := pc\<rparr>)"
| control_arrives: "sound r \<Longrightarrow> control_resting (control_at r) \<Longrightarrow>
     control_begin env ft reads (shared r) = Some (pc', s) \<Longrightarrow> section_step env r (r\<lparr>shared := s, control_at := pc'\<rparr>)"
| control_moves: "sound r \<Longrightarrow> \<not> control_resting (control_at r) \<Longrightarrow>
     control_step env (control_at r) (shared r) = (pc', s) \<Longrightarrow> section_step env r (r\<lparr>shared := s, control_at := pc'\<rparr>)"
| check_wakes: "sound r \<Longrightarrow> check_at r = Check_idle \<Longrightarrow> check_begin env (shared r) = (pc'', s) \<Longrightarrow>
     section_step env r (r\<lparr>shared := s, check_at := pc''\<rparr>)"
| check_walks: "sound r \<Longrightarrow> check_at r = Check_walk now \<Longrightarrow> check_walk env now (shared r) = Some s \<Longrightarrow>
     section_step env r (r\<lparr>shared := s, check_at := Check_idle\<rparr>)"

inductive_cases section_stepE: "section_step env r r'"

definition at_rest :: "nds \<Rightarrow> running" where
  "at_rest s = \<lparr>shared = s, web_at = Web_idle, control_at = Control_idle, check_at = Check_idle\<rparr>"

text \<open>What the interleaved threads can reach from a start, see \<open>reachable\<close>.\<close>

definition interleaved :: "env \<Rightarrow> running \<Rightarrow> bool" where
  "interleaved env r \<longleftrightarrow> (\<exists>s. reachable env [] s \<and> (section_step env)\<^sup>*\<^sup>* (at_rest s) r)"

section \<open>The contract of a section\<close>

text \<open>What the local variables of the web server owe to the section before.\<close>

fun pc_ok :: "nds \<Rightarrow> web_pc \<Rightarrow> bool" where
  "pc_ok s (Web_lookup fs req url mac ip) \<longleftrightarrow> length mac \<le> 17"
| "pc_ok s (Web_add fs req url mac ip) \<longleftrightarrow> length mac \<le> 17"
| "pc_ok s (Web_binauth req redirect_url a now prog dflt) \<longleftrightarrow> binauth (config s) = Some prog"
| "pc_ok s pc \<longleftrightarrow> True"

lemma statics_binauth: "statics s' = statics s \<Longrightarrow> binauth (config s') = binauth (config s)"
  using core_fields(3) [OF globals_fields(7), of "s'\<lparr>config := (config s')\<lparr>debuglevel := 0\<rparr>\<rparr>" "s\<lparr>config := (config s)\<lparr>debuglevel := 0\<rparr>\<rparr>"]
  by (simp add: statics_def)

lemma pc_ok_statics: "statics s' = statics s \<Longrightarrow> pc_ok s' pc = pc_ok s pc"
  by (cases pc) (simp_all add: statics_binauth [of s' s])

definition section_ok :: "nds \<Rightarrow> web_pc \<times> nds \<Rightarrow> bool" where
  "section_ok s p \<longleftrightarrow> tame s (snd p) \<and> (gateway_inv s \<longrightarrow> gateway_inv (snd p)) \<and> pc_ok (snd p) (fst p)"

lemma section_ok_here: "pc_ok s pc \<Longrightarrow> section_ok s (pc, s)"
  by (simp add: section_ok_def)

lemma section_ok_page: "section_ok s (Web_done resp, snd (show_templated_page env fs req a page s))"
  by (simp add: section_ok_def templated_page_tame templated_page_gateway_inv)

lemma web_begin_ok:
  assumes "web_begin env fs req s = Some p"
  shows "section_ok s p"
proof -
  obtain buf where p: "p = (if req_method req \<noteq> ''GET'' then (Web_done (send_error req 503), s)
       else case get_client_ip req of
           None \<Rightarrow> (Web_done (send_error req 503), s)
         | Some ip \<Rightarrow>
             (case get_client_mac env ip s of
                (None, s) \<Rightarrow> (Web_done (send_error req 503), s)
              | (Some mac, s) \<Rightarrow> (Web_lookup fs req (cstr buf) mac ip, s)))"
    using assms unfolding web_begin_def map_option_eq_Some by blast
  have "section_ok s (case get_client_mac env ip s of
      (None, s) \<Rightarrow> (Web_done (send_error req 503), s) | (Some mac, s) \<Rightarrow> (Web_lookup fs req (cstr buf) mac ip, s))" for ip
  proof (cases "get_client_mac env ip s")
    case (Pair m s1)
    with same_but_log_tame [OF get_client_mac_frame(1) [OF Pair]] get_client_mac_frame(2,3) [OF Pair] show ?thesis
      by (cases m) (simp_all add: section_ok_def)
  qed
  then show ?thesis unfolding p by (simp add: section_ok_here split: option.split)
qed

lemma authenticated_section_ok: "section_ok s (authenticated_section env fs req url a s)"
  by (simp add: authenticated_section_def show_statuspage_def Let_def case_prod_beta section_ok_here section_ok_page)

lemma authenticate_begin_ok: "section_ok s (authenticate_begin env req u a s)"
  using ticks_tame(1) [of s] time_gateway_inv [of s]
  by (simp add: authenticate_begin_def c_time_def Let_def section_ok_def split: option.split)

lemma preauthenticated_section_ok: "section_ok s (preauthenticated_section env fs req url a s)"
  by (simp add: preauthenticated_section_def show_splashpage_def Let_def case_prod_beta section_ok_here section_ok_page
      authenticate_begin_ok)

text \<open>Every section of the web server but one is tame.\<close>

lemma web_step_tame:
  assumes "\<And>fs req url mac ip. pc \<noteq> Web_add fs req url mac ip"
  shows "tame s (snd (web_step env pc s))"
proof (cases pc)
  case (Web_serve fs req url a)
  then show ?thesis using authenticated_section_ok preauthenticated_section_ok
    by (simp add: section_ok_def split: option.split)
qed (use assms in \<open>simp_all add: case_prod_beta Let_def auth_ops_tame set_session_tame
      same_but_log_tame [OF do_binauth_same] split: option.split\<close>)

lemma web_step_rules:
  assumes "shell_ok env" and "gateway_inv s" and "pc_ok s pc"
  shows "gateway_inv (snd (web_step env pc s))"
proof (cases pc)
  case (Web_add fs req url mac ip)
  have "snd (web_step env pc s) = snd (client_list_add_client env mac ip s)"
    by (simp add: Web_add add_client_def split: prod.split option.split)
  with add_client_gateway_inv [OF assms(2), of mac env ip] assms(3) Web_add show ?thesis by simp
next
  case (Web_serve fs req url a)
  then show ?thesis using assms(2) authenticated_section_ok preauthenticated_section_ok
    by (simp add: section_ok_def split: option.split)
qed (use assms in \<open>simp_all add: case_prod_beta Let_def auth_client_ops_gateway_inv set_session_gateway_inv
      do_binauth_gateway_inv split: option.split\<close>)

lemma web_step_pc:
  assumes "pc_ok s pc" and "web_step env pc s = (pc', s')"
  shows "pc_ok s' pc'"
  using assms
proof (cases pc)
  case (Web_serve fs req url a)
  then show ?thesis using assms(2) authenticated_section_ok [of s env fs req url a] preauthenticated_section_ok [of s env fs req url a]
    by (auto simp: section_ok_def split: option.split_asm if_split_asm)
qed (auto simp: Let_def split: option.split_asm prod.split_asm if_split_asm)

lemma check_begin_frame:
  "tame s (snd (check_begin env s))" "gateway_inv s \<Longrightarrow> gateway_inv (snd (check_begin env s))"
proof -
  let ?s = "snd (iptables_fw_counters_update env (s\<lparr>time_calls := Suc (time_calls s)\<rparr>))"
  have t: "tame s ?s" by (rule only_counters_frame [OF timed_update_only_counters])
  show "tame s (snd (check_begin env s))"
    using t tame_trans [OF t ticks_tame(1)] by (simp add: check_begin_def c_time_def case_prod_beta)
  assume "gateway_inv s"
  then have "gateway_inv ?s" by (intro counters_update_gateway_inv time_gateway_inv)
  then show "gateway_inv (snd (check_begin env s))"
    by (simp add: check_begin_def c_time_def case_prod_beta time_gateway_inv)
qed

lemma check_walk_frame:
  assumes "check_walk env now s = Some s'"
  shows "tame s s'" "shell_ok env \<Longrightarrow> gateway_inv s \<Longrightarrow> gateway_inv s'"
proof -
  obtain s1 where s1: "client_walk (refresh_client env now) (Suc (length (clients s))) (client_get_first_client s) s = Some s1"
      "s' = s1\<lparr>time_calls := Suc (time_calls s1)\<rparr>"
    using assms by (auto simp: check_walk_def c_time_def)
  have "tame s s1"
    by (rule client_walk_invariant [OF s1(1), where I = "tame s"]) (auto intro: tame_trans refresh_client_frame(1))
  then show "tame s s'" unfolding s1(2) by (rule tame_trans [OF _ ticks_tame(1)])
  assume "shell_ok env" "gateway_inv s"
  with walk_gateway_inv [OF s1(1)] have "gateway_inv s1" by (simp add: refresh_client_gateway_inv)
  then show "gateway_inv s'" unfolding s1(2) by (rule time_gateway_inv)
qed

lemma control_begin_frame:
  assumes "control_begin env ft reads s = Some (pc, s')"
  shows "tame s s'" "shell_ok env \<Longrightarrow> gateway_inv s \<Longrightarrow> gateway_inv s'"
proof -
  obtain request where "s' = s \<or> s' = snd (run_request env ft request s)"
    using assms by (auto simp: control_begin_def split: option.split_asm if_split_asm prod.split_asm) (metis snd_conv)
  then show "tame s s'" "shell_ok env \<Longrightarrow> gateway_inv s \<Longrightarrow> gateway_inv s'"
    using run_request_tame run_request_gateway_inv by auto
qed

lemma control_step_frame:
  "tame s (snd (control_step env pc s))" "shell_ok env \<Longrightarrow> gateway_inv s \<Longrightarrow> gateway_inv (snd (control_step env pc s))"
  by (cases pc; simp add: case_prod_beta auth_ops_tame auth_client_ops_gateway_inv)+

text \<open>Every section, whatever thread runs it, satisfies the contract of a handler.\<close>

definition section_run :: "env \<Rightarrow> nds \<Rightarrow> nds \<Rightarrow> bool" where
  "section_run env s s' \<longleftrightarrow>
     (\<exists>r r'. section_step env r r' \<and> pc_ok (shared r) (web_at r) \<and> s = shared r \<and> s' = shared r')"

lemma section_run_cases:
  assumes "section_run env s s'"
  obtains (tame) "tame s s'" "shell_ok env \<Longrightarrow> gateway_inv s \<Longrightarrow> gateway_inv s'"
  | (new) mac ip where "s' = snd (client_list_add_client env mac ip s)" "length mac \<le> 17"
proof -
  obtain r r' where r: "section_step env r r'" "pc_ok (shared r) (web_at r)" "s = shared r" "s' = shared r'"
    using assms by (auto simp: section_run_def)
  show thesis using r(1)
  proof (cases rule: section_step.cases)
    case (web_arrives fs req pc s1)
    with web_begin_ok r show thesis by (intro tame) (fastforce simp: section_ok_def)+
  next
    case (web_moves pc s1)
    show thesis
    proof (cases "\<exists>fs req url mac ip. web_at r = Web_add fs req url mac ip")
      case True
      then obtain fs req url mac ip where a: "web_at r = Web_add fs req url mac ip" by blast
      show thesis
        by (rule new [of mac ip]) (use a web_moves r in \<open>auto simp: add_client_def split: prod.split_asm option.split_asm\<close>)
    next
      case False
      then show thesis using web_step_tame [of "web_at r" s env] web_step_rules [of env s "web_at r"] web_moves r
        by (intro tame) auto
    qed
  next
    case (control_arrives ft reads pc s1)
    with control_begin_frame r show thesis by (intro tame) auto
  next
    case (control_moves pc s1)
    with control_step_frame [where env = env and s = s and pc = "control_at r"] r show thesis by (intro tame) auto
  next
    case (check_wakes pc s1)
    with check_begin_frame [where env = env and s = s] r show thesis by (intro tame) auto
  next
    case (check_walks now s1)
    with check_walk_frame r show thesis by (intro tame) auto
  qed
qed

interpretation critical: gateway_handler section_run
proof
  fix env s s' assume run: "section_run env s s'"
  show "statics s' = statics s"
    by (rule section_run_cases [OF run]) (simp_all add: tame_def add_client_frame)
  show "cl_inv s \<Longrightarrow> is_int32 (maxclients (config s)) \<Longrightarrow> cl_inv s'"
    by (rule section_run_cases [OF run]) (simp_all add: tame_def add_client_inv)
  show "cl_inv s \<Longrightarrow> is_int32 (maxclients (config s)) \<Longrightarrow> ids_inv s \<Longrightarrow> client_id s + 1 < 2 ^ 31 \<Longrightarrow>
      ids_inv s' \<and> client_id s' \<le> client_id s + 1"
    by (rule section_run_cases [OF run]) (simp_all add: tame_def add_client_ids_inv add_client_frame)
  show "shell_ok env \<Longrightarrow> gateway_inv s \<Longrightarrow> gateway_inv s'"
    by (rule section_run_cases [OF run]) (simp_all add: add_client_gateway_inv)
qed

lemma section_step_run:
  assumes "section_step env r r'" and "pc_ok (shared r) (web_at r)"
  shows "section_run env (shared r) (shared r')" "pc_ok (shared r') (web_at r')"
proof -
  show run: "section_run env (shared r) (shared r')" using assms by (auto simp: section_run_def)
  note st = critical.run_statics [OF this]
  show "pc_ok (shared r') (web_at r')" using assms(1)
  proof (cases rule: section_step.cases)
    case (web_arrives fs req pc s)
    with web_begin_ok [of env fs req "shared r"] show ?thesis by (simp add: section_ok_def)
  next
    case (web_moves pc s)
    with web_step_pc [OF assms(2)] show ?thesis by simp
  qed (use pc_ok_statics [OF st] assms(2) in simp_all)
qed

lemma section_steps_runs:
  assumes "(section_step env)\<^sup>*\<^sup>* (at_rest s) r"
  shows "(\<exists>n. (section_run env ^^ n) s (shared r)) \<and> pc_ok (shared r) (web_at r)"
  using assms
proof induction
  case base
  have "(section_run env ^^ 0) s (shared (at_rest s))" by (simp add: at_rest_def)
  then show ?case by (auto simp: at_rest_def simp del: relpowp.simps)
next
  case (step r r')
  then obtain n where "(section_run env ^^ n) s (shared r)" "pc_ok (shared r) (web_at r)" by blast
  with section_step_run [OF step.hyps(2)] have "(section_run env ^^ Suc n) s (shared r')" "pc_ok (shared r') (web_at r')" by auto
  then show ?case by blast
qed

lemma interleaved_runs:
  assumes "interleaved env r"
  obtains s n where "reachable env [] s" "(section_run env ^^ n) s (shared r)"
  using assms section_steps_runs unfolding interleaved_def by blast

lemma interleaved_gateway_inv: "shell_ok env \<Longrightarrow> interleaved env r \<Longrightarrow> gateway_inv (shared r)"
  by (rule interleaved_runs [of env r]) (auto intro: critical.runs_rules reachable_gateway_inv)

lemma interleaved_core:
  assumes "interleaved env r"
  shows "cl_inv (shared r)" "marks_distinct (shared r)" "FW_MARK_BLOCKED (shared r) \<noteq> FW_MARK_PREAUTHENTICATED (shared r)"
proof -
  obtain s n where s: "reachable env [] s" "(section_run env ^^ n) s (shared r)" by (rule interleaved_runs [OF assms])
  note st = critical.runs_statics [OF s(2)]
  show "cl_inv (shared r)" by (rule critical.runs_inv [OF s(2) reachable_core(1,5) [OF s(1)]])
  show "marks_distinct (shared r)" using reachable_core(2) [OF s(1)] marks_distinct_statics [OF st] by simp
  show "FW_MARK_BLOCKED (shared r) \<noteq> FW_MARK_PREAUTHENTICATED (shared r)"
    using reachable_core(3) [OF s(1)] statics_fields [OF st] by simp
qed

section \<open>A handler that is not interrupted\<close>

definition web_next :: "env \<Rightarrow> web_pc \<times> nds \<Rightarrow> web_pc \<times> nds" where
  "web_next env p = web_step env (fst p) (snd p)"

lemma web_next_done: "(web_next env ^^ n) (Web_done resp, s) = (Web_done resp, s)"
  by (induction n) (simp_all add: web_next_def)

lemma web_next_steps: "web_next env (pc, s) = p \<Longrightarrow> (web_next env ^^ Suc n) (pc, s) = (web_next env ^^ n) p"
  by (simp add: funpow_swap1)

text \<open>The sections of a state change, of a request with a pointer, and of a whole request, in sequence.\<close>

lemma auth_section_sequence:
  assumes "distinct (addrs s)" and "distinct (ids s)" and "client_at s a = Some c"
  shows "(web_next env ^^ 2) (Web_auth req u a now reason vals (cl_id c), s) =
    (case auth_client_auth env (cl_id c) reason s of (rc, s) \<Rightarrow>
       if rc \<noteq> 0 then (Web_done (send_error req 503), s)
       else (Web_done (case u of Some u \<Rightarrow> send_redirect_temp req u | None \<Rightarrow> send_error req 200), set_session a now vals s))"
proof -
  obtain rc s1 where r: "auth_client_auth env (cl_id c) reason s = (rc, s1)" by (cases "auth_client_auth env (cl_id c) reason s")
  obtain st where "client_at s1 a = Some (c\<lparr>fw_connection_state := st\<rparr>)"
    using auth_client_auth_at(2) [OF assms, of env reason] r by auto
  with r show ?thesis by (simp add: numeral_2_eq_2 web_next_def)
qed

lemma web_next_add: "(web_next env ^^ (m + n)) p = (web_next env ^^ m) ((web_next env ^^ n) p)"
  by (simp add: funpow_add)

lemma auth_section_sequence4:
  assumes "distinct (addrs s)" and "distinct (ids s)" and "client_at s a = Some c"
  shows "(web_next env ^^ (2 + n)) (Web_auth req u a now reason vals (cl_id c), s) =
    (case auth_client_auth env (cl_id c) reason s of (rc, s) \<Rightarrow>
       if rc \<noteq> 0 then (Web_done (send_error req 503), s)
       else (Web_done (case u of Some u \<Rightarrow> send_redirect_temp req u | None \<Rightarrow> send_error req 200), set_session a now vals s))"
  unfolding add.commute [of 2 n] web_next_add auth_section_sequence [OF assms] by (simp add: web_next_done split: prod.split)

lemma authenticate_sequence:
  assumes "distinct (addrs s)" and "distinct (ids s)" and "client_at s a = Some c"
  shows "(web_next env ^^ 4) (authenticate_begin env req u a s)
    = (Web_done (fst (authenticate_client env req u a s)), snd (authenticate_client env req u a s))"
proof -
  let ?s = "s\<lparr>time_calls := Suc (time_calls s)\<rparr>" and ?v = "(to_int32 (60 * session_timeout (config s)), 0, 0)"
  have s: "distinct (addrs ?s)" "distinct (ids ?s)" "client_at ?s a = Some c"
    using assms by (simp_all add: addrs_def ids_def client_at_def)
  have c: "client_of ?s a = c" by (rule client_of_at [OF s(3)])
  show ?thesis
  proof (cases "binauth (config s)")
    case None
    then have "authenticate_begin env req u a s = (Web_auth req u a (time_of env (time_calls s)) None ?v (cl_id c), ?s)"
      by (simp add: authenticate_begin_def c_time_def c Let_def)
    with auth_section_sequence4 [OF s, of 2] None c show ?thesis
      by (simp add: authenticate_client_def c_time_def Let_def case_prod_beta)
  next
    case (Some prog)
    obtain r s2 where b: "do_binauth env req prog c ?v ?s = (r, s2)" by (cases "do_binauth env req prog c ?v ?s")
    then have "same_but_log ?s s2" using do_binauth_same [of ?s env req prog c ?v] by simp
    note k = same_but_log_client_at [OF this] same_but_log_clients [OF this]
    have s2: "distinct (addrs s2)" "distinct (ids s2)" "client_at s2 a = Some c"
      using s k by (simp_all add: same_clients_def)
    have first: "authenticate_begin env req u a s = (Web_binauth req u a (time_of env (time_calls s)) prog ?v, ?s)"
      using Some by (simp add: authenticate_begin_def c_time_def Let_def)
    have bound: "(web_next env ^^ 1) (authenticate_begin env req u a s) = (Web_bound req u a (time_of env (time_calls s)) r, s2)"
      using b s(3) by (simp add: first web_next_def)
    show ?thesis
    proof (cases r)
      case None
      have "(web_next env ^^ (2 + 1 + 1)) (authenticate_begin env req u a s) = (Web_done (encode_and_redirect_to_splashpage req u s2), s2)"
        unfolding web_next_add bound using s2(3) None by (simp add: web_next_def web_next_done)
      with None Some b c show ?thesis by (simp add: authenticate_client_def c_time_def Let_def)
    next
      case v: (Some vals)
      have auth: "(web_next env ^^ 1) (Web_bound req u a (time_of env (time_calls s)) r, s2)
          = (Web_auth req u a (time_of env (time_calls s)) (Some ''client_auth'') vals (cl_id c), s2)"
        using s2(3) v by (simp add: web_next_def)
      have "(web_next env ^^ (2 + 1 + 1)) (authenticate_begin env req u a s)
          = (web_next env ^^ 2) (Web_auth req u a (time_of env (time_calls s)) (Some ''client_auth'') vals (cl_id c), s2)"
        unfolding web_next_add bound auth ..
      with auth_section_sequence [OF s2] v Some b c client_of_at [OF s2(3)] show ?thesis
        by (simp add: authenticate_client_def c_time_def Let_def case_prod_beta)
    qed
  qed
qed

lemma deauth_sequence:
  "(web_next env ^^ (n + 1)) (Web_deauth req i, s) =
    (Web_done (send_redirect_temp req (take 127 (http_url (snd (auth_client_deauth env i (Some ''client_deauth'') s)) []))),
     snd (auth_client_deauth env i (Some ''client_deauth'') s))"
  unfolding web_next_add by (simp add: web_next_def web_next_done Let_def)

lemma serve_sequence:
  assumes "distinct (addrs s)" and "distinct (ids s)" and "client_at s a = Some c"
  shows "(web_next env ^^ 5) (Web_serve fs req url a, s) =
    (let r = (if fw_connection_state c = FW_MARK_AUTHENTICATED s \<or> fw_connection_state c = FW_MARK_TRUSTED s
              then authenticated env fs req url a s else preauthenticated env fs req url a s)
     in (Web_done (fst r), snd r))"
proof -
  have e: "(web_next env ^^ (4 + 1)) (Web_serve fs req url a, s) = (web_next env ^^ 4)
      (if fw_connection_state c = FW_MARK_AUTHENTICATED s \<or> fw_connection_state c = FW_MARK_TRUSTED s
       then authenticated_section env fs req url a s else preauthenticated_section env fs req url a s)"
    unfolding web_next_add using assms(3) by (simp add: web_next_def)
  have "(web_next env ^^ 4) (authenticated_section env fs req url a s)
      = (Web_done (fst (authenticated env fs req url a s)), snd (authenticated env fs req url a s))"
    using deauth_sequence [where env = env and n = 3]
    by (simp add: authenticated_section_def authenticated_def Let_def web_next_done case_prod_beta)
  moreover have "(web_next env ^^ 4) (preauthenticated_section env fs req url a s)
      = (Web_done (fst (preauthenticated env fs req url a s)), snd (preauthenticated env fs req url a s))"
    using authenticate_sequence [OF assms]
    by (simp add: preauthenticated_section_def preauthenticated_def Let_def web_next_done case_prod_beta)
  ultimately show ?thesis using e by (simp add: Let_def)
qed

lemma lookup_sequence:
  assumes inv: "cl_inv s" "ids_inv s" "client_id s + 1 < 2 ^ 31" "is_int32 (maxclients (config s))"
  shows "(web_next env ^^ 7) (Web_lookup fs req url mac ip, s) =
    (let r = (case (case client_list_find mac ip s of Some a \<Rightarrow> (Some a, s) | None \<Rightarrow> add_client env mac ip s) of
                (None, s) \<Rightarrow> (send_error req 503, s)
              | (Some a, s) \<Rightarrow>
                  (if fw_connection_state (client_of s a) = FW_MARK_AUTHENTICATED s
                      \<or> fw_connection_state (client_of s a) = FW_MARK_TRUSTED s
                   then authenticated env fs req url a s else preauthenticated env fs req url a s))
     in (Web_done (fst r), snd r))"
proof -
  let ?r = "\<lambda>a s. if fw_connection_state (client_of s a) = FW_MARK_AUTHENTICATED s
      \<or> fw_connection_state (client_of s a) = FW_MARK_TRUSTED s
    then authenticated env fs req url a s else preauthenticated env fs req url a s"
  have serve: "(web_next env ^^ (n + 5)) (Web_serve fs req url a, s2) = (Web_done (fst (?r a s2)), snd (?r a s2))"
    if r: "client_list_find mac ip s = Some a \<and> s2 = s \<or> client_list_find mac ip s = None \<and> add_client env mac ip s = (Some a, s2)"
    for a s2 n
  proof -
    obtain c where c: "client_at s2 a = Some c" "cl_inv s2" "ids_inv s2" by (rule found_or_added [OF inv r])
    then have "distinct (addrs s2)" "distinct (ids s2)" by (simp_all add: cl_inv_def ids_inv_def)
    from serve_sequence [OF this c(1)] show ?thesis
      unfolding web_next_add by (simp add: Let_def client_of_at [OF c(1)] web_next_done)
  qed
  show ?thesis
  proof (cases "client_list_find mac ip s")
    case (Some a)
    have "(web_next env ^^ (6 + 1)) (Web_lookup fs req url mac ip, s) = (web_next env ^^ (1 + 5)) (Web_serve fs req url a, s)"
      unfolding web_next_add [where m = 6] using Some by (simp add: web_next_def)
    with serve [of a s 1] Some show ?thesis by (simp add: Let_def)
  next
    case None
    obtain m s2 where m: "add_client env mac ip s = (m, s2)" by (cases "add_client env mac ip s")
    have "(web_next env ^^ (5 + 1 + 1)) (Web_lookup fs req url mac ip, s)
        = (web_next env ^^ 5) (case m of None \<Rightarrow> (Web_done (send_error req 503), s2) | Some a \<Rightarrow> (Web_serve fs req url a, s2))"
      unfolding web_next_add [where n = 1] using None m by (simp add: web_next_def split: option.split)
    with serve [of _ s2 0] None m show ?thesis by (cases m) (simp_all add: Let_def web_next_done)
  qed
qed

lemma web_sequence:
  assumes inv: "cl_inv s" "ids_inv s" "client_id s + 1 < 2 ^ 31" "is_int32 (maxclients (config s))"
  shows "map_option (web_next env ^^ 7) (web_begin env fs req s)
    = map_option (\<lambda>(resp, s'). (Web_done resp, s')) (libmicrohttpd_cb env fs req s)"
proof -
  have "(web_next env ^^ 7) (case get_client_mac env ip s of
        (None, s) \<Rightarrow> (Web_done (send_error req 503), s) | (Some mac, s) \<Rightarrow> (Web_lookup fs req url mac ip, s))
      = (let r = (case get_client_mac env ip s of
               (None, s) \<Rightarrow> (send_error req 503, s)
             | (Some mac, s) \<Rightarrow>
                 (case (case client_list_find mac ip s of
                          Some a \<Rightarrow> (Some a, s) | None \<Rightarrow> add_client env mac ip s) of
                    (None, s) \<Rightarrow> (send_error req 503, s)
                  | (Some a, s) \<Rightarrow>
                      (let st = fw_connection_state (client_of s a) in
                       if st = FW_MARK_AUTHENTICATED s \<or> st = FW_MARK_TRUSTED s
                       then authenticated env fs req url a s
                       else preauthenticated env fs req url a s))) in (Web_done (fst r), snd r))" for ip url
  proof (cases "get_client_mac env ip s")
    case (Pair m s1)
    note t = same_but_log_tame [OF get_client_mac_frame(1) [OF Pair]]
    have "cl_inv s1" "ids_inv s1" "client_id s1 + 1 < 2 ^ 31" "is_int32 (maxclients (config s1))"
      using t inv statics_fields(6) [of s1 s] by (simp_all add: tame_def)
    from lookup_sequence [OF this] Pair show ?thesis unfolding Let_def by (cases m) (simp_all add: web_next_done)
  qed
  then have "(web_next env ^^ 7) (if req_method req \<noteq> ''GET'' then (Web_done (send_error req 503), s)
       else case get_client_ip req of
           None \<Rightarrow> (Web_done (send_error req 503), s)
         | Some ip \<Rightarrow>
             (case get_client_mac env ip s of
                (None, s) \<Rightarrow> (Web_done (send_error req 503), s)
              | (Some mac, s) \<Rightarrow> (Web_lookup fs req url mac ip, s)))
      = (Web_done (fst (handle_request env fs req url s)), snd (handle_request env fs req url s))" for url
    unfolding handle_request_def Let_def by (cases "get_client_ip req") (simp_all add: web_next_done)
  then show ?thesis
    by (simp add: web_begin_def libmicrohttpd_cb_def option.map_comp comp_def case_prod_beta)
qed

text \<open>The other two threads.\<close>

lemma run_deauth_request:
  assumes "strncmp_eq (cstr request) ''deauth'' 6"
  shows "run_request env ft request s
    = (case ndsctl_deauth env (cstr (drop 7 request)) s of (out, s') \<Rightarrow> ((out, 0), s'))"
proof -
  have "take 6 (cstr request) = ''deauth''" using assms by (simp add: strncmp_eq_def)
  then obtain rest where c: "cstr request = ''deauth'' @ rest" by (metis append_take_drop_id)
  show ?thesis unfolding run_request_def Let_def c by (simp add: strncmp_eq_def)
qed

lemma control_sequence:
  "map_option (\<lambda>(pc, s). control_step env pc s) (control_begin env ft reads s)
    = map_option (\<lambda>(out, s'). (Control_done out, s')) (ndsctl_handler env ft reads s)"
  by (auto simp: control_begin_def ndsctl_handler_def run_deauth_request ndsctl_deauth_def Let_def
      split: option.split prod.split)

lemma check_sequence:
  "(case check_begin env s of (Check_idle, s') \<Rightarrow> Some s' | (Check_walk now, s') \<Rightarrow> check_walk env now s')
    = map_option snd (thread_client_timeout_check env s)"
  by (simp add: check_begin_def check_walk_def thread_client_timeout_check_def fw_refresh_client_list_def c_time_def
      case_prod_beta option.map_comp comp_def)

section \<open>The handlers are among the interleavings\<close>

definition quiescent :: "running \<Rightarrow> bool" where
  "quiescent r \<longleftrightarrow> web_resting (web_at r) \<and> control_resting (control_at r) \<and> check_at r = Check_idle"

lemma quiescent_sound: "quiescent r \<Longrightarrow> sound r"
  by (auto simp: quiescent_def)

lemma web_next_fixed: "web_step env pc s = (pc, s) \<Longrightarrow> (web_next env ^^ n) (pc, s) = (pc, s)"
  by (induction n) (simp_all add: web_next_def)

lemma web_alone:
  assumes "(web_next env ^^ n) (web_at r, shared r) = (pc, s')"
  shows "(section_step env)\<^sup>*\<^sup>* r (r\<lparr>shared := s', web_at := pc\<rparr>)"
  using assms
proof (induction n arbitrary: r)
  case 0
  then have "r\<lparr>shared := s', web_at := pc\<rparr> = r" by auto
  then show ?case by simp
next
  case (Suc n)
  show ?case
  proof (cases "web_resting (web_at r) \<or> \<not> sound r")
    case True
    then have "web_step env (web_at r) (shared r) = (web_at r, shared r)" by (cases "web_at r") simp_all
    from web_next_fixed [OF this, of "Suc n"] Suc.prems have "r\<lparr>shared := s', web_at := pc\<rparr> = r" by auto
    then show ?thesis by simp
  next
    case False
    obtain pc1 s where p: "web_step env (web_at r) (shared r) = (pc1, s)" by (cases "web_step env (web_at r) (shared r)")
    let ?r = "r\<lparr>shared := s, web_at := pc1\<rparr>"
    have "section_step env r ?r" using False p by (auto intro: section_step.web_moves)
    moreover have "(web_next env ^^ n) (web_at ?r, shared ?r) = (pc, s')"
      using Suc.prems web_next_steps [of env "web_at r" "shared r" "(pc1, s)" n] p
      by (simp add: web_next_def [of env "(web_at r, shared r)"])
    from Suc.IH [OF this] have "(section_step env)\<^sup>*\<^sup>* ?r (r\<lparr>shared := s', web_at := pc\<rparr>)" by simp
    ultimately show ?thesis by (rule converse_rtranclp_into_rtranclp)
  qed
qed

lemma handler_sections:
  assumes q: "quiescent r" and step: "gateway_step env e (shared r) s'"
    and inv: "cl_inv (shared r)" "ids_inv (shared r)" "client_id (shared r) + 1 < 2 ^ 31" "is_int32 (maxclients (config (shared r)))"
  shows "\<exists>r'. (section_step env)\<^sup>*\<^sup>* r r' \<and> quiescent r' \<and> shared r' = s'"
  using step
proof (cases rule: gateway_step.cases)
  case (web_request fs req resp)
  with web_sequence [OF inv, of env fs req] obtain pc s where b: "web_begin env fs req (shared r) = Some (pc, s)"
      "(web_next env ^^ 7) (pc, s) = (Web_done resp, s')" by auto
  let ?r = "r\<lparr>shared := s, web_at := pc\<rparr>"
  have "section_step env r ?r" using q b(1) quiescent_sound [OF q] by (auto intro: section_step.web_arrives simp: quiescent_def)
  moreover have "(section_step env)\<^sup>*\<^sup>* ?r (?r\<lparr>shared := s', web_at := Web_done resp\<rparr>)"
    by (rule web_alone [where n = 7]) (simp add: b(2))
  ultimately show ?thesis using q by (intro exI [of _ "?r\<lparr>shared := s', web_at := Web_done resp\<rparr>"]) (auto simp: quiescent_def)
next
  case (control_request ft reads out)
  with control_sequence [of env ft reads "shared r"] obtain pc s where b: "control_begin env ft reads (shared r) = Some (pc, s)"
      "control_step env pc s = (Control_done out, s')" by auto
  let ?r = "r\<lparr>shared := s, control_at := pc\<rparr>" and ?r' = "r\<lparr>shared := s', control_at := Control_done out\<rparr>"
  have 1: "section_step env r ?r"
    using q b(1) quiescent_sound [OF q] by (auto intro: section_step.control_arrives simp: quiescent_def)
  have "(section_step env)\<^sup>*\<^sup>* ?r ?r'"
  proof (cases "control_resting pc")
    case True
    then have "?r' = ?r" using b(2) by (cases pc) simp_all
    then show ?thesis by simp
  next
    case False
    with section_step.control_moves [of ?r env "Control_done out" s'] b(2) quiescent_sound [OF q] show ?thesis by auto
  qed
  with 1 show ?thesis using q by (intro exI [of _ ?r']) (auto simp: quiescent_def)
next
  case (client_check wake)
  obtain pc s where b: "check_begin env (shared r) = (pc, s)" by (cases "check_begin env (shared r)")
  let ?r = "r\<lparr>shared := s, check_at := pc\<rparr>" and ?r' = "r\<lparr>shared := s', check_at := Check_idle\<rparr>"
  have 1: "section_step env r ?r" using q b quiescent_sound [OF q] by (auto intro: section_step.check_wakes simp: quiescent_def)
  have "(section_step env)\<^sup>*\<^sup>* ?r ?r'"
    using check_sequence [of env "shared r"] client_check(2) b section_step.check_walks [of ?r _ env s'] quiescent_sound [OF q]
    by (cases pc) auto
  with 1 show ?thesis using q by (intro exI [of _ ?r']) (auto simp: quiescent_def)
qed

lemma reachable_interleaved:
  assumes "reachable env es s" and "length es < 2 ^ 31 - 1"
  shows "\<exists>r. interleaved env r \<and> quiescent r \<and> shared r = s"
  using assms
proof (induction rule: reachable.induct)
  case (started is_exec tail contents host argv s)
  have "reachable env [] s" by (rule reachable.started) fact+
  then have "interleaved env (at_rest s)" by (auto simp: interleaved_def)
  then show ?case by (intro exI [of _ "at_rest s"]) (simp add: at_rest_def quiescent_def)
next
  case (stepped es s e s')
  then have l: "length es < 2 ^ 31 - 2" by simp
  with stepped obtain r where r: "interleaved env r" "quiescent r" "shared r = s" by auto
  note inv = reachable_core(1,5) [OF stepped.hyps(1)] reachable_core(6) [OF stepped.hyps(1) l]
  with handler_sections [OF r(2), of env e s'] stepped.hyps(2) r(3) obtain r' where
    r': "(section_step env)\<^sup>*\<^sup>* r r'" "quiescent r'" "shared r' = s'" by auto
  have "interleaved env r'" using r(1) r'(1) unfolding interleaved_def by (blast intro: rtranclp_trans)
  with r' show ?case by blast
qed

section \<open>A small gateway, interrupted\<close>

lemma web_begin_short_url:
  assumes "NUL \<notin> set (req_url req)" and "length (req_url req) < PATH_MAX" and "req_method req = ''GET''"
    and "get_client_ip req = Some ip" and "get_client_mac env ip s = (Some mac, s1)"
  shows "web_begin env fs req s = Some (Web_lookup fs req (path_ref (req_url req)) mac ip, s1)"
proof -
  obtain d where d: "buffer_path_simplify (replicate PATH_MAX NUL) (req_url req) = Some d"
    using buffer_path_simplify_total [of "req_url req" "replicate PATH_MAX NUL"] assms(2) by auto
  with buffer_path_simplify_ref [OF d assms(1)] assms(3-5) show ?thesis by (simp add: web_begin_def)
qed

text \<open>The first request of theory \<open>Gateway\<close>, after \<open>n\<close> of its sections.\<close>

definition gw_ready :: "int \<Rightarrow> (string \<times> int) list \<Rightarrow> nds" where
  "gw_ready m l = (with_marks (gw_state m))\<lparr>cmd_log := l\<rparr>"

definition gw_web :: "int \<Rightarrow> (string \<times> int) list \<Rightarrow> nat \<Rightarrow> web_pc \<times> nds" where
  "gw_web m l n = (web_next gw_env ^^ n) (Web_lookup http_files gw_req ''/nodogsplash_auth/'' ''00:11:22:33:44:55'' ''10.0.0.2'',
     snd (get_client_mac gw_env ''10.0.0.2'' (gw_ready m l)))"

lemma gw_web_begins: "web_begin gw_env http_files gw_req (gw_ready m l) = Some (gw_web m l 0)"
proof -
  have mac: "fst (get_client_mac gw_env ''10.0.0.2'' (gw_ready m l)) = Some ''00:11:22:33:44:55''" by code_simp
  have "path_ref (req_url gw_req) = ''/nodogsplash_auth/''" "NUL \<notin> set (req_url gw_req)" "length (req_url gw_req) < PATH_MAX"
    "req_method gw_req = ''GET''" "get_client_ip gw_req = Some ''10.0.0.2''"
    by code_simp+
  with web_begin_short_url [of gw_req "''10.0.0.2''" gw_env "gw_ready m l" "''00:11:22:33:44:55''"
      "snd (get_client_mac gw_env ''10.0.0.2'' (gw_ready m l))" http_files] mac show ?thesis
    by (simp add: gw_web_def prod_eq_iff)
qed

lemma gw_web_reached:
  "(section_step gw_env)\<^sup>*\<^sup>* (at_rest (gw_ready m l)) ((at_rest (gw_ready m l))\<lparr>shared := snd (gw_web m l n), web_at := fst (gw_web m l n)\<rparr>)"
proof -
  let ?r = "at_rest (gw_ready m l)" and ?q = "(at_rest (gw_ready m l))\<lparr>shared := snd (gw_web m l 0), web_at := fst (gw_web m l 0)\<rparr>"
  have "section_step gw_env ?r ?q"
    by (rule section_step.web_arrives [of _ gw_env http_files gw_req]) (simp_all add: at_rest_def gw_web_begins)
  moreover have "(section_step gw_env)\<^sup>*\<^sup>* ?q (?q\<lparr>shared := snd (gw_web m l n), web_at := fst (gw_web m l n)\<rparr>)"
    by (rule web_alone [where n = n]) (simp add: gw_web_def)
  ultimately show ?thesis by (simp add: converse_rtranclp_into_rtranclp)
qed

lemma gw_start:
  assumes "gw_accepted minutes m"
  obtains l where "reachable gw_env [] (gw_ready m l)"
  using gw_running [OF assms] by (auto simp: gw_ready_def)

text \<open>After four sections the client is authenticated, and the times of its session are not yet stored.\<close>

definition gw_view :: "web_pc \<times> nds \<Rightarrow> (32 word \<times> int \<times> 32 word) option \<times> 32 word \<times> 32 word \<times> bool \<times> (addr \<times> int \<times> int \<times> int \<times> int) option" where
  "gw_view = (\<lambda>(pc, s). (map_option (\<lambda>c. (fw_connection_state c, session_end c, cl_id c)) (client_at s 1),
     FW_MARK_AUTHENTICATED s, find_id ''10.0.0.2'' s, ids_inv s,
     case pc of Web_commit req u a now vals \<Rightarrow> Some (a, now, vals) | _ \<Rightarrow> None))"

lemma gw_committing_view: "gw_view (gw_web m l 4) = (Some (0x30000, 0, 1), 0x30000, 1, True, Some (1, 4000, 600, 0, 0))"
  by code_simp

lemma gw_committing:
  obtains c req u where "client_at (snd (gw_web m l 4)) 1 = Some c"
    "fw_connection_state c = FW_MARK_AUTHENTICATED (snd (gw_web m l 4))" "cl_id c = 1" "ids_inv (snd (gw_web m l 4))"
    "find_id ''10.0.0.2'' (snd (gw_web m l 4)) = 1" "fst (gw_web m l 4) = Web_commit req u 1 4000 (600, 0, 0)"
proof -
  obtain pc s where p: "gw_web m l 4 = (pc, s)" by (cases "gw_web m l 4")
  note v = gw_committing_view [of m l, unfolded p gw_view_def prod.case prod.inject]
  obtain c where c: "client_at s 1 = Some c" "fw_connection_state c = 0x30000" "cl_id c = 1"
    using v by (auto simp only: map_option_eq_Some prod.inject)
  obtain req u where "pc = Web_commit req u 1 4000 (600, 0, 0)" using v by (auto split: web_pc.split_asm)
  with c v that [of c req u] show thesis by (simp add: p)
qed

section \<open>Properties\<close>

text \<open>
  C22. The handlers of the gateway as sequences of critical sections: every state that the gateway reaches by running
  handlers one after the other is reached by the interleaved threads, at a point where all of them rest. So what
  holds of every interleaving holds of every sequence of handlers.
\<close>

theorem interleaving_contains_sequences:
  assumes "reachable env es s" and "length es < 2 ^ 31 - 1"
  shows "\<exists>r. interleaved env r \<and> quiescent r \<and> shared r = s"
  by (rule reachable_interleaved [OF assms])

theorem interleaving_contains_sequences_witness:
  "\<exists>r c. interleaved gw_env r \<and> quiescent r \<and> client_at (shared r) 1 = Some c
     \<and> fw_connection_state c = FW_MARK_AUTHENTICATED (shared r)"
proof -
  obtain s c where s: "reachable gw_env [WebRequest http_files gw_req] s" "client_at s 1 = Some c"
    "fw_connection_state c = FW_MARK_AUTHENTICATED s" by (rule gw_authenticated)
  from interleaving_contains_sequences [OF s(1)] s(2,3) show ?thesis by auto
qed

text \<open>
  C3. The firewall agrees with the client list however the threads are interleaved after a start that imports no clients
  from a state file: between any two critical sections of
  the web server, the control thread and the check, while the shell commands succeed and no freed client was
  used, every rule of the clients' chains was inserted exactly as often, less its deletions, as it belongs to an
  authenticated client; the list keeps its limit and has no client twice. (The limit of clients in the
  configuration is a C integer and the BinAuth program is not called like iptables.)
\<close>

theorem firewall_matches_interleaved:
  assumes "shell_ok env" and "interleaved env r"
  shows "(\<forall>p. client_chain p \<longrightarrow> rule_net (shared r) p = int (auth_count (shared r) p))
    \<and> client_count (shared r) = int (length (clients (shared r)))
    \<and> client_count (shared r) \<le> max 0 (maxclients (config (shared r))) \<and> distinct (keys (shared r))"
  using interleaved_gateway_inv [OF assms] by (simp add: gateway_inv_def fw_inv_def cl_inv_def)

theorem firewall_matches_interleaved_witness:
  "\<exists>r c. interleaved gw_env r \<and> \<not> web_resting (web_at r) \<and> client_at (shared r) 1 = Some c
     \<and> fw_connection_state c = FW_MARK_AUTHENTICATED (shared r)
     \<and> rule_net (shared r) ''ndsOUT'' = int (auth_count (shared r) ''ndsOUT'')"
proof -
  obtain l where l: "reachable gw_env [] (gw_ready 10 l)" by (rule gw_start [OF gw_accepted(1)])
  let ?r = "(at_rest (gw_ready 10 l))\<lparr>shared := snd (gw_web 10 l 4), web_at := fst (gw_web 10 l 4)\<rparr>"
  have r: "interleaved gw_env ?r" using l gw_web_reached [of 10 l 4] unfolding interleaved_def by blast
  obtain c req u where c: "client_at (snd (gw_web 10 l 4)) 1 = Some c"
      "fw_connection_state c = FW_MARK_AUTHENTICATED (snd (gw_web 10 l 4))" "fst (gw_web 10 l 4) = Web_commit req u 1 4000 (600, 0, 0)"
    by (rule gw_committing)
  have "client_chain ''ndsOUT''" by (simp add: client_chain_def)
  with firewall_matches_interleaved [OF gw_shell r] have "rule_net (shared ?r) ''ndsOUT'' = int (auth_count (shared ?r) ''ndsOUT'')" by blast
  with r c show ?thesis by (intro exI [of _ ?r] exI [of _ c]) simp
qed

end
