(* ===== verification/Races.thy ===== *)
theory Races
  imports Sections
begin

text \<open>
  What the interleaving of theory \<open>Sections\<close> does to the client of a web request. The web server follows its
  pointer to the client without the lock: this is safe when no setting removes clients, and not otherwise;
  and a deauthentication can be undone in part by a request that is being served.
\<close>

section \<open>The client of a request\<close>

text \<open>The pointer that the web server holds, and whether its next section follows it.\<close>

fun pointer :: "web_pc \<Rightarrow> addr option" where
  "pointer (Web_serve fs req url a) = Some a"
| "pointer (Web_binauth req u a now prog dflt) = Some a"
| "pointer (Web_bound req u a now r) = Some a"
| "pointer (Web_auth req u a now reason vals i) = Some a"
| "pointer (Web_commit req u a now vals) = Some a"
| "pointer pc = None"

fun follows :: "web_pc \<Rightarrow> bool" where
  "follows (Web_auth req u a now reason vals i) \<longleftrightarrow> False"
| "follows pc \<longleftrightarrow> pointer pc \<noteq> None"

lemma follows_dangling:
  assumes "follows pc" and "pointer pc = Some a" and "client_at s a = None"
  shows "web_step env pc s = (Web_fault, s)"
  using assms by (cases pc) simp_all

text \<open>One client in a pass over the list.\<close>

lemma check_walk_one:
  assumes "cl_inv s" and "ids_inv s" and "client_at s a = Some c"
  obtains s' s2 where "check_walk env now s = Some s'" "globals s2 = globals s" "client_at s2 a = Some c"
    "client_at s' a = client_at (refresh_client env now a s2) a"
proof -
  have d: "distinct (addrs s)" "distinct (ids s)" using assms(1,2) by (simp_all add: cl_inv_def ids_inv_def)
  have a: "a \<in> set (addrs s)" using assms(3) client_at_None [of s a] by force
  let ?s = "fold (refresh_client env now) (addrs s) s"
  have "client_walk (refresh_client env now) (Suc (length (clients s))) (client_get_first_client s) s = Some ?s"
    by (rule refresh.walk_all_fold [OF d lessI])
  then have w: "check_walk env now s = Some (?s\<lparr>time_calls := Suc (time_calls ?s)\<rparr>)"
    by (simp add: check_walk_def c_time_def)
  have "\<exists>s2. globals s2 = globals s \<and> client_at s2 a = client_at s a
      \<and> client_at ?s a = client_at (refresh_client env now a s2) a"
    by (rule fold_visit_one [where J = "\<lambda>s2. globals s2 = globals s"])
      (simp_all add: refresh_client_local refresh_client_globals d a)
  with w assms(3) show thesis by (auto intro: that simp: client_at_def)
qed

lemma idle_client_faults:
  assumes r: "interleaved env r" "ids_inv (shared r)" "session_limit_block (config (shared r)) \<le> 0"
    and pc: "follows (web_at r)" "pointer (web_at r) = Some a" "check_at r = Check_walk now"
    and c: "client_at (shared r) a = Some c" "fw_connection_state c = FW_MARK_PREAUTHENTICATED (shared r)"
      "session_end c \<le> 0" "idle (preauth_idle_timeout (config (shared r))) now c"
  shows "\<exists>r1 r2. section_step env r r1 \<and> section_step env r1 r2 \<and> web_at r2 = Web_fault"
proof (rule check_walk_one [OF interleaved_core(1) [OF r(1)] r(2) c(1)])
  fix s' s2 assume s': "check_walk env now (shared r) = Some s'" and g: "globals s2 = globals (shared r)"
    and at: "client_at s2 a = Some c" "client_at s' a = client_at (refresh_client env now a s2) a"
  note f = globals_fields(1, 2) [OF g] core_fields(7-9) [OF globals_fields(7) [OF g]]
  have "session_limit_block (config s2) \<le> 0" "FW_MARK_PREAUTHENTICATED s2 \<noteq> FW_MARK_AUTHENTICATED s2"
    using r(3) interleaved_core(2) [OF r(1)] by (simp_all add: f marks_distinct_def)
  from refresh_client_idle(1) [OF at(1) c(3) this, where env = env and now = now] c(2,4) at(2) have "client_at s' a = None" by (simp add: f)
  note w = follows_dangling [OF pc(1,2) this, of env]
  have so: "sound r" and nr: "\<not> web_resting (web_at r)" using pc(1) by (cases "web_at r"; simp)+
  let ?r1 = "r\<lparr>shared := s', check_at := Check_idle\<rparr>"
  let ?r2 = "?r1\<lparr>shared := s', web_at := Web_fault\<rparr>"
  have "section_step env r ?r1" by (rule section_step.check_walks [OF so pc(3) s'])
  moreover have "section_step env ?r1 ?r2" by (rule section_step.web_moves) (use so nr w in simp_all)
  ultimately show ?thesis by (intro exI [of _ ?r1] exI [of _ ?r2]) simp
qed

text \<open>Without the settings that remove clients, no client is ever removed.\<close>

definition keeps_clients :: "s_config \<Rightarrow> bool" where
  "keeps_clients cfg \<longleftrightarrow>
     to_int32 (60 * preauth_idle_timeout cfg) \<le> 0 \<and> session_timeout_block cfg \<le> 0 \<and> session_limit_block cfg \<le> 0"

lemma keeps_clients_statics: "statics s' = statics s \<Longrightarrow> keeps_clients (config s') = keeps_clients (config s)"
  using core_fields(6-8) [OF globals_fields(7), of "s'\<lparr>config := (config s')\<lparr>debuglevel := 0\<rparr>\<rparr>" "s\<lparr>config := (config s)\<lparr>debuglevel := 0\<rparr>\<rparr>"]
  by (simp add: statics_def keeps_clients_def)

lemma addrs_frames:
  "same_but_log s s' \<Longrightarrow> addrs s' = addrs s" "same_but_lists s s' \<Longrightarrow> addrs s' = addrs s"
  "only_counters s s' \<Longrightarrow> addrs s' = addrs s" "addrs (s\<lparr>time_calls := t\<rparr>) = addrs s"
proof -
  show "same_but_log s s' \<Longrightarrow> addrs s' = addrs s" using same_but_log_clients by (simp add: same_clients_def)
  show "same_but_lists s s' \<Longrightarrow> addrs s' = addrs s" using same_but_lists_frame(2) by (simp add: addrs_def)
  have "addrs t = map fst (sessions t)" for t by (simp add: sessions_def addrs_def case_prod_beta)
  then show "only_counters s s' \<Longrightarrow> addrs s' = addrs s" by (simp add: only_counters_def)
qed (simp add: addrs_def)

lemma change_keeps_addrs:
  assumes "st \<noteq> FW_MARK_BLOCKED s"
  shows "addrs (snd (auth_change_state env a st reason s)) = addrs s"
proof (rule auth_change_state_cases [of env a st reason s])
  fix c assume c: "client_at s a = Some c" and e: "auth_change_state env a st reason s
    = (0, update_client a (\<lambda>c. c\<lparr>fw_connection_state := st\<rparr>) (client_reset env a (deauth_cmds env c reason s)))"
  have "client_at (deauth_cmds env c reason s) a = Some c" using c by (simp add: same_but_log_client_at [OF auth_cmds_same(2)])
  from client_reset_eq [OF this] e show ?thesis
    by (simp add: addrs_frames(1) [OF auth_cmds_same(2)]) (simp add: addrs_def addrs_frames(1) [OF auth_cmds_same(2), unfolded addrs_def])
qed (use assms in \<open>simp_all add: addrs_frames(1) [OF auth_cmds_same(1)]\<close>)

lemma auth_ops_addrs:
  assumes "marks_distinct s" and "FW_MARK_BLOCKED s \<noteq> FW_MARK_PREAUTHENTICATED s"
  shows "addrs (snd (auth_client_auth env i reason s)) = addrs s"
    "addrs (snd (auth_client_auth_nolock env i reason s)) = addrs s"
    "addrs (snd (auth_client_deauth env i reason s)) = addrs s"
proof -
  have t: "addrs (s\<lparr>authenticated_since_start := n\<rparr>) = addrs s" for n s by (simp add: addrs_def)
  have "FW_MARK_AUTHENTICATED s \<noteq> FW_MARK_BLOCKED s" "FW_MARK_PREAUTHENTICATED s \<noteq> FW_MARK_BLOCKED s"
    using assms by (auto simp: marks_distinct_def)
  note k = this [THEN change_keeps_addrs]
  show "addrs (snd (auth_client_auth env i reason s)) = addrs s" "addrs (snd (auth_client_auth_nolock env i reason s)) = addrs s"
    "addrs (snd (auth_client_deauth env i reason s)) = addrs s"
    by (simp_all add: auth_client_auth_def auth_client_auth_nolock_def auth_client_deauth_def case_prod_beta t k
        split: option.split)
qed

lemma refresh_keeps_addrs:
  assumes "keeps_clients (config s)" and "FW_MARK_BLOCKED s \<noteq> FW_MARK_PREAUTHENTICATED s"
  shows "addrs (refresh_client env now a s) = addrs s"
  using assms by (simp add: refresh_client_def Let_def keeps_clients_def change_keeps_addrs split: option.split)

lemma run_request_addrs:
  assumes "marks_distinct s" and "FW_MARK_BLOCKED s \<noteq> FW_MARK_PREAUTHENTICATED s"
  shows "addrs (snd (run_request env ft request s)) = addrs s"
proof -
  have "addrs (snd (ndsctl_auth env arg s)) = addrs s" "addrs (snd (ndsctl_deauth env arg s)) = addrs s"
    "addrs (snd (ndsctl_debuglevel arg s)) = addrs s" for arg
    using auth_ops_addrs [OF assms] by (simp_all add: ndsctl_auth_def ndsctl_deauth_def ndsctl_debuglevel_def addrs_def
        set_debuglevel_def Let_def case_prod_beta)
  then show ?thesis
    by (rule_tac run_request_cases [of s env ft request]) (simp_all add: addrs_frames)
qed

text \<open>So a section of any thread removes no client, and the pointer of the web server stays valid.\<close>

lemma found_valid:
  assumes "client_list_find mac ip s = Some a" and "cl_inv s"
  shows "a \<in> set (addrs s)"
proof -
  have "distinct (map fst (clients s))" using assms(2) by (simp add: cl_inv_def addrs_def)
  from by_mac_ip.finder_at [OF this assms(1)] obtain c where "client_at s a = Some c" by blast
  then show ?thesis using client_at_None [of s a] by force
qed

definition pointer_valid :: "running \<Rightarrow> bool" where
  "pointer_valid r \<longleftrightarrow> sound r \<and> (\<forall>a. pointer (web_at r) = Some a \<longrightarrow> a \<in> set (addrs (shared r)))"

lemma add_client_valid:
  assumes "cl_inv s" and "add_client env mac ip s = (Some a, s')"
  shows "a \<in> set (addrs s')"
proof (cases "client_list_find mac ip s")
  case None
  then have "client_list_append env mac ip s = (Some a, s')"
    using assms(2) by (simp add: add_client_def client_list_add_client_def split: if_split_asm)
  from client_list_append_new(3) [OF this] show ?thesis by (simp add: addrs_def client_list_append_new(1) [OF \<open>client_list_append env mac ip s = (Some a, s')\<close>])
next
  case (Some b)
  then have "b = a" "s' = s" using assms(2) by (simp_all add: add_client_def client_list_add_client_def split: if_split_asm)
  with Some show ?thesis using found_valid assms(1) by blast
qed

lemma preauthenticated_section_pointer:
  assumes "preauthenticated_section env fs req url a s = (pc, s')"
  shows "pc \<noteq> Web_fault \<and> (pointer pc = None \<or> pointer pc = Some a \<and> addrs s' = addrs s)"
  using assms
  by (auto simp: preauthenticated_section_def authenticate_begin_def c_time_def Let_def addrs_frames(4)
      split: if_split_asm option.split_asm prod.split_asm)

lemma authenticated_section_pointer:
  "authenticated_section env fs req url a s = (pc, s') \<Longrightarrow> pc \<noteq> Web_fault \<and> pointer pc = None"
  by (auto simp: authenticated_section_def Let_def split: if_split_asm prod.split_asm)

lemma web_step_pointer:
  assumes inv: "cl_inv s" "marks_distinct s" "FW_MARK_BLOCKED s \<noteq> FW_MARK_PREAUTHENTICATED s"
    and pc: "pc \<noteq> Web_fault" "\<And>a. pointer pc = Some a \<Longrightarrow> a \<in> set (addrs s)"
    and step: "web_step env pc s = (pc', s')"
  shows "pc' \<noteq> Web_fault \<and> (\<forall>a. pointer pc' = Some a \<longrightarrow> a \<in> set (addrs s'))"
proof -
  have live: "pointer pc = Some a \<Longrightarrow> \<exists>c. client_at s a = Some c" for a
    using pc(2) client_at_None [of s a] by (cases "client_at s a") auto
  show ?thesis
  proof (cases pc)
    case (Web_lookup fs req url mac ip)
    with step found_valid [OF _ inv(1)] show ?thesis by (auto split: option.split_asm)
  next
    case (Web_add fs req url mac ip)
    with step add_client_valid [OF inv(1)] show ?thesis by (auto split: option.split_asm prod.split_asm)
  next
    case (Web_serve fs req url a)
    with live obtain c where "client_at s a = Some c" by auto
    with Web_serve step pc(2) preauthenticated_section_pointer authenticated_section_pointer show ?thesis
      by (fastforce split: if_split_asm)
  next
    case (Web_binauth req u a now prog dflt)
    with live obtain c where c: "client_at s a = Some c" by auto
    have "addrs (snd (do_binauth env req prog c dflt s)) = addrs s" by (rule addrs_frames(1) [OF do_binauth_same])
    with c Web_binauth step pc(2) show ?thesis by (auto split: prod.split_asm)
  next
    case (Web_bound req u a now r)
    with live obtain c where "client_at s a = Some c" by auto
    with Web_bound step pc(2) show ?thesis by (auto split: option.split_asm)
  next
    case (Web_auth req u a now reason vals i)
    with step pc(2) auth_ops_addrs(1) [OF inv(2,3), of env i reason] show ?thesis
      by (auto split: prod.split_asm if_split_asm)
  next
    case (Web_commit req u a now vals)
    with live obtain c where "client_at s a = Some c" by auto
    with Web_commit step show ?thesis by auto
  qed (use step pc(1) in \<open>auto simp: Let_def\<close>)
qed

lemma begin_keeps_addrs:
  assumes "marks_distinct s" and "FW_MARK_BLOCKED s \<noteq> FW_MARK_PREAUTHENTICATED s"
  shows "control_begin env ft reads s = Some (pc, s') \<Longrightarrow> addrs s' = addrs s"
    and "addrs (snd (control_step env pc s)) = addrs s" and "addrs (snd (check_begin env s)) = addrs s"
proof -
  show "control_begin env ft reads s = Some (pc, s') \<Longrightarrow> addrs s' = addrs s"
    using run_request_addrs [OF assms, of env ft]
    by (auto simp: control_begin_def split: option.split_asm if_split_asm prod.split_asm) (metis snd_conv)+
  show "addrs (snd (control_step env pc s)) = addrs s"
    by (cases pc) (simp_all add: case_prod_beta auth_ops_addrs [OF assms])
  show "addrs (snd (check_begin env s)) = addrs s"
    using addrs_frames(3) [OF timed_update_only_counters [of s env "Suc (time_calls s)"]]
    by (simp add: check_begin_def c_time_def case_prod_beta addrs_frames(4))
qed

lemma check_walk_keeps_addrs:
  assumes "keeps_clients (config s)" and "FW_MARK_BLOCKED s \<noteq> FW_MARK_PREAUTHENTICATED s" and "check_walk env now s = Some s'"
  shows "addrs s' = addrs s"
proof -
  obtain s1 where s1: "client_walk (refresh_client env now) (Suc (length (clients s))) (client_get_first_client s) s = Some s1"
      "s' = s1\<lparr>time_calls := Suc (time_calls s1)\<rparr>"
    using assms(3) by (auto simp: check_walk_def c_time_def)
  have "statics s1 = statics s \<and> addrs s1 = addrs s"
  proof (rule client_walk_invariant [OF s1(1), where I = "\<lambda>t. statics t = statics s \<and> addrs t = addrs s"])
    fix a t assume t: "statics t = statics s \<and> addrs t = addrs s"
    then have "keeps_clients (config t)" "FW_MARK_BLOCKED t \<noteq> FW_MARK_PREAUTHENTICATED t"
      using assms(1,2) keeps_clients_statics [of t s] statics_fields [of t s] by simp_all
    with t refresh_keeps_addrs refresh_client_frame(1) [of t env now a]
    show "statics (refresh_client env now a t) = statics s \<and> addrs (refresh_client env now a t) = addrs s"
      by (simp add: tame_def)
  qed simp
  then show ?thesis by (simp add: s1(2) addrs_frames(4))
qed

lemma section_step_pointer:
  assumes step: "section_step env r r'" and v: "pointer_valid r" and k: "keeps_clients (config (shared r))"
    and inv: "cl_inv (shared r)" "marks_distinct (shared r)" "FW_MARK_BLOCKED (shared r) \<noteq> FW_MARK_PREAUTHENTICATED (shared r)"
  shows "pointer_valid r'"
  using step
proof (cases rule: section_step.cases)
  case (web_arrives fs req pc s)
  then show ?thesis
    by (auto simp: pointer_valid_def web_begin_def split: if_split_asm option.split_asm prod.split_asm)
next
  case (web_moves pc s)
  with web_step_pointer [OF inv, of "web_at r" env pc s] v show ?thesis by (auto simp: pointer_valid_def)
next
  case (control_arrives ft reads pc s)
  with begin_keeps_addrs(1) [OF inv(2,3)] v show ?thesis by (auto simp: pointer_valid_def)
next
  case (control_moves pc s)
  with begin_keeps_addrs(2) [OF inv(2,3), of env "control_at r"] v show ?thesis by (auto simp: pointer_valid_def)
next
  case (check_wakes pc s)
  with begin_keeps_addrs(3) [OF inv(2,3), of env] v show ?thesis by (auto simp: pointer_valid_def)
next
  case (check_walks now s)
  with check_walk_keeps_addrs [OF k inv(3)] v show ?thesis by (auto simp: pointer_valid_def)
qed

lemma interleaved_statics:
  assumes "(section_step env)\<^sup>*\<^sup>* (at_rest s) r"
  shows "statics (shared r) = statics s"
  using section_steps_runs [OF assms] critical.runs_statics by blast

lemma interleaved_pointer:
  assumes "reachable env [] s" and "(section_step env)\<^sup>*\<^sup>* (at_rest s) r" and k: "keeps_clients (config s)"
  shows "pointer_valid r"
  using assms(2)
proof induction
  case base
  show ?case by (simp add: pointer_valid_def at_rest_def)
next
  case (step r r')
  have "interleaved env r" using assms(1) step.hyps(1) by (auto simp: interleaved_def)
  moreover have "keeps_clients (config (shared r))"
    using k keeps_clients_statics [OF interleaved_statics [OF step.hyps(1)]] by simp
  ultimately show ?case using section_step_pointer [OF step.hyps(2) step.IH] interleaved_core by blast
qed

section \<open>A deauthentication during a request\<close>

lemma refresh_expired_preauthenticated:
  assumes "client_at s a = Some c" and "fw_connection_state c = FW_MARK_PREAUTHENTICATED s"
    and "0 < session_end c" and "session_end c \<le> now" and "marks_distinct s"
  shows "refresh_client env now a s = s"
  using assms by (simp add: refresh_client_def Let_def auth_change_state_def marks_distinct_def)

lemma commit_preauthenticated:
  assumes r: "interleaved env r" "ids_inv (shared r)" "web_at r = Web_commit req u a t (seconds, up, down)"
    and c: "client_at (shared r) a = Some c" "fw_connection_state c = FW_MARK_PREAUTHENTICATED (shared r)"
    and t: "seconds \<noteq> 0" "0 < t + seconds"
  shows "\<exists>r1 c1. section_step env r r1 \<and> client_at (shared r1) a = Some c1
    \<and> fw_connection_state c1 = FW_MARK_PREAUTHENTICATED (shared r1) \<and> session_end c1 = t + seconds
    \<and> (\<forall>now \<ge> t + seconds. \<exists>s'. check_walk env now (shared r1) = Some s' \<and> client_at s' a = Some c1)"
proof -
  let ?s = "set_session a t (seconds, up, down) (shared r)"
  define r1 where "r1 = r\<lparr>shared := ?s, web_at := Web_done (case u of Some u \<Rightarrow> send_redirect_temp req u | None \<Rightarrow> send_error req 200)\<rparr>"
  have step: "section_step env r r1"
    unfolding r1_def by (rule section_step.web_moves) (simp_all add: r(3) c(1))
  have "client_at ?s a = Some (c\<lparr>cl_download_limit := down, cl_upload_limit := up, session_start := t, session_end := t + seconds\<rparr>)"
    using c(1) t(1) by (simp add: set_session_def client_at_update)
  then obtain c1 where c1: "client_at (shared r1) a = Some c1" "fw_connection_state c1 = fw_connection_state c" "session_end c1 = t + seconds"
    by (simp add: r1_def)
  have tame: "tame (shared r) ?s" by (rule set_session_tame)
  have "interleaved env r1" using r(1) step unfolding interleaved_def by (blast intro: rtranclp.rtrancl_into_rtrancl)
  note inv = interleaved_core(1,2) [OF this]
  have ids: "ids_inv (shared r1)" using tame interleaved_core(1) [OF r(1)] r(2) by (simp add: tame_def r1_def)
  have pre: "fw_connection_state c1 = FW_MARK_PREAUTHENTICATED (shared r1)"
    using c1(2) c(2) tame statics_fields(1) [of ?s "shared r"] by (simp add: tame_def r1_def)
  have "\<exists>s'. check_walk env now (shared r1) = Some s' \<and> client_at s' a = Some c1" if "t + seconds \<le> now" for now
  proof (rule check_walk_one [OF inv(1) ids c1(1), of env now])
    fix s' s2 assume w: "check_walk env now (shared r1) = Some s'" and g: "globals s2 = globals (shared r1)"
      and s2: "client_at s2 a = Some c1" "client_at s' a = client_at (refresh_client env now a s2) a"
    have "refresh_client env now a s2 = s2"
      by (rule refresh_expired_preauthenticated [OF s2(1)])
        (use pre inv(2) c1(3) t that in \<open>simp_all add: globals_fields(1) [OF g] globals_inv(1) [OF g]\<close>)
    with w s2 show ?thesis by auto
  qed
  with step c1(1,3) pre show ?thesis by blast
qed

section \<open>The flush of the list after a failed import\<close>

text \<open>
  When the import of the state file fails, \<open>main_loop\<close> calls \<open>client_list_flush\<close>, without the lock, and the web server is
  running since before the import. A request that holds the pointer of a client at this time follows a pointer to
  freed memory in its next section.
\<close>

theorem flush_leaves_dangling:
  assumes "follows pc" and "pointer pc = Some a" and "client_at s a = Some c" and "cl_inv s"
  shows "client_at (client_list_flush s) a = None
    \<and> web_step env pc (client_list_flush s) = (Web_fault, client_list_flush s)"
proof -
  have "client_count s \<noteq> 0" using assms(3,4) by (auto simp: cl_inv_def client_at_def)
  then have "client_at (client_list_flush s) a = None" by (simp add: client_list_flush_def client_at_def)
  with follows_dangling [OF assms(1,2) this] show ?thesis by simp
qed

section \<open>A request before the firewall is set up\<close>

text \<open>
  \<open>main_loop\<close> starts the web server before \<open>iptables_fw_init\<close> reads the marks. Until then they are all 0, and a client
  that is not authenticated is served as if it were.
\<close>

lemma served_before_marks:
  assumes "fst (client_list_add_client env mac ip (nds_start cfg)) = Some a"
  shows "web_step env (Web_serve fs req url a) (snd (client_list_add_client env mac ip (nds_start cfg)))
    = authenticated_section env fs req url a (snd (client_list_add_client env mac ip (nds_start cfg)))"
proof -
  let ?s = "nds_start cfg"
  have "client_list_find mac ip ?s = None" by (simp add: client_list_find_def nds_start_def find_addr_def)
  then have "client_list_append env mac ip ?s = (Some a, snd (client_list_add_client env mac ip ?s))"
    using assms by (auto simp: client_list_add_client_def prod_eq_iff split: if_split_asm)
  note app = client_list_append_new [OF this]
  have "client_at (snd (client_list_add_client env mac ip ?s)) a = Some (new_client env mac ip ?s)"
    using app(3) by (simp add: client_at_def nds_start_def)
  moreover have "FW_MARK_AUTHENTICATED (snd (client_list_add_client env mac ip ?s)) = 0"
    "fw_connection_state (new_client env mac ip ?s) = 0"
    using app(3) by (simp_all add: nds_start_def initial_state_def)
  ultimately show ?thesis by simp
qed

section \<open>Properties\<close>

text \<open>
  C11. A request can outlive its client. When the web server holds a pointer to a preauthenticated client and is about to
  follow it, and the periodic check is about to visit the clients and finds this one idle, then two steps, the visit
  and the next section of the request, lead to the use of a client that was freed. (In an interleaving with distinct
  ids, for a client without an end of session, and without a limit on the volume.)
\<close>

theorem request_uses_freed_client:
  assumes "interleaved env r" and "ids_inv (shared r)" and "session_limit_block (config (shared r)) \<le> 0"
    and "follows (web_at r)" and "pointer (web_at r) = Some a" and "check_at r = Check_walk now"
    and "client_at (shared r) a = Some c" and "fw_connection_state c = FW_MARK_PREAUTHENTICATED (shared r)"
    and "session_end c \<le> 0" and "idle (preauth_idle_timeout (config (shared r))) now c"
  shows "\<exists>r1 r2. section_step env r r1 \<and> section_step env r1 r2 \<and> web_at r2 = Web_fault"
  by (rule idle_client_faults [OF assms])

text \<open>
  C10. After a start that imports no clients from a state file, and without the settings that remove clients from the
  list, \<open>PreAuthIdleTimeout\<close>, \<open>SessionTimeoutBlock\<close> and \<open>SessionLimitBlock\<close>, no interleaving of the web server, the
  control thread and the check, from the end of the start on, ever follows a pointer to a freed client, although the web
  server holds no lock while it uses its pointer. (During the start there is another way to free clients: when the
  import of the state file fails, \<open>main_loop\<close> flushes the list without the lock while the web server is running
  already, \<open>flush_leaves_dangling\<close>.) (The limit of clients in the
  configuration is a C integer and the BinAuth program is not called like iptables.)
\<close>

theorem no_use_after_free:
  assumes "interleaved env r" and "keeps_clients (config (shared r))"
  shows "web_at r \<noteq> Web_fault \<and> (\<forall>a. pointer (web_at r) = Some a \<longrightarrow> (\<exists>c. client_at (shared r) a = Some c))"
proof -
  obtain s where s: "reachable env [] s" "(section_step env)\<^sup>*\<^sup>* (at_rest s) r" using assms(1) by (auto simp: interleaved_def)
  have "keeps_clients (config s)" using assms(2) keeps_clients_statics [OF interleaved_statics [OF s(2)]] by simp
  from interleaved_pointer [OF s this] have v: "pointer_valid r" .
  then have "\<exists>c. client_at (shared r) a = Some c" if "pointer (web_at r) = Some a" for a
    using that client_at_None [of "shared r" a] by (cases "client_at (shared r) a") (auto simp: pointer_valid_def)
  with v show ?thesis by (simp add: pointer_valid_def)
qed

text \<open>
  C24. A deauthentication between the two halves of a request is lost in part. If a client is preauthenticated again
  when the web server stores the times of the session that it has just begun, then the client keeps an end of session
  although it has none; and from that time on no check removes it, however long it is idle. (In an interleaving with
  distinct ids, for a session with a time limit whose end is a positive time.)
\<close>

theorem session_stored_after_deauth:
  assumes "interleaved env r" and "ids_inv (shared r)" and "web_at r = Web_commit req u a t (seconds, up, down)"
    and "client_at (shared r) a = Some c" and "fw_connection_state c = FW_MARK_PREAUTHENTICATED (shared r)"
    and "seconds \<noteq> 0" and "0 < t + seconds"
  shows "\<exists>r1 c1. section_step env r r1 \<and> client_at (shared r1) a = Some c1
    \<and> fw_connection_state c1 = FW_MARK_PREAUTHENTICATED (shared r1) \<and> session_end c1 = t + seconds
    \<and> (\<forall>now \<ge> t + seconds. \<exists>s'. check_walk env now (shared r1) = Some s' \<and> client_at s' a = Some c1)"
  by (rule commit_preauthenticated [OF assms])

section \<open>Witnesses\<close>

lemma gw_interleaved:
  assumes "gw_accepted minutes m"
  obtains l where "\<forall>n. interleaved gw_env ((at_rest (gw_ready m l))\<lparr>shared := snd (gw_web m l n), web_at := fst (gw_web m l n)\<rparr>)"
proof -
  obtain l where "reachable gw_env [] (gw_ready m l)" by (rule gw_start [OF assms])
  with gw_web_reached that [of l] show thesis unfolding interleaved_def by blast
qed

lemma interleaved_step: "interleaved env r \<Longrightarrow> section_step env r r' \<Longrightarrow> interleaved env r'"
  unfolding interleaved_def by (blast intro: rtranclp.rtrancl_into_rtrancl)

text \<open>After two sections of the first request the client is on the list; then the check begins, 1000 seconds later.\<close>

lemma gw_check_view:
  "(case gw_web 10 l 2 of (pc, s) \<Rightarrow> case check_begin gw_env s of (cpc, s') \<Rightarrow>
     (follows pc, pointer pc, ids_inv s', session_limit_block (config s') \<le> 0,
      case cpc of Check_idle \<Rightarrow> None
      | Check_walk now \<Rightarrow> map_option (\<lambda>c. (fw_connection_state c = FW_MARK_PREAUTHENTICATED s', session_end c \<le> 0,
          idle (preauth_idle_timeout (config s')) now c)) (client_at s' 1)))
   = (True, Some 1, True, True, Some (True, True, True))"
  by code_simp

theorem request_uses_freed_client_witness:
  "\<exists>r r1 r2. interleaved gw_env r \<and> pointer (web_at r) = Some 1 \<and> section_step gw_env r r1 \<and> section_step gw_env r1 r2
     \<and> web_at r2 = Web_fault"
proof -
  obtain l where l: "\<forall>n. interleaved gw_env ((at_rest (gw_ready 10 l))\<lparr>shared := snd (gw_web 10 l n), web_at := fst (gw_web 10 l n)\<rparr>)"
    by (rule gw_interleaved [OF gw_accepted(1)])
  obtain pc s where p: "gw_web 10 l 2 = (pc, s)" by (cases "gw_web 10 l 2")
  obtain cpc s' where q: "check_begin gw_env s = (cpc, s')" by (cases "check_begin gw_env s")
  note v = gw_check_view [of l, unfolded p q prod.case prod.inject]
  obtain now c where c: "cpc = Check_walk now" "client_at s' 1 = Some c" "fw_connection_state c = FW_MARK_PREAUTHENTICATED s'"
      "session_end c \<le> 0" "idle (preauth_idle_timeout (config s')) now c"
    using v by (cases cpc) auto
  let ?r = "(at_rest (gw_ready 10 l))\<lparr>shared := s, web_at := pc\<rparr>"
  let ?q = "?r\<lparr>shared := s', check_at := cpc\<rparr>"
  have "pc \<noteq> Web_fault" using v by auto
  then have "section_step gw_env ?r ?q" by (intro section_step.check_wakes) (simp_all add: at_rest_def q)
  moreover have "interleaved gw_env ?r" using spec [OF l, of 2] unfolding p by simp
  ultimately have "interleaved gw_env ?q" by (rule interleaved_step [rotated])
  moreover have "ids_inv (shared ?q)" "session_limit_block (config (shared ?q)) \<le> 0" "follows (web_at ?q)"
    "pointer (web_at ?q) = Some 1" "check_at ?q = Check_walk now" "client_at (shared ?q) 1 = Some c"
    "fw_connection_state c = FW_MARK_PREAUTHENTICATED (shared ?q)"
    "idle (preauth_idle_timeout (config (shared ?q))) now c"
    using v c by simp_all
  ultimately show ?thesis using request_uses_freed_client [of gw_env ?q 1 now c] c(4) by blast
qed

text \<open>The same request, without the idle timeout.\<close>

lemma gw_keeps_view: "(case gw_web 0 l 2 of (pc, s) \<Rightarrow> (pointer pc, keeps_clients (config s))) = (Some 1, True)"
  by code_simp

theorem no_use_after_free_witness:
  "\<exists>r c. interleaved gw_env r \<and> keeps_clients (config (shared r)) \<and> pointer (web_at r) = Some 1 \<and> client_at (shared r) 1 = Some c"
proof -
  obtain l where l: "\<forall>n. interleaved gw_env ((at_rest (gw_ready 0 l))\<lparr>shared := snd (gw_web 0 l n), web_at := fst (gw_web 0 l n)\<rparr>)"
    by (rule gw_interleaved [OF gw_accepted(2)])
  let ?r = "(at_rest (gw_ready 0 l))\<lparr>shared := snd (gw_web 0 l 2), web_at := fst (gw_web 0 l 2)\<rparr>"
  have v: "pointer (web_at ?r) = Some 1" "keeps_clients (config (shared ?r))"
    using gw_keeps_view [of l] by (simp_all add: case_prod_beta)
  from no_use_after_free [OF spec [OF l, of 2] v(2)] v spec [OF l, of 2] show ?thesis by blast
qed

text \<open>The request after four sections; then \<open>ndsctl deauth\<close> runs to its end.\<close>

lemma gw_deauth_reads:
  "read_request [ReadData (''deauth 10.0.0.2'' @ [NL])] 0 False (replicate MAX_BUF NUL) = Some (True, buffer_of ''deauth 10.0.0.2'')"
  using read_request_chunks [of "[''deauth 10.0.0.2'' @ [NL]]" "''deauth 10.0.0.2''" NL "[]" "[]"]
  unfolding buffer_of_nil by (simp add: no_eol_def eol_char_def)

theorem session_stored_after_deauth_witness:
  "\<exists>r r1 c1. interleaved gw_env r \<and> section_step gw_env r r1 \<and> client_at (shared r1) 1 = Some c1
    \<and> fw_connection_state c1 = FW_MARK_PREAUTHENTICATED (shared r1) \<and> session_end c1 = 4600
    \<and> (\<forall>now \<ge> 4600. \<exists>s'. check_walk gw_env now (shared r1) = Some s' \<and> client_at s' 1 = Some c1)"
proof -
  obtain l where l: "\<forall>n. interleaved gw_env ((at_rest (gw_ready 10 l))\<lparr>shared := snd (gw_web 10 l n), web_at := fst (gw_web 10 l n)\<rparr>)"
    by (rule gw_interleaved [OF gw_accepted(1)])
  obtain pc s where p: "gw_web 10 l 4 = (pc, s)" by (cases "gw_web 10 l 4")
  obtain c req u where c: "client_at s 1 = Some c" "fw_connection_state c = FW_MARK_AUTHENTICATED s" "cl_id c = 1" "ids_inv s"
      "find_id ''10.0.0.2'' s = 1" "pc = Web_commit req u 1 4000 (600, 0, 0)"
    using gw_committing [of 10 l] unfolding p by auto
  let ?r = "(at_rest (gw_ready 10 l))\<lparr>shared := s, web_at := pc\<rparr>"
  let ?q = "?r\<lparr>shared := s, control_at := Control_deauth 1\<rparr>"
  let ?s = "snd (auth_client_deauth gw_env 1 (Some ''ndsctl_deauth'') s)"
  let ?t = "?q\<lparr>shared := ?s, control_at := Control_done (yes_no (fst (auth_client_deauth gw_env 1 (Some ''ndsctl_deauth'') s)), 0)\<rparr>"
  have r: "interleaved gw_env ?r" using spec [OF l, of 4] by (simp add: p)
  have "NUL \<notin> set ''deauth 10.0.0.2''" by code_simp
  then have "cstr (buffer_of ''deauth 10.0.0.2'') = ''deauth 10.0.0.2''" "cstr (drop 7 (buffer_of ''deauth 10.0.0.2'')) = ''10.0.0.2''"
    using cstr_buffer_drop [of "''deauth 10.0.0.2''" 0] cstr_buffer_drop [of "''deauth 10.0.0.2''" 7] by simp_all
  then have "control_begin gw_env (\<lambda>t. []) [ReadData (''deauth 10.0.0.2'' @ [NL])] s = Some (Control_deauth 1, s)"
    unfolding control_begin_def gw_deauth_reads by (simp add: strncmp_eq_def c(5))
  then obtain reads where b: "control_begin gw_env (\<lambda>t. []) reads s = Some (Control_deauth 1, s)" by blast
  have "section_step gw_env ?r ?q"
    by (rule section_step.control_arrives [where ft = "\<lambda>t. []" and reads = reads]) (simp_all add: at_rest_def c(6) b)
  moreover have "section_step gw_env ?q ?t"
    by (rule section_step.control_moves) (simp_all add: c(6) case_prod_beta)
  ultimately have t: "interleaved gw_env ?t" using r interleaved_step by blast
  note inv = interleaved_core(1,2) [OF r]
  have d: "distinct (addrs s)" "distinct (ids s)" using inv c(4) by (simp_all add: cl_inv_def ids_inv_def)
  have "client_list_find_by_id 1 s = Some 1" using find_by_own_id [OF d c(1)] c(3) by simp
  then have e: "?s = snd (auth_change_state gw_env 1 (FW_MARK_PREAUTHENTICATED s) (Some ''ndsctl_deauth'') s)"
    by (simp add: auth_client_deauth_def)
  have tame: "tame s ?s" by (rule auth_ops_tame(3))
  then have ids: "ids_inv ?s" "FW_MARK_PREAUTHENTICATED ?s = FW_MARK_PREAUTHENTICATED s"
    using inv c(4) statics_fields(1) [of ?s s] by (simp_all add: tame_def)
  obtain c' where "client_at ?s 1 = Some c'" "fw_connection_state c' = FW_MARK_PREAUTHENTICATED s"
    unfolding e by (rule deauth_client_at [OF c(1,2)]) (use inv in \<open>auto simp: marks_distinct_def\<close>)
  then have "client_at (shared ?t) 1 = Some c'" "fw_connection_state c' = FW_MARK_PREAUTHENTICATED (shared ?t)" "ids_inv (shared ?t)"
    "web_at ?t = Web_commit req u 1 4000 (600, 0, 0)"
    using ids c(6) by simp_all
  from session_stored_after_deauth [OF t this(3,4,1,2)] t show ?thesis by auto
qed

end
