(* ===== verification/Spec2Isabelle.thy ===== *)
theory Spec2Isabelle
  imports Client_Heap Locks Races
begin

text \<open>
  A verification of nodogsplash, a captive portal for small routers, version of the repository beside this
  directory (\<open>src/src/*.c\<close>). This theory imports the others; each of them opens with a description of its own.

  \<^bold>\<open>The program.\<close> The gateway keeps a list of clients, the machines behind it. A client that is not
  authenticated can only reach the web server of the gateway, which shows it a splash page with a token; a request
  that carries the token back authenticates the client: rules are inserted into the firewall for it, and
  it can reach the net until its session ends. Four parts share the state: the start and the end
  (\<open>main.c\<close>), the web server (\<open>http_microhttpd.c\<close>, run by libmicrohttpd), a thread that serves the control
  program (\<open>ndsctl_thread.c\<close>; the program is \<open>ndsctl.c\<close>), and a thread that looks at the clients at
  intervals (\<open>auth.c\<close>). They work through the client list (\<open>client_list.c\<close>), the state changes of a
  client (\<open>auth.c\<close>) and the commands for the firewall and the traffic control (\<open>fw_iptables.c\<close>, \<open>tc.c\<close>), which are
  run by the shell (\<open>util.c\<close>).

  \<^bold>\<open>The state.\<close> The record \<open>nds\<close> (theory \<open>Nds_State\<close>) holds the static variables of all files: the
  configuration, the client list with its counters, the firewall marks, and, as ghost state, the log of the commands
  that were run and the numbers of calls of \<open>time\<close> and \<open>rand\<close>. The record \<open>env\<close> is the surroundings: what a
  shell command answers, given the commands before it, the clock and the random numbers. An operation of the
  code is a function on these with the name of the C function; a state it changes is an argument and a
  result; NULL is \<^const>\<open>None\<close>; \<open>exit(n)\<close> is \<^const>\<open>Inl\<close>; a C \<open>int\<close> is an \<^typ>\<open>int\<close> wrapped by \<open>to_int32\<close> where it may
  overflow, an \<open>unsigned\<close> a word; a store out of bounds, a wait that does not end and a loop that does not end are
  \<^const>\<open>None\<close>.

  \<^bold>\<open>The theories\<close>, with the files they model:
  \<^item> \<open>Nds_Prelude\<close>, \<open>Libc\<close>: C strings and buffers, numbers, \<open>printf\<close> and \<open>scanf\<close> formats, \<open>inet_pton\<close>, \<open>ether_aton\<close>.
  \<^item> \<open>Conf\<close>, \<open>Conf_Parse\<close>: \<open>conf.h\<close>, \<open>conf.c\<close>. The configuration, the MAC lists (locale \<open>mac_list\<close>, interpreted for
    the three lists) and the reader of the configuration file; it ends with a well-formed configuration or
    exits.
  \<^item> \<open>Host\<close>: \<open>debug.c\<close>, \<open>safe.c\<close>, the interface addresses of \<open>util.c\<close>, the signal handlers of \<open>main.c\<close> and the
    control socket of \<open>ndsctl_thread.c\<close>, over the results of the system calls.
  \<^item> \<open>Nds_State\<close>, \<open>Client_List\<close>, \<open>Client_Heap\<close>: \<open>client_list.h\<close>, \<open>client_list.c\<close>. A client pointer is an address; the
    list is a list of addresses with contents (locale \<open>client_finder\<close>, interpreted for the five searches). \<open>Client_Heap\<close>
    has the pointer code on a heap of linked nodes and shows that it refines the list (locale \<open>list_refinement\<close>).
  \<^item> \<open>Tc\<close>, \<open>Fw_Iptables\<close>: \<open>tc.c\<close>, \<open>fw_iptables.c\<close>. Every command, in order, with the treatment of its result.
  \<^item> \<open>Auth\<close>, \<open>Auth_Rules\<close>, \<open>Auth_Sessions\<close>: \<open>auth.c\<close>. The state changes and the two loops over a list from which
    clients are deleted meanwhile (locale \<open>client_visit\<close>, interpreted for both). \<open>Auth_Rules\<close> abstracts the log of
    commands to a multiset of rules and shows that it is the rules of the authenticated clients;
    \<open>Auth_Sessions\<close> shows which state changes are possible and what the loops achieve.
  \<^item> \<open>Path\<close>, \<open>Http_Utils\<close>, \<open>Template\<close>, \<open>Http\<close>: \<open>path.c\<close>, \<open>http_microhttpd_utils.c\<close>, \<open>template.c\<close>, \<open>http_microhttpd.c\<close>.
    Buffers are lists of fixed length; each routine is related to a reference definition without buffers.
  \<^item> \<open>Status\<close>, \<open>Ndsctl_Thread\<close>, \<open>Ndsctl\<close>: the reports of \<open>util.c\<close>, \<open>ndsctl_thread.c\<close>, \<open>ndsctl.c\<close>. The two ends
    of the control protocol, and that they agree.
  \<^item> \<open>State_File\<close>: \<open>state_file.c\<close>, over a JSON library with the laws \<open>json_laws\<close>.
  \<^item> \<open>Handlers\<close>: the contract of the handlers that run on the shared state (locale \<open>gateway_handler\<close>, with \<open>tame_handler\<close>
    for those that take no client; interpreted for the web server, the control thread and the check).
  \<^item> \<open>Nds_Main\<close>, \<open>Setup\<close>, \<open>Gateway\<close>: \<open>commandline.c\<close>, \<open>main.c\<close>, and the gateway as a transition system: events in any
    order after a start, and what holds in every state that can be reached.
  \<^item> \<open>Sections\<close>, \<open>Races\<close>: the same handlers cut into their critical sections, and the three threads interleaved in any
    way; that the handlers of \<open>Gateway\<close> are among the interleavings, what holds of all of them, and what
    can happen to the client of a web request meanwhile.
  \<^item> \<open>Locks\<close>: the two mutexes (\<open>client_list.h\<close>, \<open>conf.h\<close>) and the order in which every function takes them, for threads
    that are interleaved in any way.

  \<^bold>\<open>What is shown.\<close> Of the whole: the firewall holds the rules of the authenticated clients at all times,
  nobody is authenticated without a request that proves it knows the token or a command of the
  administrator, a shutdown removes the rules (these under the hypotheses below), the rules of the set-up reject what is not
  accepted for a reason, and the threads cannot block each other for ever. Of the parts: invariants of the client list, the MAC lists
  and the configuration; the exact effect of the operations; termination of the loops over the list; round trips of
  the URL coding, the control protocol and the state file; absence of traversal and of overruns where it
  holds, and the overruns, losses and hangs where it does not. Theorems that show a defect are
  stated for the code as it is.

  \<^bold>\<open>Bounds and fuel.\<close> \<open>client_walk\<close> takes one more step than the list is long, and \<open>fw_refresh_total\<close> shows
  that this is always enough. Reads and writes on connections are lists of results; \<^const>\<open>None\<close> is a
  loop that still waits at the end of the list. \<open>iptables_fw_destroy_mention\<close> is a partial function, as the C
  function need not end. Client ids are distinct after a start that imports no clients, for traces shorter than
  \<open>2 ^ 31 - 2\<close>.

  \<^bold>\<open>Hypotheses.\<close> \<open>shell_ok\<close>: every command succeeds (only for the statements about the firewall);
  \<open>binauth_ok\<close>: the program for authentication is not called like iptables; \<open>json_laws\<close>: what is
  stored in a JSON object can be read back; \<open>no_import\<close>: the start imports no clients, because the program is built without
  state files or there is no file that can be read; \<open>ids_inv\<close>: no two clients have the same id. The last two
  belong together. By default the program is built with a state file; if it finds one at the start it imports the
  clients, authenticates again those that were authenticated, and does not restore the counter of ids, so that a
  later client can get an id that is in use (\<open>import_duplicate_id\<close>). The theorems about the whole gateway are
  therefore about starts without an import, and theorems about a handler state the distinctness of ids where they
  need it; \<open>duplicate_id_not_visited\<close>, \<open>duplicate_id_authenticates_other\<close> and \<open>ndsctl_auth_duplicate_id\<close> show what
  goes wrong without it.

  \<^bold>\<open>Threads.\<close> In \<open>Gateway\<close> a handler runs to its end before the next one starts. In \<open>Sections\<close> the other threads
  run wherever a handler does not hold the lock of the client list; \<open>interleaving_contains_sequences\<close> relates the two,
  and \<open>firewall_matches_interleaved\<close> shows that the firewall agrees with the list there, too. The web server keeps
  its pointer to the client across these points: \<open>no_use_after_free\<close> and \<open>request_uses_freed_client\<close> say when this is
  safe and when not, and \<open>session_stored_after_deauth\<close> what a deauthentication in between leaves behind. A section is
  one step: the search of the web server, which takes no lock, is assumed not to meet a change of the list halfway.
  \<open>Locks\<close> has the lock operations of all functions, without the data, and shows that they do not block each other. A
  termination signal is a step of its own there; that it can find its own thread in possession of the mutex
  is \<open>sigterm_self_deadlock\<close>. The web server is started before the start is complete; what it does until then is
  not part of the traces and the interleavings (\<open>served_before_marks\<close> and \<open>flush_leaves_dangling\<close> treat two cases).

  \<^bold>\<open>Not modelled.\<close> libmicrohttpd, json-c, the kernel and the shell commands are parameters. The usage texts are left
  out, as is the NetBSD branch of \<open>get_iface_mac\<close>. The effect of the
  firewall rules on packets is a matter of iptables, not of this program.
\<close>

end
